(* ===== verification/Sponge_Prelude.thy ===== *)
theory Sponge_Prelude
  imports Main "HOL-Library.Word" "HOL-Library.Sublist" "HOL-Library.Code_Target_Nat" "HOL-Library.Code_Target_Int"
begin

text \<open>
  The vocabulary every component of the library shares: bytes and machine sizes, the failures a
  call of the C++ code can end in, the size_t arithmetic of a 64-bit build with its wrap-around
  written out, and the generic facts on lists that the component theories use.

  A size_t or uint64_t is a natural number; every place where the code adds or subtracts two of
  them uses \<open>add64\<close> and \<open>sub64\<close>, which reduce modulo \<open>SIZE_MOD\<close>.
  The facts \<open>add64_exact\<close> and \<open>sub64_exact\<close> say when they are the plain
  operations; \<open>sub64_wrap\<close> says what an underflow gives.
\<close>

named_theorems size_arith \<open>when the wrapping operations on sizes are the plain ones\<close>

named_theorems result_simps \<open>how a failing call propagates\<close>

named_theorems release \<open>what dropping the asserts of an operation keeps\<close>

type_synonym byte = "8 word"
type_synonym bytes = "8 word list"
type_synonym size_t = nat
type_synonym uint64 = nat

section \<open>Failures as values\<close>

text \<open>
  \<open>OutOfRange\<close>, \<open>RuntimeError\<close>, \<open>InvalidArgument\<close>: the exceptions std::out\_of\_range,
  std::runtime\_error and std::invalid\_argument the code throws; \<open>LengthError\<close>: the std::length\_error of a string
  that would be longer than std::string::max\_size; \<open>SystemError e\<close>: a tagged\_error
  (unix\_error, or a failure of getaddrinfo or getnameinfo) with its error code;
  \<open>BadOptionalAccess\<close>: the value of an empty std::optional. \<open>OutOfBounds\<close>: a view or an iterator
  range that leaves its storage (undefined behaviour; in the reassembler also the length that is beyond
  std::string::max\_size, as its theory says).
  \<open>AssertionFailed\<close>: an assert of a build without NDEBUG. \<open>Diverged\<close>: a loop whose model ran out of
  the passes it was given; every such loop comes with a lemma that its bound is enough.
\<close>

datatype cpp_error =
  OutOfRange | LengthError | RuntimeError | InvalidArgument | SystemError int | BadOptionalAccess | OutOfBounds |
  AssertionFailed | Diverged

type_synonym 'a result = "cpp_error + 'a"

definition result_bind :: "'a result \<Rightarrow> ('a \<Rightarrow> 'b result) \<Rightarrow> 'b result" where
  "result_bind r f = (case r of Inl e \<Rightarrow> Inl e | Inr x \<Rightarrow> f x)"

text \<open>An assert: skipped when \<open>nd\<close> (NDEBUG is defined, the Release build), fatal otherwise.\<close>

definition cpp_assert :: "bool \<Rightarrow> bool \<Rightarrow> unit result" where
  "cpp_assert nd c = (if nd \<or> c then Inr () else Inl AssertionFailed)"

lemma result_bind_simps [simp, result_simps]:
  "result_bind (Inl e) f = Inl e"
  "result_bind (Inr x) f = f x"
  by (simp_all add: result_bind_def)

lemma result_bind_Inr_iff [result_simps]:
  "result_bind r f = Inr y \<longleftrightarrow> (\<exists>x. r = Inr x \<and> f x = Inr y)"
  by (cases r) auto

lemma result_bind_assoc: "result_bind (result_bind r f) g = result_bind r (\<lambda>x. result_bind (f x) g)"
  by (cases r) simp_all

lemma result_bind_cong [fundef_cong]:
  "r = r' \<Longrightarrow> (\<And>x. r' = Inr x \<Longrightarrow> f x = f' x) \<Longrightarrow> result_bind r f = result_bind r' f'"
  by (cases r') auto

lemma cpp_assert_holds [simp]: "c \<Longrightarrow> cpp_assert nd c = Inr ()"
  by (simp add: cpp_assert_def)

lemma cpp_assert_release [simp]: "cpp_assert True c = Inr ()"
  by (simp add: cpp_assert_def)

text \<open>
  \<open>f'\<close> returns whatever \<open>f\<close> returns. With \<open>f\<close> the Debug build and \<open>f'\<close> the Release build of an
  operation this is what dropping its asserts may change: only failures.
\<close>

definition returns_as :: "'a result \<Rightarrow> 'a result \<Rightarrow> bool" where
  "returns_as f f' \<longleftrightarrow> (\<forall>x. f = Inr x \<longrightarrow> f' = Inr x)"

lemma returns_as_refl [simp, release]: "returns_as f f"
  by (simp add: returns_as_def)

lemma returns_as_assert [release]: "returns_as (cpp_assert False c) (cpp_assert True c)"
  by (simp add: returns_as_def)

lemma returns_as_bind [release]:
  "returns_as f f' \<Longrightarrow> (\<And>x. returns_as (g x) (g' x)) \<Longrightarrow> returns_as (result_bind f g) (result_bind f' g')"
  by (auto simp: returns_as_def result_bind_Inr_iff)

lemma returns_as_if [release]:
  "returns_as f f' \<Longrightarrow> returns_as g g' \<Longrightarrow> returns_as (if c then f else g) (if c then f' else g')"
  by simp

lemma returns_as_let [release]: "(\<And>x. returns_as (f x) (f' x)) \<Longrightarrow> returns_as (Let a f) (Let a f')"
  by simp

lemma returns_as_case_prod [release]:
  "(\<And>a b. returns_as (f a b) (f' a b)) \<Longrightarrow> returns_as (case_prod f p) (case_prod f' p)"
  by (cases p) simp

lemma returns_as_case_option [release]:
  "returns_as f f' \<Longrightarrow> (\<And>a. returns_as (g a) (g' a)) \<Longrightarrow> returns_as (case_option f g x) (case_option f' g' x)"
  by (cases x) simp_all

section \<open>Sizes\<close>

definition SIZE_MOD :: nat where
  "SIZE_MOD = 2 ^ 64"

definition add64 :: "nat \<Rightarrow> nat \<Rightarrow> nat" where
  "add64 a b = (a + b) mod SIZE_MOD"

definition sub64 :: "nat \<Rightarrow> nat \<Rightarrow> nat" where
  "sub64 a b = (a + (SIZE_MOD - b mod SIZE_MOD)) mod SIZE_MOD"

lemma SIZE_MOD_pos [simp]: "0 < SIZE_MOD"
  by (simp add: SIZE_MOD_def)

lemma add64_less [simp]: "add64 a b < SIZE_MOD"
  by (simp add: add64_def)

lemma sub64_less [simp]: "sub64 a b < SIZE_MOD"
  by (simp add: sub64_def)

lemma add64_exact [size_arith]: "a + b < SIZE_MOD \<Longrightarrow> add64 a b = a + b"
  by (simp add: add64_def)

lemma sub64_exact [size_arith]:
  assumes "b \<le> a" and "a < SIZE_MOD"
  shows "sub64 a b = a - b"
proof -
  from assms have "a + (SIZE_MOD - b mod SIZE_MOD) = (a - b) + SIZE_MOD"
    by simp
  then have "sub64 a b = (a - b) mod SIZE_MOD"
    by (simp only: sub64_def mod_add_self2)
  with assms show ?thesis by simp
qed

lemma sub64_wrap [size_arith]:
  assumes "a < b" and "b < SIZE_MOD"
  shows "sub64 a b = SIZE_MOD - (b - a)"
proof -
  from assms have "a + (SIZE_MOD - b mod SIZE_MOD) = SIZE_MOD - (b - a)"
    by simp
  moreover from assms have "SIZE_MOD - (b - a) < SIZE_MOD" by simp
  ultimately show ?thesis by (simp add: sub64_def)
qed

lemma sub64_self [simp]: "a < SIZE_MOD \<Longrightarrow> sub64 a a = 0"
  by (simp add: sub64_exact)

lemma sub64_0 [simp]: "a < SIZE_MOD \<Longrightarrow> sub64 a 0 = a"
  by (simp add: sub64_exact)

lemma add64_0 [simp]: "a < SIZE_MOD \<Longrightarrow> add64 a 0 = a"
  by (simp add: add64_exact)

text \<open>A difference of two counters survives the wrap-around of both.\<close>

lemma sub64_add64_left:
  assumes "a < SIZE_MOD" "b < SIZE_MOD" and "sub64 a b + n < SIZE_MOD"
  shows "sub64 (add64 a n) b = sub64 a b + n"
proof -
  have b: "b mod SIZE_MOD = b" using assms(2) by simp
  have "sub64 (add64 a n) b = ((a + n) + (SIZE_MOD - b)) mod SIZE_MOD"
    unfolding sub64_def add64_def b by (rule mod_add_left_eq)
  also have "\<dots> = ((a + (SIZE_MOD - b)) + n) mod SIZE_MOD"
    by (simp only: add.commute add.left_commute)
  also have "\<dots> = ((a + (SIZE_MOD - b)) mod SIZE_MOD + n) mod SIZE_MOD"
    by (simp only: mod_add_left_eq)
  also have "\<dots> = (sub64 a b + n) mod SIZE_MOD"
    by (simp only: sub64_def b)
  also have "\<dots> = sub64 a b + n"
    using assms(3) by simp
  finally show ?thesis .
qed

lemma sub64_add64_right:
  assumes "a < SIZE_MOD" "b < SIZE_MOD" and "n \<le> sub64 a b"
  shows "sub64 a (add64 b n) = sub64 a b - n"
proof (cases "b \<le> a")
  case True
  with assms have "n \<le> a - b" by (simp add: sub64_exact)
  with True assms show ?thesis by (simp add: sub64_exact add64_exact)
next
  case False
  then have d: "sub64 a b = SIZE_MOD - (b - a)" using assms by (simp add: sub64_wrap)
  with assms have n: "n \<le> SIZE_MOD - (b - a)" by simp
  show ?thesis
  proof (cases "b + n < SIZE_MOD")
    case True
    with False d show ?thesis by (simp add: add64_exact sub64_wrap)
  next
    case wrapped: False
    with assms False n have "add64 b n = b + n - SIZE_MOD" and "b + n - SIZE_MOD \<le> a"
      by (auto simp: add64_def mod_if)
    with d assms wrapped False show ?thesis by (simp add: sub64_exact)
  qed
qed

text \<open>The values of the fixed-width integers of the headers.\<close>

lemma unat_width_less [simp]:
  "unat (w8 :: 8 word) < 256" "unat (w16 :: 16 word) < 65536" "unat (w32 :: 32 word) < 4294967296"
  using unsigned_less [of w8, where ?'a = nat] unsigned_less [of w16, where ?'a = nat]
    unsigned_less [of w32, where ?'a = nat] by simp_all

section \<open>Lists\<close>

lemma take_drop_extent: "take n (drop m xs) = drop m (take (m + n) xs)"
  by (simp add: take_drop add.commute)

text \<open>\<open>extent xs a b\<close>: the elements of \<open>xs\<close> from position \<open>a\<close> up to, and without, \<open>b\<close>.\<close>

definition extent :: "'a list \<Rightarrow> nat \<Rightarrow> nat \<Rightarrow> 'a list" where
  "extent xs a b = drop a (take b xs)"

lemma length_extent [simp]: "b \<le> length xs \<Longrightarrow> length (extent xs a b) = b - a"
  by (simp add: extent_def)

lemma extent_same [simp]: "extent xs a a = []"
  by (simp add: extent_def)

lemma extent_append:
  assumes "a \<le> b" and "b \<le> c"
  shows "extent xs a b @ extent xs b c = extent xs a c"
proof -
  have "take c xs = take b xs @ drop b (take c xs)"
    using assms by (metis append_take_drop_id min_absorb1 take_take)
  then have "drop a (take c xs) = drop a (take b xs) @ drop (a - length (take b xs)) (drop b (take c xs))"
    by (metis drop_append)
  moreover have "drop (a - length (take b xs)) (drop b (take c xs)) = drop b (take c xs)"
    using assms by (cases "b \<le> length xs") (auto simp: min_def)
  ultimately show ?thesis by (simp add: extent_def)
qed

lemma drop_extent: "drop n (extent xs a b) = extent xs (a + n) b"
  by (simp add: extent_def add.commute)

lemma take_extent: "a + n \<le> b \<Longrightarrow> take n (extent xs a b) = extent xs a (a + n)"
  by (simp add: extent_def take_drop add.commute min_def)

lemma extent_0 [simp]: "extent xs 0 b = take b xs"
  by (simp add: extent_def)

section \<open>Step relations and their invariants\<close>

text \<open>
  The contract between a component and whoever drives it: a set of initial states, a step relation
  (one step per call of a public operation) and an invariant that initial states have and steps
  keep. Every stateful component of the library interprets this locale.
\<close>

locale driven_component =
  fixes initial :: "'s \<Rightarrow> bool"
    and step :: "'s \<Rightarrow> 's \<Rightarrow> bool"
    and invariant :: "'s \<Rightarrow> bool"
  assumes initial_invariant: "initial s \<Longrightarrow> invariant s"
    and step_invariant: "step s t \<Longrightarrow> invariant s \<Longrightarrow> invariant t"
begin

lemma steps_invariant:
  assumes "rtranclp step s t" and "invariant s"
  shows "invariant t"
  using assms by (induction rule: rtranclp_induct) (auto intro: step_invariant)

lemma reachable_invariant:
  assumes "initial s" and "rtranclp step s t"
  shows "invariant t"
  using assms(2) initial_invariant [OF assms(1)] by (rule steps_invariant)

lemma reachable_cases:
  assumes "initial s" and "rtranclp step s t" and "\<And>u. invariant u \<Longrightarrow> P u"
  shows "P t"
  using assms reachable_invariant by blast

end

end
