(* ===== verification/Buffers.thy ===== *)
theory Buffers
  imports Sponge_Prelude
begin

text \<open>
  libsponge/util/buffer.hh and buffer.cc: a reference-counted read-only string that can discard
  bytes from its front (\<open>Buffer\<close>), a deque of them (\<open>BufferList\<close>) and the non-owning view list
  (\<open>BufferViewList\<close>). The shared storage is never written after construction, so sharing is not
  observable and the storage is its contents; \<open>None\<close> is the empty shared\_ptr.

  The interface the three classes share, a byte container that can drop a prefix, is the locale
  \<open>prefix_container\<close>; each class interprets it.
\<close>

section \<open>Buffer\<close>

record Buffer =
  buf_storage :: "bytes option"
  buf_starting_offset :: size_t

definition Buffer_default :: Buffer where
  "Buffer_default = \<lparr>buf_storage = None, buf_starting_offset = 0\<rparr>"

definition Buffer_of_string :: "bytes \<Rightarrow> Buffer" where
  "Buffer_of_string s = \<lparr>buf_storage = Some s, buf_starting_offset = 0\<rparr>"

definition Buffer_str :: "Buffer \<Rightarrow> bytes" where
  "Buffer_str b =
     (case buf_storage b of
        None \<Rightarrow> []
      | Some s \<Rightarrow> take (sub64 (length s) (buf_starting_offset b)) (drop (buf_starting_offset b) s))"

definition Buffer_size :: "Buffer \<Rightarrow> size_t" where
  "Buffer_size b = length (Buffer_str b)"

text \<open>\<open>str(len)\<close> asserts \<open>size() <= len\<close> and then views \<open>len\<close> bytes of the storage.\<close>

definition Buffer_str_len :: "bool \<Rightarrow> Buffer \<Rightarrow> size_t \<Rightarrow> bytes result" where
  "Buffer_str_len nd b len =
     (case buf_storage b of
        None \<Rightarrow> Inr []
      | Some s \<Rightarrow>
          result_bind (cpp_assert nd (Buffer_size b \<le> len)) (\<lambda>_.
            if buf_starting_offset b + len \<le> length s
            then Inr (take len (drop (buf_starting_offset b) s))
            else Inl OutOfBounds))"

definition Buffer_at :: "Buffer \<Rightarrow> size_t \<Rightarrow> byte result" where
  "Buffer_at b n = (if n < length (Buffer_str b) then Inr (Buffer_str b ! n) else Inl OutOfRange)"

definition Buffer_copy :: "Buffer \<Rightarrow> bytes" where
  "Buffer_copy b = Buffer_str b"

definition Buffer_remove_prefix :: "size_t \<Rightarrow> Buffer \<Rightarrow> Buffer result" where
  "Buffer_remove_prefix n b =
     (if n > length (Buffer_str b) then Inl OutOfRange
      else
        let off = add64 (buf_starting_offset b) n;
            b' = b\<lparr>buf_starting_offset := off\<rparr>
        in Inr (case buf_storage b of
                  None \<Rightarrow> b'
                | Some s \<Rightarrow> if off = length s then b'\<lparr>buf_storage := None\<rparr> else b'))"

section \<open>BufferList\<close>

type_synonym BufferList = "Buffer list"

definition BufferList_of_Buffer :: "Buffer \<Rightarrow> BufferList" where
  "BufferList_of_Buffer b = [b]"

definition BufferList_append :: "BufferList \<Rightarrow> BufferList \<Rightarrow> BufferList" where
  "BufferList_append bl other = bl @ other"

definition BufferList_of_string :: "bytes \<Rightarrow> BufferList" where
  "BufferList_of_string s = BufferList_append [] (BufferList_of_Buffer (Buffer_of_string s))"

definition BufferList_to_Buffer :: "BufferList \<Rightarrow> Buffer result" where
  "BufferList_to_Buffer bl =
     (case bl of [] \<Rightarrow> Inr Buffer_default | [b] \<Rightarrow> Inr b | _ \<Rightarrow> Inl RuntimeError)"

fun BufferList_concatenate :: "BufferList \<Rightarrow> bytes" where
  "BufferList_concatenate [] = []"
| "BufferList_concatenate (b # bl) = Buffer_str b @ BufferList_concatenate bl"

fun BufferList_size_loop :: "size_t \<Rightarrow> BufferList \<Rightarrow> size_t" where
  "BufferList_size_loop ret [] = ret"
| "BufferList_size_loop ret (b # bl) = BufferList_size_loop (add64 ret (Buffer_size b)) bl"

definition BufferList_size :: "BufferList \<Rightarrow> size_t" where
  "BufferList_size bl = BufferList_size_loop 0 bl"

fun BufferList_remove_prefix :: "size_t \<Rightarrow> BufferList \<Rightarrow> BufferList result" where
  "BufferList_remove_prefix n [] = (if n > 0 then Inl OutOfRange else Inr [])"
| "BufferList_remove_prefix n (b # bl) =
     (if n > 0 then
        if n < length (Buffer_str b)
        then result_bind (Buffer_remove_prefix n b) (\<lambda>b'. Inr (b' # bl))
        else BufferList_remove_prefix (n - length (Buffer_str b)) bl
      else Inr (b # bl))"

section \<open>BufferViewList\<close>

type_synonym BufferViewList = "bytes list"

record iovec =
  iov_base :: bytes
  iov_len :: size_t

definition BufferViewList_of_string :: "bytes \<Rightarrow> BufferViewList" where
  "BufferViewList_of_string s = [s]"

definition BufferViewList_of_BufferList :: "BufferList \<Rightarrow> BufferViewList" where
  "BufferViewList_of_BufferList bl = map Buffer_str bl"

fun BufferViewList_remove_prefix :: "size_t \<Rightarrow> BufferViewList \<Rightarrow> BufferViewList result" where
  "BufferViewList_remove_prefix n [] = (if n > 0 then Inl OutOfRange else Inr [])"
| "BufferViewList_remove_prefix n (v # vs) =
     (if n > 0 then
        if n < length v then Inr (drop n v # vs)
        else BufferViewList_remove_prefix (n - length v) vs
      else Inr (v # vs))"

fun BufferViewList_size_loop :: "size_t \<Rightarrow> BufferViewList \<Rightarrow> size_t" where
  "BufferViewList_size_loop ret [] = ret"
| "BufferViewList_size_loop ret (v # vs) = BufferViewList_size_loop (add64 ret (length v)) vs"

definition BufferViewList_size :: "BufferViewList \<Rightarrow> size_t" where
  "BufferViewList_size vs = BufferViewList_size_loop 0 vs"

definition BufferViewList_as_iovecs :: "BufferViewList \<Rightarrow> iovec list" where
  "BufferViewList_as_iovecs vs = map (\<lambda>x. \<lparr>iov_base = x, iov_len = length x\<rparr>) vs"

section \<open>The contract of a container that can discard bytes from its front\<close>

locale prefix_container =
  fixes wf :: "'b \<Rightarrow> bool"
    and content :: "'b \<Rightarrow> bytes"
    and remove_prefix :: "size_t \<Rightarrow> 'b \<Rightarrow> 'b result"
    and size_of :: "'b \<Rightarrow> size_t"
  assumes content_bounded: "wf b \<Longrightarrow> length (content b) < SIZE_MOD"
    and size_of_content: "wf b \<Longrightarrow> size_of b = length (content b)"
    and remove_prefix_ok:
      "wf b \<Longrightarrow> n \<le> length (content b) \<Longrightarrow>
         \<exists>b'. remove_prefix n b = Inr b' \<and> wf b' \<and> content b' = drop n (content b)"
    and remove_prefix_too_long:
      "wf b \<Longrightarrow> length (content b) < n \<Longrightarrow> remove_prefix n b = Inl OutOfRange"
begin

lemma remove_prefix_Inr:
  assumes "wf b" and "remove_prefix n b = Inr b'"
  shows "n \<le> length (content b) \<and> wf b' \<and> content b' = drop n (content b)"
proof -
  have "n \<le> length (content b)"
    using assms remove_prefix_too_long [of b n] by force
  with assms show ?thesis using remove_prefix_ok [of b n] by auto
qed

lemma remove_prefix_fails_iff:
  "wf b \<Longrightarrow> (\<exists>e. remove_prefix n b = Inl e) \<longleftrightarrow> size_of b < n"
  using remove_prefix_ok [of b n] remove_prefix_too_long [of b n]
  by (auto simp: size_of_content not_le [symmetric])

text \<open>Discarding in two steps is discarding once.\<close>

lemma remove_prefix_twice:
  assumes "wf b" and "m + n \<le> size_of b"
  shows "\<exists>b1 b2 b3. remove_prefix m b = Inr b1 \<and> remove_prefix n b1 = Inr b2 \<and>
           remove_prefix (m + n) b = Inr b3 \<and> content b2 = content b3 \<and> size_of b2 = size_of b3"
proof -
  from assms have len: "m + n \<le> length (content b)" by (simp add: size_of_content)
  then obtain b1 where b1: "remove_prefix m b = Inr b1" "wf b1" "content b1 = drop m (content b)"
    using remove_prefix_ok [of b m] assms(1) by auto
  with len have "n \<le> length (content b1)" by simp
  with b1(2) obtain b2 where b2: "remove_prefix n b1 = Inr b2" "wf b2" "content b2 = drop n (content b1)"
    using remove_prefix_ok by blast
  from len obtain b3 where b3: "remove_prefix (m + n) b = Inr b3" "wf b3" "content b3 = drop (m + n) (content b)"
    using remove_prefix_ok [of b "m + n"] assms(1) by auto
  have "content b2 = content b3" using b1 b2 b3 by (simp add: add.commute)
  with b1 b2 b3 show ?thesis by (simp add: size_of_content)
qed

end

section \<open>Buffers meet the contract\<close>

definition Buffer_wf :: "Buffer \<Rightarrow> bool" where
  "Buffer_wf b \<longleftrightarrow>
     (case buf_storage b of
        None \<Rightarrow> buf_starting_offset b < SIZE_MOD
      | Some s \<Rightarrow> buf_starting_offset b \<le> length s \<and> length s < SIZE_MOD)"

lemma Buffer_str_wf:
  "Buffer_wf b \<Longrightarrow> buf_storage b = Some s \<Longrightarrow> Buffer_str b = drop (buf_starting_offset b) s"
  by (simp add: Buffer_str_def Buffer_wf_def size_arith)

lemma Buffer_str_None [simp]: "buf_storage b = None \<Longrightarrow> Buffer_str b = []"
  by (simp add: Buffer_str_def)

lemma Buffer_str_of_string [simp]:
  "length s < SIZE_MOD \<Longrightarrow> Buffer_str (Buffer_of_string s) = s"
  by (simp add: Buffer_str_def Buffer_of_string_def)

lemma Buffer_wf_of_string [simp]: "length s < SIZE_MOD \<Longrightarrow> Buffer_wf (Buffer_of_string s)"
  by (simp add: Buffer_wf_def Buffer_of_string_def)

lemma Buffer_default_simps [simp]: "Buffer_str Buffer_default = []" "Buffer_wf Buffer_default"
  by (simp_all add: Buffer_wf_def Buffer_default_def Buffer_str_def)

lemma Buffer_str_bounded: "Buffer_wf b \<Longrightarrow> length (Buffer_str b) < SIZE_MOD"
  by (cases "buf_storage b") (auto simp: Buffer_str_wf Buffer_wf_def)

lemma Buffer_remove_prefix_ok:
  assumes "Buffer_wf b" and "n \<le> length (Buffer_str b)"
  shows "\<exists>b'. Buffer_remove_prefix n b = Inr b' \<and> Buffer_wf b' \<and> Buffer_str b' = drop n (Buffer_str b)"
proof (cases "buf_storage b")
  case None
  with assms show ?thesis by (simp add: Buffer_remove_prefix_def Buffer_wf_def)
next
  case (Some s)
  let ?off = "buf_starting_offset b"
  have str: "Buffer_str b = drop ?off s" and off: "?off \<le> length s" "length s < SIZE_MOD"
    using assms(1) Some by (auto simp: Buffer_str_wf Buffer_wf_def)
  with assms(2) have n: "?off + n \<le> length s" by simp
  then have add: "add64 ?off n = ?off + n" using off by (simp add: size_arith)
  show ?thesis
  proof (cases "?off + n = length s")
    case True
    with Some str off add n show ?thesis
      by (simp add: Buffer_remove_prefix_def Buffer_wf_def)
  next
    case False
    let ?b = "b\<lparr>buf_starting_offset := ?off + n\<rparr>"
    have "Buffer_wf ?b" using Some off n by (simp add: Buffer_wf_def)
    moreover have "Buffer_str ?b = drop n (Buffer_str b)"
      using calculation Some str by (simp add: Buffer_str_wf add.commute)
    ultimately show ?thesis
      using False Some str off add n by (simp add: Buffer_remove_prefix_def)
  qed
qed

interpretation buffer: prefix_container Buffer_wf Buffer_str Buffer_remove_prefix Buffer_size
proof unfold_locales
  show "length (Buffer_str b) < SIZE_MOD" if "Buffer_wf b" for b
    using that by (rule Buffer_str_bounded)
  show "Buffer_size b = length (Buffer_str b)" if "Buffer_wf b" for b
    by (simp add: Buffer_size_def)
  show "\<exists>b'. Buffer_remove_prefix n b = Inr b' \<and> Buffer_wf b' \<and> Buffer_str b' = drop n (Buffer_str b)"
    if "Buffer_wf b" "n \<le> length (Buffer_str b)" for b n
    using that by (rule Buffer_remove_prefix_ok)
  show "Buffer_remove_prefix n b = Inl OutOfRange"
    if "Buffer_wf b" "length (Buffer_str b) < n" for b n
    using that by (simp add: Buffer_remove_prefix_def)
qed

section \<open>Buffer lists meet the contract\<close>

definition BufferList_wf :: "BufferList \<Rightarrow> bool" where
  "BufferList_wf bl \<longleftrightarrow> list_all Buffer_wf bl \<and> length (BufferList_concatenate bl) < SIZE_MOD"

lemma BufferList_concatenate_append [simp]:
  "BufferList_concatenate (xs @ ys) = BufferList_concatenate xs @ BufferList_concatenate ys"
  by (induction xs) auto

lemma BufferList_concatenate_of_string [simp]:
  "length s < SIZE_MOD \<Longrightarrow> BufferList_concatenate (BufferList_of_string s) = s"
  by (simp add: BufferList_of_string_def BufferList_of_Buffer_def BufferList_append_def)

lemma BufferList_size_loop:
  "ret + length (BufferList_concatenate bl) < SIZE_MOD \<Longrightarrow>
     BufferList_size_loop ret bl = ret + length (BufferList_concatenate bl)"
  by (induction bl arbitrary: ret) (auto simp: Buffer_size_def size_arith)

lemma BufferList_remove_prefix_ok:
  assumes "list_all Buffer_wf bl" and "n \<le> length (BufferList_concatenate bl)"
  shows "\<exists>bl'. BufferList_remove_prefix n bl = Inr bl' \<and> list_all Buffer_wf bl' \<and>
           BufferList_concatenate bl' = drop n (BufferList_concatenate bl)"
  using assms
proof (induction bl arbitrary: n)
  case Nil
  then show ?case by simp
next
  case (Cons b bl)
  show ?case
  proof (cases "0 < n \<and> n < length (Buffer_str b)")
    case True
    with Cons.prems obtain b' where "Buffer_remove_prefix n b = Inr b'" "Buffer_wf b'"
        "Buffer_str b' = drop n (Buffer_str b)"
      using Buffer_remove_prefix_ok [of b n] by auto
    with True Cons.prems show ?thesis by simp
  next
    case False
    with Cons.prems Cons.IH [of "n - length (Buffer_str b)"] show ?thesis by auto
  qed
qed

lemma BufferList_remove_prefix_too_long:
  "length (BufferList_concatenate bl) < n \<Longrightarrow> BufferList_remove_prefix n bl = Inl OutOfRange"
  by (induction bl arbitrary: n) auto

interpretation buffer_list:
  prefix_container BufferList_wf BufferList_concatenate BufferList_remove_prefix BufferList_size
proof unfold_locales
  show "length (BufferList_concatenate b) < SIZE_MOD" if "BufferList_wf b" for b
    using that by (simp add: BufferList_wf_def)
  show "BufferList_size b = length (BufferList_concatenate b)" if "BufferList_wf b" for b
    using that by (simp add: BufferList_wf_def BufferList_size_def BufferList_size_loop)
  show "\<exists>b'. BufferList_remove_prefix n b = Inr b' \<and> BufferList_wf b' \<and>
      BufferList_concatenate b' = drop n (BufferList_concatenate b)"
    if "BufferList_wf b" "n \<le> length (BufferList_concatenate b)" for b n
    using that BufferList_remove_prefix_ok [of b n] by (auto simp: BufferList_wf_def)
  show "BufferList_remove_prefix n b = Inl OutOfRange"
    if "BufferList_wf b" "length (BufferList_concatenate b) < n" for b n
    using that by (simp add: BufferList_remove_prefix_too_long)
qed

section \<open>View lists meet the contract\<close>

definition BufferViewList_wf :: "BufferViewList \<Rightarrow> bool" where
  "BufferViewList_wf vs \<longleftrightarrow> length (concat vs) < SIZE_MOD"

lemma BufferViewList_size_loop:
  "ret + length (concat vs) < SIZE_MOD \<Longrightarrow> BufferViewList_size_loop ret vs = ret + length (concat vs)"
  by (induction vs arbitrary: ret) (auto simp: size_arith)

lemma BufferViewList_remove_prefix_ok:
  "n \<le> length (concat vs) \<Longrightarrow>
     \<exists>vs'. BufferViewList_remove_prefix n vs = Inr vs' \<and> concat vs' = drop n (concat vs)"
  by (induction vs arbitrary: n) auto

interpretation buffer_view_list:
  prefix_container BufferViewList_wf concat BufferViewList_remove_prefix BufferViewList_size
proof unfold_locales
  show "length (concat b) < SIZE_MOD" if "BufferViewList_wf b" for b :: BufferViewList
    using that by (simp add: BufferViewList_wf_def)
  show "BufferViewList_size b = length (concat b)" if "BufferViewList_wf b" for b
    using that BufferViewList_size_loop [of 0 b]
    by (simp add: BufferViewList_wf_def BufferViewList_size_def)
  show "\<exists>b'. BufferViewList_remove_prefix n b = Inr b' \<and> BufferViewList_wf b' \<and>
      concat b' = drop n (concat b)"
    if "BufferViewList_wf b" "n \<le> length (concat b)" for b n
    using that BufferViewList_remove_prefix_ok [of n b] by (auto simp: BufferViewList_wf_def)
  show "BufferViewList_remove_prefix n b = Inl OutOfRange"
    if "BufferViewList_wf b" "length (concat b) < n" for b n
    using that(2) by (induction b arbitrary: n) auto
qed

lemma concat_views [simp]: "concat (BufferViewList_of_BufferList bl) = BufferList_concatenate bl"
  by (induction bl) (auto simp: BufferViewList_of_BufferList_def)

text \<open>The vector handed to writev(2) carries the bytes of the list, in order and nothing else.\<close>

lemma as_iovecs_carries:
  "concat (map iov_base (BufferViewList_as_iovecs (BufferViewList_of_BufferList bl)))
     = BufferList_concatenate bl"
  "list_all (\<lambda>v. iov_len v = length (iov_base v)) (BufferViewList_as_iovecs vs)"
proof -
  have "map iov_base (BufferViewList_as_iovecs us) = us" for us
    by (induction us) (auto simp: BufferViewList_as_iovecs_def)
  then show "concat (map iov_base (BufferViewList_as_iovecs (BufferViewList_of_BufferList bl)))
     = BufferList_concatenate bl" by simp
  show "list_all (\<lambda>v. iov_len v = length (iov_base v)) (BufferViewList_as_iovecs vs)"
    by (simp add: BufferViewList_as_iovecs_def list_all_iff)
qed

end
