(* ===== verification/Byte_Stream.thy ===== *)
theory Byte_Stream
  imports Buffers
begin

text \<open>
  libsponge/byte\_stream.hh and byte\_stream.cc: the flow-controlled in-memory byte stream.
  Bytes are written on the input side, up to the capacity, and peeked, popped or read on the
  output side.

  The operations that reach the inverted assert of \<open>Buffer::str(len)\<close> take the flag \<open>nd\<close> (NDEBUG):
  with \<open>True\<close> they are the Release build, the default of etc/build\_type.cmake.

  The counters \<open>bs_bytes_written\<close> and \<open>bs_bytes_read\<close> are free-running size\_t values. The invariant
  \<open>ByteStream_inv\<close> only speaks of their difference, so it survives their wrap-around.
\<close>

section \<open>State and operations\<close>

record ByteStream =
  bs_error :: bool
  bs_input_ended :: bool
  bs_capacity :: size_t
  bs_bytes_written :: size_t
  bs_bytes_read :: size_t
  bs_buffer :: BufferList

definition ByteStream_new :: "size_t \<Rightarrow> ByteStream" where
  "ByteStream_new capacity =
     \<lparr>bs_error = False, bs_input_ended = False, bs_capacity = capacity,
      bs_bytes_written = 0, bs_bytes_read = 0, bs_buffer = []\<rparr>"

definition buffer_size :: "ByteStream \<Rightarrow> size_t" where
  "buffer_size s = sub64 (bs_bytes_written s) (bs_bytes_read s)"

definition buffer_empty :: "ByteStream \<Rightarrow> bool" where
  "buffer_empty s \<longleftrightarrow> buffer_size s = 0"

definition eof :: "ByteStream \<Rightarrow> bool" where
  "eof s \<longleftrightarrow> bs_input_ended s \<and> buffer_empty s"

definition remaining_capacity :: "ByteStream \<Rightarrow> size_t" where
  "remaining_capacity s = sub64 (bs_capacity s) (buffer_size s)"

text \<open>The overload \<open>write(const string &)\<close>: copies the data, or the prefix that fits.\<close>

definition bs_write :: "ByteStream \<Rightarrow> bytes \<Rightarrow> ByteStream \<times> size_t" where
  "bs_write s data =
     (let data_size = length data;
          wc = min data_size (remaining_capacity s);
          s' = s\<lparr>bs_bytes_written := add64 (bs_bytes_written s) wc\<rparr>
      in if wc = data_size
         then (s'\<lparr>bs_buffer := BufferList_append (bs_buffer s') (BufferList_of_Buffer (Buffer_of_string data))\<rparr>, wc)
         else (s'\<lparr>bs_buffer := BufferList_append (bs_buffer s')
                                (BufferList_of_Buffer (Buffer_of_string (take wc data)))\<rparr>, wc))"

text \<open>The overload \<open>write(string &&)\<close>: resizes its argument and takes ownership of it.\<close>

definition bs_write_move :: "ByteStream \<Rightarrow> bytes \<Rightarrow> ByteStream \<times> size_t" where
  "bs_write_move s data =
     (let wc = min (length data) (remaining_capacity s);
          s' = s\<lparr>bs_bytes_written := add64 (bs_bytes_written s) wc\<rparr>
      in (s'\<lparr>bs_buffer := BufferList_append (bs_buffer s')
                             (BufferList_of_Buffer (Buffer_of_string (take wc data)))\<rparr>, wc))"

fun peek_loop :: "bool \<Rightarrow> size_t \<Rightarrow> bytes \<Rightarrow> BufferList \<Rightarrow> bytes result" where
  "peek_loop nd remain ret [] = Inr ret"
| "peek_loop nd remain ret (segment # rest) =
     (let segment_size = Buffer_size segment in
      if remain \<ge> segment_size then
        (let ret' = ret @ Buffer_str segment; remain' = remain - segment_size in
         if remain' = 0 then Inr ret' else peek_loop nd remain' ret' rest)
      else result_bind (Buffer_str_len nd segment remain) (\<lambda>v. Inr (ret @ v)))"

definition peek_output :: "bool \<Rightarrow> ByteStream \<Rightarrow> size_t \<Rightarrow> bytes result" where
  "peek_output nd s len = peek_loop nd (min len (buffer_size s)) [] (bs_buffer s)"

definition pop_output :: "ByteStream \<Rightarrow> size_t \<Rightarrow> ByteStream result" where
  "pop_output s len =
     (let rc = min len (buffer_size s);
          s' = s\<lparr>bs_bytes_read := add64 (bs_bytes_read s) rc\<rparr>
      in result_bind (BufferList_remove_prefix rc (bs_buffer s')) (\<lambda>bl. Inr (s'\<lparr>bs_buffer := bl\<rparr>)))"

definition bs_read :: "bool \<Rightarrow> ByteStream \<Rightarrow> size_t \<Rightarrow> (bytes \<times> ByteStream) result" where
  "bs_read nd s len =
     result_bind (peek_output nd s len) (\<lambda>res.
     result_bind (pop_output s len) (\<lambda>s'. Inr (res, s')))"

definition end_input :: "ByteStream \<Rightarrow> ByteStream" where
  "end_input s = s\<lparr>bs_input_ended := True\<rparr>"

definition set_error :: "ByteStream \<Rightarrow> ByteStream" where
  "set_error s = s\<lparr>bs_error := True\<rparr>"

definition input_ended :: "ByteStream \<Rightarrow> bool" where
  "input_ended s \<longleftrightarrow> bs_input_ended s"

definition bytes_written :: "ByteStream \<Rightarrow> size_t" where
  "bytes_written s = bs_bytes_written s"

definition bytes_read :: "ByteStream \<Rightarrow> size_t" where
  "bytes_read s = bs_bytes_read s"

section \<open>Abstraction and invariant\<close>

text \<open>What the stream holds, and the invariant every operation keeps.\<close>

abbreviation bs_contents :: "ByteStream \<Rightarrow> bytes" where
  "bs_contents s \<equiv> BufferList_concatenate (bs_buffer s)"

definition ByteStream_inv :: "ByteStream \<Rightarrow> bool" where
  "ByteStream_inv s \<longleftrightarrow>
     BufferList_wf (bs_buffer s) \<and>
     bs_bytes_written s < SIZE_MOD \<and> bs_bytes_read s < SIZE_MOD \<and> bs_capacity s < SIZE_MOD \<and>
     buffer_size s = length (bs_contents s) \<and>
     length (bs_contents s) \<le> bs_capacity s"

lemma ByteStream_inv_new [simp]: "capacity < SIZE_MOD \<Longrightarrow> ByteStream_inv (ByteStream_new capacity)"
  by (simp add: ByteStream_inv_def ByteStream_new_def BufferList_wf_def buffer_size_def)

lemma ByteStream_invD:
  assumes "ByteStream_inv s"
  shows "BufferList_wf (bs_buffer s)" "buffer_size s = length (bs_contents s)"
    "length (bs_contents s) \<le> bs_capacity s" "bs_capacity s < SIZE_MOD"
    "bs_bytes_written s < SIZE_MOD" "bs_bytes_read s < SIZE_MOD"
    "remaining_capacity s = bs_capacity s - length (bs_contents s)"
  using assms by (auto simp: ByteStream_inv_def remaining_capacity_def size_arith)

lemma bs_write_move_eq [simp]: "bs_write_move s data = bs_write s data"
  by (simp add: bs_write_def bs_write_move_def Let_def)

text \<open>The writer's contract: the longest prefix that fits is appended, and its length returned.\<close>

lemma bs_write_spec:
  assumes inv: "ByteStream_inv s" and w: "bs_write s data = (s', wc)"
  shows "ByteStream_inv s'"
    and "wc = min (length data) (bs_capacity s - length (bs_contents s))"
    and "bs_contents s' = bs_contents s @ take wc data"
    and "bs_bytes_written s' = add64 (bs_bytes_written s) wc"
    and "bs_bytes_read s' = bs_bytes_read s" "bs_capacity s' = bs_capacity s"
    and "bs_input_ended s' = bs_input_ended s" "bs_error s' = bs_error s"
proof -
  note i = ByteStream_invD [OF inv]
  show wc: "wc = min (length data) (bs_capacity s - length (bs_contents s))"
    using w i(7) by (auto simp: bs_write_def Let_def split: if_splits)
  have s': "s' = s\<lparr>bs_bytes_written := add64 (bs_bytes_written s) wc,
                  bs_buffer := bs_buffer s @ [Buffer_of_string (take wc data)]\<rparr>"
    using w by (auto simp: bs_write_def Let_def BufferList_append_def BufferList_of_Buffer_def
        split: if_splits)
  have len: "length (take wc data) = wc" and fits: "length (bs_contents s) + wc \<le> bs_capacity s"
    using wc i(3) by auto
  then have small: "wc < SIZE_MOD" using i(4) by simp
  show cont: "bs_contents s' = bs_contents s @ take wc data"
    using len small by (simp add: s')
  have "buffer_size s' = length (bs_contents s')"
    using i(2,5,6) fits i(4) len cont
    by (simp add: s' buffer_size_def sub64_add64_left)
  then show "ByteStream_inv s'"
    using inv cont len fits i(1,4) small
    by (simp add: ByteStream_inv_def s' BufferList_wf_def)
qed (use w in \<open>auto simp: bs_write_def Let_def split: if_splits\<close>)

section \<open>The reader's contract\<close>

lemma peek_loop_release:
  assumes "list_all Buffer_wf bl"
  shows "peek_loop True remain ret bl = Inr (ret @ take remain (BufferList_concatenate bl))"
  using assms
proof (induction bl arbitrary: remain ret)
  case Nil
  then show ?case by simp
next
  case (Cons b bl)
  show ?case
  proof (cases "Buffer_size b \<le> remain")
    case True
    with Cons show ?thesis by (auto simp: Buffer_size_def Let_def)
  next
    case False
    then obtain s where s: "buf_storage b = Some s"
      by (cases "buf_storage b") (auto simp: Buffer_size_def)
    with Cons.prems have str: "Buffer_str b = drop (buf_starting_offset b) s"
      by (simp add: Buffer_str_wf)
    with False have "buf_starting_offset b + remain \<le> length s"
      by (simp add: Buffer_size_def)
    with False s str show ?thesis
      by (simp add: Buffer_str_len_def Buffer_size_def Let_def)
  qed
qed

lemma peek_output_release:
  assumes "ByteStream_inv s"
  shows "peek_output True s len = Inr (take len (bs_contents s))"
  using ByteStream_invD(1,2) [OF assms]
  by (simp add: peek_output_def peek_loop_release BufferList_wf_def min_def)

lemma pop_output_spec:
  assumes inv: "ByteStream_inv s"
  shows "\<exists>s'. pop_output s len = Inr s' \<and> ByteStream_inv s' \<and> bs_contents s' = drop len (bs_contents s) \<and>
           bs_bytes_read s' = add64 (bs_bytes_read s) (min len (length (bs_contents s))) \<and>
           bs_bytes_written s' = bs_bytes_written s \<and> bs_capacity s' = bs_capacity s \<and>
           bs_input_ended s' = bs_input_ended s \<and> bs_error s' = bs_error s"
proof -
  note i = ByteStream_invD [OF inv]
  let ?rc = "min len (length (bs_contents s))"
  obtain bl where bl: "BufferList_remove_prefix ?rc (bs_buffer s) = Inr bl" "BufferList_wf bl"
      "BufferList_concatenate bl = drop ?rc (bs_contents s)"
    using buffer_list.remove_prefix_ok [OF i(1), of ?rc] by auto
  let ?s = "s\<lparr>bs_bytes_read := add64 (bs_bytes_read s) ?rc, bs_buffer := bl\<rparr>"
  have "buffer_size ?s = length (bs_contents s) - ?rc"
    using sub64_add64_right [OF i(5,6), of ?rc] i(2) by (simp add: buffer_size_def)
  then have "ByteStream_inv ?s"
    using inv bl i(3) by (auto simp: ByteStream_inv_def)
  moreover have "drop ?rc (bs_contents s) = drop len (bs_contents s)"
    by (simp add: min_def)
  ultimately show ?thesis
    using bl i(2) by (intro exI [of _ ?s]) (simp add: pop_output_def Let_def)
qed

lemma bs_read_spec:
  assumes "ByteStream_inv s"
  shows "\<exists>s'. bs_read True s len = Inr (take len (bs_contents s), s') \<and> ByteStream_inv s' \<and>
           bs_contents s' = drop len (bs_contents s) \<and> pop_output s len = Inr s'"
  using pop_output_spec [OF assms, of len] peek_output_release [OF assms, of len]
  by (auto simp: bs_read_def)

lemma ByteStream_inv_flags [simp]:
  "ByteStream_inv (end_input s) = ByteStream_inv s" "ByteStream_inv (set_error s) = ByteStream_inv s"
  by (simp_all add: ByteStream_inv_def end_input_def set_error_def buffer_size_def)

section \<open>The stream as a bounded FIFO\<close>

text \<open>
  What the writer (the stream reassembler, the application) and the reader (the TCP sender, the
  application) rely on: \<open>put\<close> appends the longest prefix there is room for, \<open>get\<close> takes from the
  front and makes room.
\<close>

locale bounded_fifo =
  fixes ok :: "'s \<Rightarrow> bool"
    and queued :: "'s \<Rightarrow> bytes"
    and room :: "'s \<Rightarrow> nat"
    and put :: "'s \<Rightarrow> bytes \<Rightarrow> 's \<times> nat"
    and get :: "'s \<Rightarrow> nat \<Rightarrow> (bytes \<times> 's) result"
  assumes put_law:
      "ok s \<Longrightarrow> put s d = (s', n) \<Longrightarrow>
         ok s' \<and> n = min (length d) (room s) \<and> queued s' = queued s @ take n d \<and> room s' = room s - n"
    and get_law:
      "ok s \<Longrightarrow> \<exists>s'. get s n = Inr (take n (queued s), s') \<and> ok s' \<and> queued s' = drop n (queued s) \<and>
         room s' = room s + min n (length (queued s))"
begin

lemma put_fits:
  assumes "ok s" and "length d \<le> room s"
  shows "\<exists>s'. put s d = (s', length d) \<and> ok s' \<and> queued s' = queued s @ d"
  using put_law [OF assms(1), of d] assms(2) by (cases "put s d") auto

lemma get_after_put:
  assumes "ok s" and "put s d = (s', n)"
  shows "\<exists>s''. get s' (length (queued s) + n) = Inr (queued s @ take n d, s'') \<and> queued s'' = [] \<and>
           room s'' = room s + length (queued s)"
proof -
  from put_law [OF assms] have p: "ok s'" "n = min (length d) (room s)"
    "queued s' = queued s @ take n d" "room s' = room s - n" by auto
  then have "length (queued s') = length (queued s) + n" by simp
  with p get_law [OF p(1), of "length (queued s) + n"] show ?thesis by auto
qed

lemma get_split:
  assumes "ok s"
  shows "\<exists>s1 s2 s3. get s m = Inr (take m (queued s), s1) \<and>
           get s1 n = Inr (take n (drop m (queued s)), s2) \<and>
           get s (m + n) = Inr (take (m + n) (queued s), s3) \<and> queued s2 = queued s3 \<and> room s2 = room s3"
proof -
  from get_law [OF assms, of m] obtain s1 where s1: "get s m = Inr (take m (queued s), s1)" "ok s1"
    "queued s1 = drop m (queued s)" "room s1 = room s + min m (length (queued s))" by auto
  from get_law [OF s1(2), of n] s1(3) obtain s2 where s2: "get s1 n = Inr (take n (drop m (queued s)), s2)"
    "queued s2 = drop (n + m) (queued s)" "room s2 = room s1 + min n (length (queued s) - m)" by auto
  from get_law [OF assms, of "m + n"] obtain s3 where s3: "get s (m + n) = Inr (take (m + n) (queued s), s3)"
    "queued s3 = drop (m + n) (queued s)" "room s3 = room s + min (m + n) (length (queued s))" by auto
  show ?thesis using s1 s2 s3 by (intro exI [of _ s1] exI [of _ s2] exI [of _ s3]) (auto simp: add.commute)
qed

end

interpretation stream: bounded_fifo ByteStream_inv bs_contents remaining_capacity bs_write "bs_read True"
proof unfold_locales
  show "ByteStream_inv s' \<and> n = min (length d) (remaining_capacity s) \<and>
      bs_contents s' = bs_contents s @ take n d \<and> remaining_capacity s' = remaining_capacity s - n"
    if "ByteStream_inv s" "bs_write s d = (s', n)" for s d s' n
    using bs_write_spec [OF that] ByteStream_invD(7) [OF that(1)] ByteStream_invD(7) [of s'] by auto
  show "\<exists>s'. bs_read True s n = Inr (take n (bs_contents s), s') \<and> ByteStream_inv s' \<and>
      bs_contents s' = drop n (bs_contents s) \<and>
      remaining_capacity s' = remaining_capacity s + min n (length (bs_contents s))"
    if inv: "ByteStream_inv s" for s n
  proof -
    from bs_read_spec [OF inv, of n] obtain s' where
      s': "bs_read True s n = Inr (take n (bs_contents s), s')" "ByteStream_inv s'"
        "bs_contents s' = drop n (bs_contents s)" "pop_output s n = Inr s'" by auto
    moreover from pop_output_spec [OF inv, of n] s'(4) have "bs_capacity s' = bs_capacity s" by auto
    ultimately show ?thesis
      using ByteStream_invD(3,7) [OF inv] ByteStream_invD(7) [OF s'(2)] by auto
  qed
qed

section \<open>Runs of a stream\<close>

datatype bs_op = Write bytes | Read size_t | Pop size_t | EndInput | SetError

text \<open>
  One call of the public interface; the run records the bytes the stream accepted and the bytes it
  handed out or dropped at its output side.
\<close>

fun bs_run :: "bs_op list \<Rightarrow> bytes \<Rightarrow> bytes \<Rightarrow> ByteStream \<Rightarrow> (bytes \<times> bytes \<times> ByteStream) result" where
  "bs_run [] acc del s = Inr (acc, del, s)"
| "bs_run (Write d # ops) acc del s =
     (case bs_write s d of (s', wc) \<Rightarrow> bs_run ops (acc @ take wc d) del s')"
| "bs_run (Read n # ops) acc del s =
     result_bind (bs_read True s n) (\<lambda>(r, s'). bs_run ops acc (del @ r) s')"
| "bs_run (Pop n # ops) acc del s =
     result_bind (peek_output True s n) (\<lambda>r.
     result_bind (pop_output s n) (\<lambda>s'. bs_run ops acc (del @ r) s'))"
| "bs_run (EndInput # ops) acc del s = bs_run ops acc del (end_input s)"
| "bs_run (SetError # ops) acc del s = bs_run ops acc del (set_error s)"

lemma end_input_simps [simp]:
  "bs_buffer (end_input s) = bs_buffer s" "bs_capacity (end_input s) = bs_capacity s"
  "bs_bytes_written (end_input s) = bs_bytes_written s" "bs_bytes_read (end_input s) = bs_bytes_read s"
  "bs_input_ended (end_input s)" "bs_error (end_input s) = bs_error s"
  by (simp_all add: end_input_def)

lemma set_error_simps [simp]:
  "bs_buffer (set_error s) = bs_buffer s" "bs_capacity (set_error s) = bs_capacity s"
  "bs_bytes_written (set_error s) = bs_bytes_written s" "bs_bytes_read (set_error s) = bs_bytes_read s"
  "bs_input_ended (set_error s) = bs_input_ended s" "bs_error (set_error s)"
  by (simp_all add: set_error_def)

lemma bs_run_history:
  assumes "ByteStream_inv s" and "acc = del @ bs_contents s"
    and "bs_bytes_written s = length acc mod SIZE_MOD"
  shows "\<exists>acc' del' s'. bs_run ops acc del s = Inr (acc', del', s') \<and> ByteStream_inv s' \<and>
           acc' = del' @ bs_contents s' \<and> bs_capacity s' = bs_capacity s \<and>
           bs_bytes_written s' = length acc' mod SIZE_MOD"
  using assms
proof (induction ops arbitrary: acc del s)
  case Nil
  then show ?case by simp
next
  case (Cons op ops)
  show ?case
  proof (cases op)
    case (Write d)
    obtain s' wc where w: "bs_write s d = (s', wc)" by fastforce
    note spec = bs_write_spec [OF Cons.prems(1) w]
    have "bs_bytes_written s' = length (acc @ take wc d) mod SIZE_MOD"
      using spec(2,4) Cons.prems(3) by (simp add: add64_def mod_add_left_eq)
    with Cons.IH [of s' "acc @ take wc d" del] spec Cons.prems(2) Write w show ?thesis by simp
  next
    case (Read n)
    from bs_read_spec [OF Cons.prems(1), of n] pop_output_spec [OF Cons.prems(1), of n]
    obtain s' where "bs_read True s n = Inr (take n (bs_contents s), s')" "ByteStream_inv s'"
        "bs_contents s' = drop n (bs_contents s)" "bs_capacity s' = bs_capacity s"
        "bs_bytes_written s' = bs_bytes_written s" by auto
    with Cons.IH [of s' acc "del @ take n (bs_contents s)"] Cons.prems Read show ?thesis by simp
  next
    case (Pop n)
    from pop_output_spec [OF Cons.prems(1), of n] peek_output_release [OF Cons.prems(1), of n]
    obtain s' where "peek_output True s n = Inr (take n (bs_contents s))" "pop_output s n = Inr s'"
        "ByteStream_inv s'" "bs_contents s' = drop n (bs_contents s)" "bs_capacity s' = bs_capacity s"
        "bs_bytes_written s' = bs_bytes_written s" by auto
    with Cons.IH [of s' acc "del @ take n (bs_contents s)"] Cons.prems Pop show ?thesis by simp
  next
    case EndInput
    with Cons.IH [of "end_input s" acc del] Cons.prems show ?thesis by simp
  next
    case SetError
    with Cons.IH [of "set_error s" acc del] Cons.prems show ?thesis by simp
  qed
qed

lemma eof_iff: "ByteStream_inv s \<Longrightarrow> eof s \<longleftrightarrow> bs_input_ended s \<and> bs_contents s = []"
  by (auto simp: eof_def buffer_empty_def ByteStream_invD)

text \<open>One call on a stream, as a step relation.\<close>

inductive bs_step :: "ByteStream \<Rightarrow> ByteStream \<Rightarrow> bool" where
  bs_step_write: "bs_write s d = (s', n) \<Longrightarrow> bs_step s s'"
| bs_step_read: "bs_read True s n = Inr (r, s') \<Longrightarrow> bs_step s s'"
| bs_step_pop: "pop_output s n = Inr s' \<Longrightarrow> bs_step s s'"
| bs_step_end_input: "bs_step s (end_input s)"
| bs_step_set_error: "bs_step s (set_error s)"

definition bs_initial :: "size_t \<Rightarrow> ByteStream \<Rightarrow> bool" where
  "bs_initial capacity s \<longleftrightarrow> capacity < SIZE_MOD \<and> s = ByteStream_new capacity"

interpretation stream_steps: driven_component "bs_initial capacity" bs_step
  "\<lambda>s. ByteStream_inv s \<and> bs_capacity s = capacity" for capacity
proof unfold_locales
  show "ByteStream_inv s \<and> bs_capacity s = capacity" if "bs_initial capacity s" for s
    using that by (simp add: bs_initial_def) (simp add: ByteStream_new_def)
  show "ByteStream_inv s' \<and> bs_capacity s' = capacity"
    if "bs_step s s'" "ByteStream_inv s \<and> bs_capacity s = capacity" for s s'
    using that
  proof cases
    case (bs_step_write d n)
    with bs_write_spec [of s d s' n] that(2) show ?thesis by simp
  next
    case (bs_step_read n r)
    with bs_read_spec [of s n] pop_output_spec [of s n] that(2) show ?thesis by auto
  next
    case (bs_step_pop n)
    with pop_output_spec [of s n] that(2) show ?thesis by auto
  qed (use that(2) in simp_all)
qed

section \<open>Properties\<close>

text \<open>
  C19. A byte stream is a reliable FIFO: every sequence of writes, reads, pops and flag changes on a
  fresh stream runs to completion in the Release build, the bytes handed out followed by the bytes
  still held are exactly the bytes accepted, in order, and at most the capacity is held.
\<close>

theorem byte_stream_fifo:
  assumes "capacity < SIZE_MOD"
  shows "\<exists>accepted delivered s. bs_run ops [] [] (ByteStream_new capacity) = Inr (accepted, delivered, s) \<and>
    accepted = delivered @ bs_contents s \<and>
    buffer_size s = length (bs_contents s) \<and> buffer_size s \<le> capacity \<and>
    remaining_capacity s = capacity - buffer_size s \<and>
    bytes_written s = length accepted mod SIZE_MOD \<and>
    (eof s \<longleftrightarrow> input_ended s \<and> delivered = accepted)"
proof -
  let ?s = "ByteStream_new capacity"
  have "ByteStream_inv ?s" "bs_contents ?s = []" "bs_bytes_written ?s = 0" "bs_capacity ?s = capacity"
    using assms by (simp, simp_all add: ByteStream_new_def)
  with bs_run_history [of ?s "[]" "[]" ops] obtain acc del s where
    r: "bs_run ops [] [] ?s = Inr (acc, del, s)" "ByteStream_inv s" "acc = del @ bs_contents s"
      "bs_capacity s = capacity" "bs_bytes_written s = length acc mod SIZE_MOD" by auto
  with ByteStream_invD [OF r(2)] eof_iff [OF r(2)] show ?thesis
    by (auto simp: bytes_written_def input_ended_def)
qed

theorem byte_stream_fifo_witness:
  "\<exists>accepted delivered s.
     bs_run [Write [1, 2, 3], Read 2, Write [4, 5, 6], EndInput] [] [] (ByteStream_new 3) =
       Inr (accepted, delivered, s) \<and>
     accepted = delivered @ bs_contents s \<and> buffer_size s \<le> 3"
  using byte_stream_fifo [of 3 "[Write [1, 2, 3], Read 2, Write [4, 5, 6], EndInput]"]
  by (auto simp: SIZE_MOD_def)

text \<open>
  In a Debug build the inverted assert of \<open>Buffer::str(len)\<close> makes every peek fail that stops
  inside the first written string, although it is a plain read of available bytes; the Release
  build returns the prefix.
\<close>

lemma peek_cut_asserts:
  assumes "0 < n" and "n < length d" and "length d \<le> capacity" and "capacity < SIZE_MOD"
    and "bs_write (ByteStream_new capacity) d = (s, wc)"
  shows "peek_output False s n = Inl AssertionFailed \<and> peek_output True s n = Inr (take n d)"
proof -
  have inv: "ByteStream_inv (ByteStream_new capacity)" using assms(4) by simp
  note spec = bs_write_spec [OF inv assms(5)]
  have wc: "wc = length d" using spec(2) assms(3) by (simp add: ByteStream_new_def)
  have c: "bs_contents s = d" using spec(3) wc by (simp add: ByteStream_new_def)
  have b: "bs_buffer s = [Buffer_of_string d]"
    using assms(5) wc by (auto simp: bs_write_def ByteStream_new_def BufferList_append_def
        BufferList_of_Buffer_def Let_def split: if_splits)
  have str: "Buffer_str (Buffer_of_string d) = d" using c b by simp
  have "peek_loop False n [] (bs_buffer s) = Inl AssertionFailed"
    using assms(2) str
    by (simp add: b Buffer_size_def Buffer_str_len_def Buffer_of_string_def cpp_assert_def Let_def)
  moreover have "min n (buffer_size s) = n" using ByteStream_invD(2) [OF spec(1)] c assms(2) by simp
  ultimately show ?thesis
    using peek_output_release [OF spec(1), of n] c by (simp add: peek_output_def)
qed

lemma peek_cut_asserts_witness:
  "peek_output False (fst (bs_write (ByteStream_new 8) [1, 2, 3])) 2 = Inl AssertionFailed \<and>
   peek_output True (fst (bs_write (ByteStream_new 8) [1, 2, 3])) 2 = Inr [1, 2]"
  using peek_cut_asserts [of 2 "[1, 2, 3]" 8 "fst (bs_write (ByteStream_new 8) [1, 2, 3])"
      "snd (bs_write (ByteStream_new 8) [1, 2, 3])"]
  by (simp add: SIZE_MOD_def)

end
