(* ===== verification/Wrapping_Integers.thy ===== *)
theory Wrapping_Integers
  imports Sponge_Prelude
begin

text \<open>
  libsponge/wrapping\_integers.hh and wrapping\_integers.cc: 32-bit sequence numbers relative to an
  initial sequence number (ISN), and their translation from and to 64-bit absolute sequence numbers.

  A \<open>WrappingInt32\<close> is its raw 32-bit value. The difference of two of them is an int32\_t, read with
  \<open>sint\<close>; its conversions to uint64\_t are written out, since one of them (of the most negative
  value) is far from the mathematical difference.

  The locale \<open>seqno_codec\<close> is what the TCP receiver and sender rely on: decoding near a checkpoint
  inverts encoding.
\<close>

section \<open>Operations\<close>

type_synonym WrappingInt32 = "32 word"

definition wi_diff :: "WrappingInt32 \<Rightarrow> WrappingInt32 \<Rightarrow> int" where
  "wi_diff a b = sint (a - b)"

definition wi_plus :: "WrappingInt32 \<Rightarrow> 32 word \<Rightarrow> WrappingInt32" where
  "wi_plus a b = a + b"

definition wi_minus :: "WrappingInt32 \<Rightarrow> 32 word \<Rightarrow> WrappingInt32" where
  "wi_minus a b = wi_plus a (- b)"

text \<open>The conversion of an int32\_t to a uint64\_t.\<close>

definition int32_to_uint64 :: "int \<Rightarrow> uint64" where
  "int32_to_uint64 i = nat (i mod int SIZE_MOD)"

definition wrap :: "uint64 \<Rightarrow> WrappingInt32 \<Rightarrow> WrappingInt32" where
  "wrap n isn =
     (let relative_seqno = add64 n (unat isn) in word_of_nat (relative_seqno mod 2 ^ 32))"

definition unwrap :: "WrappingInt32 \<Rightarrow> WrappingInt32 \<Rightarrow> uint64 \<Rightarrow> uint64" where
  "unwrap n isn checkpoint =
     (let offset0 = (if wi_diff n isn \<ge> 0 then int32_to_uint64 (wi_diff n isn)
                     else sub64 (2 ^ 32) (int32_to_uint64 (wi_diff isn n)));
          offset1 = add64 offset0 (checkpoint div 2 ^ 32 * 2 ^ 32);
          offset2 = (if offset1 < checkpoint then add64 offset1 (2 ^ 32) else offset1)
      in if sub64 offset2 checkpoint > 2 ^ 31 \<and> offset2 \<ge> 2 ^ 32
         then sub64 offset2 (2 ^ 32) else offset2)"

section \<open>Encoding\<close>

lemma wrap_eq: "wrap n isn = word_of_nat n + isn"
proof -
  have "(n + unat isn) mod SIZE_MOD mod 2 ^ 32 = (n + unat isn) mod 2 ^ 32"
    by (rule mod_mod_cancel) (simp add: SIZE_MOD_def)
  then have "wrap n isn = word_of_nat ((n + unat isn) mod 2 ^ 32)"
    by (simp add: wrap_def add64_def Let_def)
  also have "\<dots> = word_of_nat (n + unat isn)"
    by (simp add: word_unat_eq_iff unat_of_nat del: of_nat_add)
  finally show ?thesis by simp
qed

lemma wrap_eq_iff: "wrap m isn = wrap n isn \<longleftrightarrow> m mod 2 ^ 32 = n mod 2 ^ 32"
proof -
  have "wrap m isn = wrap n isn \<longleftrightarrow> (word_of_nat m :: 32 word) = word_of_nat n"
    by (simp add: wrap_eq)
  also have "\<dots> \<longleftrightarrow> m mod 2 ^ 32 = n mod 2 ^ 32"
    by (simp add: word_unat_eq_iff unat_of_nat)
  finally show ?thesis .
qed

lemma wrap_iff: "wrap m isn = n \<longleftrightarrow> m mod 2 ^ 32 = unat (n - isn)"
proof -
  have "wrap m isn = n \<longleftrightarrow> (word_of_nat m :: 32 word) = n - isn"
    by (auto simp: wrap_eq eq_diff_eq)
  also have "\<dots> \<longleftrightarrow> m mod 2 ^ 32 = unat (n - isn)"
    by (simp add: word_unat_eq_iff unat_of_nat)
  finally show ?thesis .
qed

section \<open>Decoding\<close>

text \<open>
  The first step of \<open>unwrap\<close>: the distance from the ISN, except that the distance \<open>2 ^ 31\<close>,
  the most negative int32\_t, is taken one cycle too far.
\<close>

definition raw_offset :: "WrappingInt32 \<Rightarrow> WrappingInt32 \<Rightarrow> uint64" where
  "raw_offset n isn =
     (if wi_diff n isn \<ge> 0 then int32_to_uint64 (wi_diff n isn)
      else sub64 (2 ^ 32) (int32_to_uint64 (wi_diff isn n)))"

lemma sint_32_cases:
  fixes w :: "32 word"
  shows "unat w < 2 ^ 31 \<Longrightarrow> sint w = int (unat w)"
    and "2 ^ 31 \<le> unat w \<Longrightarrow> sint w = int (unat w) - 2 ^ 32"
proof -
  have u: "uint w = int (unat w)" "uint w < 2 ^ 32"
    using uint_lt2p [of w] by simp_all
  have "sint w = (uint w + 2 ^ 31) mod 2 ^ 32 - 2 ^ 31"
    by (simp add: sint_uint signed_take_bit_eq_take_bit_shift take_bit_eq_mod)
  moreover have "(uint w + 2 ^ 31) mod 2 ^ 32 =
      (if uint w < 2 ^ 31 then uint w + 2 ^ 31 else uint w - 2 ^ 31)"
  proof (cases "uint w < 2 ^ 31")
    case False
    have "(uint w + 2 ^ 31) mod 2 ^ 32 = (uint w - 2 ^ 31) mod 2 ^ 32"
      using mod_add_self2 [of "uint w - 2 ^ 31" "2 ^ 32"] by (simp add: add.commute)
    also have "\<dots> = uint w - 2 ^ 31"
      using False u(2) by (intro mod_pos_pos_trivial) simp_all
    finally show ?thesis using False by simp
  qed simp
  ultimately have s: "sint w = (if uint w < 2 ^ 31 then uint w else uint w - 2 ^ 32)" by simp
  define v where "v = unat w"
  have "sint w = (if int v < 2 ^ 31 then int v else int v - 2 ^ 32)"
    using s by (simp only: u(1) v_def)
  then have "v < 2 ^ 31 \<Longrightarrow> sint w = int v" "2 ^ 31 \<le> v \<Longrightarrow> sint w = int v - 2 ^ 32"
    by simp_all
  then show "unat w < 2 ^ 31 \<Longrightarrow> sint w = int (unat w)"
    and "2 ^ 31 \<le> unat w \<Longrightarrow> sint w = int (unat w) - 2 ^ 32"
    by (simp_all only: v_def)
qed

lemma raw_offset_cases:
  fixes n isn :: "32 word"
  defines "d \<equiv> unat (n - isn)"
  shows "raw_offset n isn = (if d = 2 ^ 31 then d + 2 ^ 32 else d)"
proof -
  have d: "d < 2 ^ 32" by (simp add: d_def)
  have neg: "unat (isn - n) = (if d = 0 then 0 else 2 ^ 32 - d)"
  proof -
    have "isn - n = 0 - (n - isn)" by simp
    then show ?thesis by (simp only: d_def unat_sub_if_size word_size) (simp add: unat_eq_zero)
  qed
  consider (low) "d < 2 ^ 31" | (mid) "d = 2 ^ 31" | (high) "2 ^ 31 < d" by linarith
  then show ?thesis
  proof cases
    case low
    then have "wi_diff n isn = int d" by (simp add: wi_diff_def d_def sint_32_cases)
    with low show ?thesis by (simp add: raw_offset_def int32_to_uint64_def SIZE_MOD_def)
  next
    case mid
    then have "wi_diff n isn = - (2 ^ 31)" "wi_diff isn n = - (2 ^ 31)"
      using neg by (simp_all add: wi_diff_def d_def sint_32_cases)
    with mid show ?thesis by (simp add: raw_offset_def int32_to_uint64_def sub64_def SIZE_MOD_def)
  next
    case high
    then have "wi_diff n isn < 0" "wi_diff isn n = 2 ^ 32 - int d"
      using neg d by (simp_all add: wi_diff_def d_def [symmetric] sint_32_cases of_nat_diff)
    moreover from this d high have "int32_to_uint64 (wi_diff isn n) = 2 ^ 32 - d"
      by (simp add: int32_to_uint64_def SIZE_MOD_def)
    ultimately show ?thesis
      using high d by (simp add: raw_offset_def sub64_exact SIZE_MOD_def)
  qed
qed

lemma unwrap_raw_offset:
  "unwrap n isn checkpoint =
     (let offset1 = add64 (raw_offset n isn) (checkpoint div 2 ^ 32 * 2 ^ 32);
          offset2 = (if offset1 < checkpoint then add64 offset1 (2 ^ 32) else offset1)
      in if sub64 offset2 checkpoint > 2 ^ 31 \<and> offset2 \<ge> 2 ^ 32
         then sub64 offset2 (2 ^ 32) else offset2)"
  by (simp add: unwrap_def raw_offset_def Let_def)

text \<open>
  The value of \<open>unwrap\<close>, with the checkpoint split into its epoch \<open>k\<close> and its position \<open>c\<close> in it.
  The cycle too far of \<open>raw_offset\<close> is taken back by the last step.
\<close>

lemma unwrap_value:
  fixes n isn :: "32 word"
  defines "d \<equiv> unat (n - isn)"
  assumes k: "k + 1 < 2 ^ 32" and c: "c < 2 ^ 32"
  shows "unwrap n isn (k * 2 ^ 32 + c) =
     (if d < c then (if c - d < 2 ^ 31 then k else k + 1)
      else if d - c > 2 ^ 31 \<and> 0 < k then k - 1 else k) * 2 ^ 32 + d"
proof -
  define K :: nat where "K = k * 2 ^ 32"
  have K: "K + 2 * 2 ^ 32 \<le> SIZE_MOD" using k by (simp add: K_def SIZE_MOD_def)
  have d: "d < 2 ^ 32" by (simp add: d_def)
  have "(K + c) div 2 ^ 32 * 2 ^ 32 = K" using c by (simp add: K_def)
  then have u: "unwrap n isn (K + c) =
     (let offset1 = add64 (raw_offset n isn) K;
          offset2 = (if offset1 < K + c then add64 offset1 (2 ^ 32) else offset1)
      in if sub64 offset2 (K + c) > 2 ^ 31 \<and> offset2 \<ge> 2 ^ 32
         then sub64 offset2 (2 ^ 32) else offset2)"
    by (simp only: unwrap_raw_offset)
  have k0: "2 ^ 32 \<le> K + d \<longleftrightarrow> 0 < k" using d by (cases k) (simp_all add: K_def)
  have "unwrap n isn (K + c) =
     (if d < c then (if c - d < 2 ^ 31 then K + d else K + 2 ^ 32 + d)
      else if d - c > 2 ^ 31 \<and> 0 < k then K + d - 2 ^ 32 else K + d)"
  proof (cases "d = 2 ^ 31")
    case True
    then have "add64 (raw_offset n isn) K = K + 2 ^ 32 + 2 ^ 31"
      using K by (simp add: raw_offset_cases d_def [symmetric] size_arith)
    moreover have "sub64 (K + 2 ^ 32 + 2 ^ 31) (K + c) = 2 ^ 32 + 2 ^ 31 - c"
      using K c by (simp add: size_arith)
    moreover have "sub64 (K + 2 ^ 32 + 2 ^ 31) (2 ^ 32) = K + 2 ^ 31"
      using K by (simp add: size_arith)
    moreover have "c - 2 ^ 31 < 2 ^ 31" "2 ^ 31 < 2 ^ 32 + 2 ^ 31 - c" "\<not> 2 ^ 31 < 2 ^ 31 - c"
      using c by simp_all
    ultimately show ?thesis
      using True c by (simp add: u Let_def)
  next
    case False
    then have o1: "add64 (raw_offset n isn) K = K + d"
      using K d by (simp add: raw_offset_cases d_def [symmetric] size_arith)
    show ?thesis
    proof (cases "d < c")
      case True
      then have "add64 (K + d) (2 ^ 32) = K + d + 2 ^ 32"
        using K d by (simp add: size_arith)
      moreover have "sub64 (K + d + 2 ^ 32) (K + c) = 2 ^ 32 - (c - d)"
        using True K c d by (simp add: size_arith)
      moreover have "sub64 (K + d + 2 ^ 32) (2 ^ 32) = K + d"
        using K d by (simp add: size_arith)
      ultimately show ?thesis
        using True o1 c d by (auto simp: u Let_def)
    next
      case ge: False
      have "sub64 (K + d) (K + c) = d - c" using ge K d by (simp add: size_arith)
      moreover have "sub64 (K + d) (2 ^ 32) = K + d - 2 ^ 32" if "2 ^ 32 \<le> K + d"
        using that K d by (simp add: size_arith)
      ultimately show ?thesis
        using ge o1 c d k0 by (auto simp: u Let_def)
    qed
  qed
  then show ?thesis by (cases k) (simp_all add: K_def)
qed

lemma split_epoch:
  fixes m :: nat
  obtains k c where "m = k * 2 ^ 32 + c" "c < 2 ^ 32"
proof
  show "m = m div 2 ^ 32 * 2 ^ 32 + m mod 2 ^ 32" by (simp only: div_mult_mod_eq)
  show "m mod 2 ^ 32 < (2 ^ 32 :: nat)" by simp
qed

text \<open>Decoding finds a number that encodes to the sequence number, in the half-cycle of the checkpoint.\<close>

lemma unwrap_near:
  assumes "checkpoint + 2 ^ 32 < SIZE_MOD"
  shows "wrap (unwrap n isn checkpoint) isn = n"
    and "unwrap n isn checkpoint \<le> checkpoint + 2 ^ 31 \<or> unwrap n isn checkpoint < 2 ^ 32"
    and "checkpoint < unwrap n isn checkpoint + 2 ^ 31"
proof -
  obtain k c where kc: "checkpoint = k * 2 ^ 32 + c" "c < 2 ^ 32" by (rule split_epoch)
  with assms have k: "k + 1 < 2 ^ 32" by (simp add: SIZE_MOD_def)
  have d: "unat (n - isn) < 2 ^ 32" by simp
  define d where "d = unat (n - isn)"
  with d have d: "d < 2 ^ 32" by (simp only: d_def)
  define r where "r = unwrap n isn checkpoint"
  have v: "r = (if d < c then (if c - d < 2 ^ 31 then k else k + 1)
      else if d - c > 2 ^ 31 \<and> 0 < k then k - 1 else k) * 2 ^ 32 + d"
    unfolding r_def d_def kc(1) by (rule unwrap_value [OF k kc(2)])
  consider (here) "r = k * 2 ^ 32 + d" "c < d + 2 ^ 31" "d \<le> c + 2 ^ 31 \<or> k = 0"
    | (next_epoch) "r = (k + 1) * 2 ^ 32 + d" "d + 2 ^ 31 \<le> c"
    | (previous) "r + 2 ^ 32 = k * 2 ^ 32 + d" "c + 2 ^ 31 < d"
  proof (cases "d < c")
    case True
    then show ?thesis using v that(1,2) d kc(2) by (cases "c - d < 2 ^ 31") auto
  next
    case False
    show ?thesis
    proof (cases "d - c > 2 ^ 31 \<and> 0 < k")
      case True
      then obtain j where "k = Suc j" by (cases k) auto
      with True False v show ?thesis by (intro that(3)) auto
    next
      case stay: False
      with False v show ?thesis by (intro that(1)) auto
    qed
  qed
  note r_cases = this
  have "r mod 2 ^ 32 = d" using d by (simp add: v)
  then show "wrap (unwrap n isn checkpoint) isn = n"
    by (simp add: wrap_iff r_def d_def)
  have "r \<le> checkpoint + 2 ^ 31 \<or> r < 2 ^ 32"
    using r_cases by cases (use d kc in auto)
  then show "unwrap n isn checkpoint \<le> checkpoint + 2 ^ 31 \<or> unwrap n isn checkpoint < 2 ^ 32"
    by (simp only: r_def)
  have "checkpoint < r + 2 ^ 31"
    using r_cases by cases (use d kc in auto)
  then show "checkpoint < unwrap n isn checkpoint + 2 ^ 31"
    by (simp only: r_def)
qed

lemma same_residue_step:
  fixes r m :: nat
  assumes "r mod q = m mod q" and "r < m"
  shows "r + q \<le> m"
proof -
  from assms have "q dvd m - r" by (metis mod_eq_dvd_iff_nat less_imp_le)
  moreover have "0 < m - r" using assms(2) by simp
  ultimately have "q \<le> m - r" by (rule dvd_imp_le)
  with assms(2) show ?thesis by simp
qed

text \<open>Two absolute numbers with one encoding and both within a half-cycle of a checkpoint are equal.\<close>

lemma wrap_inj_near:
  assumes "wrap m isn = wrap r isn"
    and "c < m + 2 ^ 31" "m \<le> c + 2 ^ 31" "c < r + 2 ^ 31" "r \<le> c + 2 ^ 31"
  shows "m = r"
proof -
  from assms(1) have e: "m mod 2 ^ 32 = r mod 2 ^ 32" by (simp add: wrap_eq_iff)
  show ?thesis
  proof (rule ccontr)
    assume "m \<noteq> r"
    then have "m < r \<or> r < m" by linarith
    then have "m + 2 ^ 32 \<le> r \<or> r + 2 ^ 32 \<le> m"
      using same_residue_step [of m "2 ^ 32" r] same_residue_step [of r "2 ^ 32" m] e by auto
    with assms(2-5) show False by simp
  qed
qed

lemma unwrap_wrap_near:
  assumes c: "c + 2 ^ 32 < SIZE_MOD" and m: "c < m + 2 ^ 31" "m \<le> c + 2 ^ 31"
  shows "unwrap (wrap m isn) isn c = m"
proof -
  let ?r = "unwrap (wrap m isn) isn c"
  note near = unwrap_near [OF c, of "wrap m isn" isn]
  have res: "?r mod 2 ^ 32 = m mod 2 ^ 32" using near(1) by (simp add: wrap_eq_iff)
  show ?thesis
  proof (cases "?r \<le> c + 2 ^ 31")
    case True
    with wrap_inj_near [of ?r isn m c] near m show ?thesis by simp
  next
    case False
    with near(2) have low: "?r < 2 ^ 32" and "m < ?r" using m by auto
    with same_residue_step [of m "2 ^ 32" ?r] res show ?thesis by simp
  qed
qed

section \<open>The contract of the sequence-number translation\<close>

text \<open>
  What the TCP receiver and sender rely on: a number within \<open>radius\<close> of the checkpoint survives
  encoding and decoding.
\<close>

locale seqno_codec =
  fixes enc :: "nat \<Rightarrow> 'w \<Rightarrow> 'w"
    and dec :: "'w \<Rightarrow> 'w \<Rightarrow> nat \<Rightarrow> nat"
    and radius :: nat
    and limit :: nat
  assumes dec_enc:
    "c < limit \<Longrightarrow> c < m + radius \<Longrightarrow> m \<le> c + radius \<Longrightarrow> dec (enc m isn) isn c = m"
begin

lemma dec_enc_ahead: "c < limit \<Longrightarrow> 0 < radius \<Longrightarrow> n \<le> radius \<Longrightarrow> dec (enc (c + n) isn) isn c = c + n"
  by (rule dec_enc) auto

lemma dec_enc_behind: "c < limit \<Longrightarrow> n < radius \<Longrightarrow> n \<le> c \<Longrightarrow> dec (enc (c - n) isn) isn c = c - n"
  by (rule dec_enc) auto

lemma enc_distinguishes:
  assumes "c < limit" and "c < m + radius" "m \<le> c + radius" and "c < n + radius" "n \<le> c + radius"
  shows "enc m isn = enc n isn \<longleftrightarrow> m = n"
  using dec_enc [of c m isn] dec_enc [of c n isn] assms by metis

end

interpretation seqno: seqno_codec wrap unwrap "2 ^ 31" "SIZE_MOD - 2 ^ 32"
proof
  show "unwrap (wrap m isn) isn c = m"
    if "c < SIZE_MOD - 2 ^ 32" "c < m + 2 ^ 31" "m \<le> c + 2 ^ 31" for c m isn
    using that by (intro unwrap_wrap_near) simp_all
qed

section \<open>Properties\<close>

text \<open>
  C20. \<open>unwrap\<close> returns the absolute sequence number that wraps to \<open>n\<close> and is closest to the
  checkpoint, as its documentation says, for every checkpoint below the last of the \<open>2 ^ 32\<close>
  cycles: no 64-bit number that wraps to \<open>n\<close> is nearer.
\<close>

theorem unwrap_closest:
  assumes "checkpoint + 2 ^ 32 < SIZE_MOD"
  shows "wrap (unwrap n isn checkpoint) isn = n \<and>
    (\<forall>m. wrap m isn = n \<longrightarrow>
      \<bar>int (unwrap n isn checkpoint) - int checkpoint\<bar> \<le> \<bar>int m - int checkpoint\<bar>)"
proof (intro conjI allI impI)
  let ?r = "unwrap n isn checkpoint"
  note near = unwrap_near [OF assms, of n isn]
  show "wrap ?r isn = n" by (rule near(1))
  show "\<bar>int ?r - int checkpoint\<bar> \<le> \<bar>int m - int checkpoint\<bar>" if "wrap m isn = n" for m
  proof -
    have e: "m mod 2 ^ 32 = ?r mod 2 ^ 32" using that near(1) wrap_eq_iff by metis
    consider "m = ?r" | "m + 2 ^ 32 \<le> ?r" | "?r + 2 ^ 32 \<le> m"
      using same_residue_step [of m "2 ^ 32" ?r] same_residue_step [of ?r "2 ^ 32" m] e
      by (metis linorder_neqE_nat)
    then show ?thesis
      using near(2,3) by cases auto
  qed
qed

theorem unwrap_closest_witness:
  "wrap (unwrap 17 (15 :: 32 word) (2 ^ 32 + 5)) 15 = 17 \<and>
   \<bar>int (unwrap 17 (15 :: 32 word) (2 ^ 32 + 5)) - int (2 ^ 32 + 5)\<bar> \<le> \<bar>int 2 - int (2 ^ 32 + 5)\<bar>"
proof -
  have c: "(2 ^ 32 + 5 :: nat) + 2 ^ 32 < SIZE_MOD" by (simp add: SIZE_MOD_def)
  have "wrap 2 (15 :: 32 word) = 17" by (simp add: wrap_eq)
  with unwrap_closest [OF c] show ?thesis by blast
qed

text \<open>
  Round trip: an absolute sequence number in the half-cycle around the checkpoint, from
  \<open>2 ^ 31 - 1\<close> behind it to \<open>2 ^ 31\<close> ahead of it, survives \<open>wrap\<close> followed by \<open>unwrap\<close>, whatever
  the initial sequence number.
\<close>

lemma unwrap_wrap_roundtrip:
  assumes "c + 2 ^ 32 < SIZE_MOD" and "c < m + 2 ^ 31" and "m \<le> c + 2 ^ 31"
  shows "unwrap (wrap m isn) isn c = m"
  using assms by (intro seqno.dec_enc) simp_all

lemma unwrap_wrap_roundtrip_witness:
  "unwrap (wrap (3 * 2 ^ 32) (2 ^ 32 - 1)) (2 ^ 32 - 1 :: 32 word) (3 * 2 ^ 32 - 7) = 3 * 2 ^ 32"
  by (rule unwrap_wrap_roundtrip) (simp_all add: SIZE_MOD_def)

end
