(* ===== verification/Stream_Reassembler.thy ===== *)
theory Stream_Reassembler
  imports Byte_Stream
begin

text \<open>
  libsponge/stream\_reassembler.hh and stream\_reassembler.cc: out-of-order substrings of a byte
  stream are kept as disjoint segments, ordered by start index, until they are contiguous with what
  the output stream has already accepted.

  The std::set of segments is a list in the order of the set (\<open>operator<\<close> compares start
  indices); iterators into it are positions of the list. std::lower\_bound with the end index as
  the key is the number of leading segments whose end is smaller, since the ends are increasing.
  Erasing an iterator range whose end lies before its beginning is \<open>OutOfBounds\<close>.

  \<open>push_substring\<close> computes a view length with a size\_t subtraction that can underflow: a view
  longer than the data is \<open>OutOfBounds\<close> here (in the code, std::length\_error or a read past the
  end of the string).
\<close>

section \<open>Segments\<close>

record Segment =
  seg_index :: size_t
  seg_data :: Buffer
  seg_start :: size_t
  seg_end :: size_t

definition Segment_new :: "size_t \<Rightarrow> bytes \<Rightarrow> Segment" where
  "Segment_new index data =
     \<lparr>seg_index = index, seg_data = Buffer_of_string data,
      seg_start = index, seg_end = add64 index (length data)\<rparr>"

definition Segment_remove_prefix :: "bool \<Rightarrow> size_t \<Rightarrow> Segment \<Rightarrow> Segment result" where
  "Segment_remove_prefix nd n g =
     (let g' = g\<lparr>seg_start := add64 (seg_start g) n\<rparr> in
      result_bind (cpp_assert nd (seg_start g' \<le> seg_end g')) (\<lambda>_. Inr g'))"

definition Segment_remove_suffix :: "bool \<Rightarrow> size_t \<Rightarrow> Segment \<Rightarrow> Segment result" where
  "Segment_remove_suffix nd n g =
     (let g' = g\<lparr>seg_end := sub64 (seg_end g) n\<rparr> in
      result_bind (cpp_assert nd (seg_start g' \<le> seg_end g')) (\<lambda>_. Inr g'))"

text \<open>The view starts \<open>_start_index - _index\<close> bytes into the data and is \<open>_end_index - _start_index\<close> long.\<close>

definition Segment_size :: "Segment \<Rightarrow> size_t" where
  "Segment_size g = sub64 (seg_end g) (seg_start g)"

definition Segment_str :: "Segment \<Rightarrow> bytes" where
  "Segment_str g =
     take (sub64 (seg_end g) (seg_start g))
       (drop (sub64 (seg_start g) (seg_index g)) (Buffer_str (seg_data g)))"

text \<open>std::set::insert: no insertion when an equivalent element is present.\<close>

fun segments_insert :: "Segment \<Rightarrow> Segment list \<Rightarrow> Segment list" where
  "segments_insert g [] = [g]"
| "segments_insert g (x # xs) =
     (if seg_start g < seg_start x then g # x # xs
      else if seg_start x < seg_start g then x # segments_insert g xs
      else x # xs)"

definition segments_lower_bound :: "Segment list \<Rightarrow> size_t \<Rightarrow> nat" where
  "segments_lower_bound gs v = length (takeWhile (\<lambda>g. seg_end g < v) gs)"

definition segments_erase :: "nat \<Rightarrow> nat \<Rightarrow> Segment list \<Rightarrow> Segment list result" where
  "segments_erase start stop gs =
     (if start \<le> stop then Inr (take start gs @ drop stop gs) else Inl OutOfBounds)"

section \<open>The reassembler\<close>

record StreamReassembler =
  sr_output :: ByteStream
  sr_capacity :: size_t
  sr_end_index :: size_t
  sr_unassembled_bytes :: size_t
  sr_got_eof :: bool
  sr_segments :: "Segment list"

definition StreamReassembler_new :: "size_t \<Rightarrow> StreamReassembler" where
  "StreamReassembler_new capacity =
     \<lparr>sr_output = ByteStream_new capacity, sr_capacity = capacity, sr_end_index = 0,
      sr_unassembled_bytes = 0, sr_got_eof = False, sr_segments = []\<rparr>"

text \<open>
  The first half of \<open>push_interval\<close>: trim the segment against its predecessor. \<open>None\<close> is the early
  return for a segment that lies inside the predecessor.
\<close>

definition trim_front :: "bool \<Rightarrow> Segment list \<Rightarrow> Segment \<Rightarrow> (nat \<times> Segment) option result" where
  "trim_front nd gs g =
     (let it = segments_lower_bound gs (seg_start g) in
      if it < length gs then
        result_bind (cpp_assert nd (seg_end (gs ! it) \<ge> seg_start g)) (\<lambda>_.
        if seg_start (gs ! it) \<le> seg_start g then
          (let remove_n = sub64 (seg_end (gs ! it)) (seg_start g) in
           if remove_n > Segment_size g then Inr None
           else result_bind (Segment_remove_prefix nd remove_n g) (\<lambda>g'. Inr (Some (it + 1, g'))))
        else Inr (Some (it, g)))
      else Inr (Some (it, g)))"

text \<open>The second half: trim the segment against the first one that reaches at least its end.\<close>

definition trim_back :: "bool \<Rightarrow> Segment list \<Rightarrow> Segment \<Rightarrow> (nat \<times> Segment) option result" where
  "trim_back nd gs g =
     (let it = segments_lower_bound gs (seg_end g) in
      if it < length gs then
        result_bind (cpp_assert nd (seg_end (gs ! it) \<ge> seg_end g)) (\<lambda>_.
        if seg_start (gs ! it) \<le> seg_end g then
          (let remove_n = sub64 (seg_end g) (seg_start (gs ! it)) in
           if remove_n > Segment_size g then Inr None
           else result_bind (Segment_remove_suffix nd remove_n g) (\<lambda>g'. Inr (Some (it, g'))))
        else Inr (Some (it, g)))
      else Inr (Some (it, g)))"

fun subtract_sizes :: "size_t \<Rightarrow> Segment list \<Rightarrow> size_t" where
  "subtract_sizes n [] = n"
| "subtract_sizes n (g # gs) = subtract_sizes (sub64 n (Segment_size g)) gs"

definition push_interval :: "bool \<Rightarrow> StreamReassembler \<Rightarrow> Segment \<Rightarrow> StreamReassembler result" where
  "push_interval nd r g =
     (if Segment_size g = 0 then Inr r
      else result_bind (trim_front nd (sr_segments r) g) (\<lambda>front. case front of
        None \<Rightarrow> Inr r
      | Some (remove_begin, g1) \<Rightarrow>
          result_bind (trim_back nd (sr_segments r) g1) (\<lambda>back. case back of
            None \<Rightarrow> Inr r
          | Some (remove_end, g2) \<Rightarrow>
              result_bind (segments_erase remove_begin remove_end (sr_segments r)) (\<lambda>gs.
                let removed = drop remove_begin (take remove_end (sr_segments r));
                    n = subtract_sizes (sr_unassembled_bytes r) removed
                in Inr (r\<lparr>sr_segments := segments_insert g2 gs,
                          sr_unassembled_bytes := add64 n (Segment_size g2)\<rparr>)))))"

text \<open>
  The reassembly loop: write the first segment while it starts where the output ends. The result is
  the output stream, the count of unassembled bytes and the segments that are left.
\<close>

fun reassemble ::
  "bool \<Rightarrow> ByteStream \<Rightarrow> size_t \<Rightarrow> Segment list \<Rightarrow> (ByteStream \<times> size_t \<times> Segment list) result" where
  "reassemble nd out un [] = Inr (out, un, [])"
| "reassemble nd out un (g # gs) =
     (if seg_start g = bytes_written out then
        (case bs_write_move out (Segment_str g) of (out', wc) \<Rightarrow>
           if wc = 0 then Inr (out', un, g # gs)
           else if wc < Segment_size g then
             result_bind (Segment_remove_prefix nd wc g) (\<lambda>trimmed.
               Inr (out', sub64 un wc, segments_insert trimmed gs))
           else reassemble nd out' (sub64 un wc) gs)
      else Inr (out, un, g # gs))"

text \<open>\<open>Segment segment{index, string_view{data.c_str(), len}}\<close>\<close>

definition Segment_of_view :: "size_t \<Rightarrow> bytes \<Rightarrow> size_t \<Rightarrow> Segment result" where
  "Segment_of_view index data len =
     (if len \<le> length data then Inr (Segment_new index (take len data)) else Inl OutOfBounds)"

definition push_substring ::
  "bool \<Rightarrow> StreamReassembler \<Rightarrow> bytes \<Rightarrow> size_t \<Rightarrow> bool \<Rightarrow> StreamReassembler result" where
  "push_substring nd r data index fin =
     (if input_ended (sr_output r) then Inr r
      else let expected = bytes_written (sr_output r) in
      if add64 index (length data) < expected then Inr r
      else
        let r1 = (if fin \<and> \<not> sr_got_eof r
                  then r\<lparr>sr_got_eof := True, sr_end_index := add64 index (length data)\<rparr> else r);
            len = (if add64 index (length data) > add64 expected (sr_capacity r)
                   then sub64 (add64 expected (sr_capacity r)) index else length data)
        in result_bind (Segment_of_view index data len) (\<lambda>g.
           result_bind (if seg_start g < expected
                        then Segment_remove_prefix nd (sub64 expected (seg_start g)) g else Inr g) (\<lambda>g1.
           result_bind (push_interval nd r1 g1) (\<lambda>r2.
           result_bind (reassemble nd (sr_output r2) (sr_unassembled_bytes r2) (sr_segments r2))
             (\<lambda>(out, un, gs).
               let r3 = r2\<lparr>sr_output := out, sr_unassembled_bytes := un, sr_segments := gs\<rparr> in
               if sr_got_eof r3 \<and> sr_end_index r3 = bytes_written (sr_output r3)
               then Inr (r3\<lparr>sr_output := end_input (sr_output r3)\<rparr>) else Inr r3)))))"

definition unassembled_bytes :: "StreamReassembler \<Rightarrow> size_t" where
  "unassembled_bytes r = sr_unassembled_bytes r"

definition sr_empty :: "StreamReassembler \<Rightarrow> bool" where
  "sr_empty r \<longleftrightarrow> sr_unassembled_bytes r = 0"

section \<open>Ordered, disjoint segments\<close>

text \<open>\<open>segs_ok lo gs\<close>: nonempty, disjoint, in order, none before \<open>lo\<close>. \<open>segs_hi lo gs\<close>: where they end.\<close>

fun segs_ok :: "nat \<Rightarrow> Segment list \<Rightarrow> bool" where
  "segs_ok lo [] = True"
| "segs_ok lo (g # gs) \<longleftrightarrow> lo \<le> seg_start g \<and> seg_start g < seg_end g \<and> segs_ok (seg_end g) gs"

fun segs_hi :: "nat \<Rightarrow> Segment list \<Rightarrow> nat" where
  "segs_hi lo [] = lo"
| "segs_hi lo (g # gs) = segs_hi (seg_end g) gs"

definition covered :: "Segment list \<Rightarrow> nat set" where
  "covered gs = (\<Union>g \<in> set gs. {seg_start g..<seg_end g})"

definition segs_total :: "Segment list \<Rightarrow> nat" where
  "segs_total gs = (\<Sum>g\<leftarrow>gs. seg_end g - seg_start g)"

text \<open>The indices of a segment stay inside its data and below the bound \<open>B\<close> on stream positions.\<close>

definition Segment_wf :: "nat \<Rightarrow> Segment \<Rightarrow> bool" where
  "Segment_wf B g \<longleftrightarrow>
     seg_index g \<le> seg_start g \<and> seg_start g \<le> seg_end g \<and>
     seg_end g \<le> seg_index g + length (Buffer_str (seg_data g)) \<and> seg_end g \<le> B"

text \<open>\<open>g'\<close> is what trimming can leave of \<open>g\<close>.\<close>

definition trimmed_of :: "Segment \<Rightarrow> Segment \<Rightarrow> bool" where
  "trimmed_of g' g \<longleftrightarrow>
     seg_index g' = seg_index g \<and> seg_data g' = seg_data g \<and>
     seg_start g \<le> seg_start g' \<and> seg_end g' \<le> seg_end g"

lemma trimmed_of_refl [simp]: "trimmed_of g g"
  by (simp add: trimmed_of_def)

lemma covered_simps [simp]:
  "covered [] = {}" "covered (g # gs) = {seg_start g..<seg_end g} \<union> covered gs"
  "covered (xs @ ys) = covered xs \<union> covered ys"
  by (auto simp: covered_def)

lemma segs_total_simps [simp]:
  "segs_total [] = 0" "segs_total (g # gs) = seg_end g - seg_start g + segs_total gs"
  "segs_total (xs @ ys) = segs_total xs + segs_total ys"
  by (simp_all add: segs_total_def)

lemma segs_ok_append [simp]:
  "segs_ok lo (xs @ ys) \<longleftrightarrow> segs_ok lo xs \<and> segs_ok (segs_hi lo xs) ys"
  by (induction xs arbitrary: lo) auto

lemma segs_hi_append [simp]: "segs_hi lo (xs @ ys) = segs_hi (segs_hi lo xs) ys"
  by (induction xs arbitrary: lo) auto

lemma segs_ok_weaken: "segs_ok lo gs \<Longrightarrow> lo' \<le> lo \<Longrightarrow> segs_ok lo' gs"
  by (cases gs) auto

lemma segs_ok_strengthen: "segs_ok lo gs \<Longrightarrow> \<forall>g \<in> set gs. lo' \<le> seg_start g \<Longrightarrow> segs_ok lo' gs"
  by (cases gs) auto

lemma segs_hi_ge: "segs_ok lo gs \<Longrightarrow> lo \<le> segs_hi lo gs"
  by (induction gs arbitrary: lo) force+

lemma segs_ok_member:
  "segs_ok lo gs \<Longrightarrow> g \<in> set gs \<Longrightarrow> lo \<le> seg_start g \<and> seg_start g < seg_end g \<and> seg_end g \<le> segs_hi lo gs"
proof (induction gs arbitrary: lo)
  case (Cons x gs)
  then show ?case
    using segs_hi_ge [of "seg_end x" gs] by fastforce
qed simp

lemma segs_hi_le: "segs_ok lo gs \<Longrightarrow> lo \<le> b \<Longrightarrow> \<forall>g \<in> set gs. seg_end g \<le> b \<Longrightarrow> segs_hi lo gs \<le> b"
  by (induction gs arbitrary: lo) auto

lemma segs_total_bound: "segs_ok lo gs \<Longrightarrow> segs_total gs + lo \<le> segs_hi lo gs"
proof (induction gs arbitrary: lo)
  case (Cons g gs)
  from Cons.prems have "lo \<le> seg_start g" "seg_start g < seg_end g" by simp_all
  with Cons.IH [of "seg_end g"] Cons.prems show ?case by simp
qed simp

lemma covered_range: "segs_ok lo gs \<Longrightarrow> covered gs \<subseteq> {lo..<segs_hi lo gs}"
  using segs_ok_member by (fastforce simp: covered_def)

lemma card_covered: "segs_ok lo gs \<Longrightarrow> card (covered gs) = segs_total gs"
proof (induction gs arbitrary: lo)
  case (Cons g gs)
  have "{seg_start g..<seg_end g} \<inter> covered gs = {}"
    using covered_range [of "seg_end g" gs] Cons.prems by auto
  moreover have "finite (covered gs)" by (simp add: covered_def)
  moreover have "card (covered gs) = segs_total gs"
    using Cons.IH [of "seg_end g"] Cons.prems by simp
  ultimately show ?case by (simp add: card_Un_disjoint)
qed simp

lemma Segment_wf_size: "Segment_wf B g \<Longrightarrow> B < SIZE_MOD \<Longrightarrow> Segment_size g = seg_end g - seg_start g"
  by (simp add: Segment_wf_def Segment_size_def size_arith)

lemma length_Segment_str:
  "Segment_wf B g \<Longrightarrow> B < SIZE_MOD \<Longrightarrow> length (Segment_str g) = seg_end g - seg_start g"
  by (auto simp: Segment_wf_def Segment_str_def size_arith)

lemma Segment_wf_trimmed: "Segment_wf B g \<Longrightarrow> trimmed_of g' g \<Longrightarrow> seg_start g' \<le> seg_end g' \<Longrightarrow> Segment_wf B g'"
  by (auto simp: Segment_wf_def trimmed_of_def)

lemma subtract_sizes_total:
  "list_all (Segment_wf B) gs \<Longrightarrow> B < SIZE_MOD \<Longrightarrow> segs_total gs \<le> n \<Longrightarrow> n < SIZE_MOD \<Longrightarrow>
     subtract_sizes n gs = n - segs_total gs"
  by (induction gs arbitrary: n) (auto simp: Segment_wf_size size_arith)

section \<open>Splitting the segments around a new one\<close>

lemma lower_bound_split:
  obtains A X where "gs = A @ X" "segments_lower_bound gs v = length A"
    "\<forall>a \<in> set A. seg_end a < v" "X = [] \<or> v \<le> seg_end (hd X)"
proof -
  let ?A = "takeWhile (\<lambda>g. seg_end g < v) gs" and ?X = "dropWhile (\<lambda>g. seg_end g < v) gs"
  have "\<forall>a \<in> set ?A. seg_end a < v" by (auto dest: set_takeWhileD)
  moreover have "?X = [] \<or> v \<le> seg_end (hd ?X)" using hd_dropWhile [of _ gs] by (metis not_less)
  ultimately show ?thesis
    using that [of ?A ?X] by (simp add: segments_lower_bound_def)
qed

lemma segments_insert_between:
  assumes "\<forall>p \<in> set P. seg_start p < seg_start g" and "Z = [] \<or> seg_start g < seg_start (hd Z)"
  shows "segments_insert g (P @ Z) = P @ g # Z"
  using assms by (induction P) (cases Z; auto)+

lemma segments_insert_present:
  assumes "\<forall>p \<in> set P. seg_start p < seg_start g" and "seg_start z = seg_start g"
  shows "segments_insert g (P @ z # Z) = P @ z # Z"
  using assms by (induction P) auto

lemma trim_front_spec:
  assumes ok: "segs_ok lo gs" and wf: "list_all (Segment_wf B) gs" and B: "B < SIZE_MOD"
    and g: "Segment_wf B g" "seg_start g < seg_end g"
  obtains (inside) "trim_front nd gs g = Inr None" "{seg_start g..<seg_end g} \<subseteq> covered gs"
  | (split) P Y g1 where "gs = P @ Y" "trim_front nd gs g = Inr (Some (length P, g1))"
      "trimmed_of g1 g" "seg_end g1 = seg_end g" "seg_start g1 \<le> seg_end g1"
      "\<forall>p \<in> set P. seg_end p \<le> seg_start g1" "\<forall>y \<in> set Y. seg_start g1 \<le> seg_start y"
      "{seg_start g..<seg_start g1} \<subseteq> covered P"
      "seg_start g1 = seg_end g1 \<longrightarrow> (\<exists>A x. P = A @ [x] \<and> seg_end x = seg_end g1)"
proof -
  let ?s = "seg_start g" and ?e = "seg_end g"
  obtain A X where AX: "gs = A @ X" "segments_lower_bound gs ?s = length A"
      "\<forall>a \<in> set A. seg_end a < ?s" "X = [] \<or> ?s \<le> seg_end (hd X)"
    by (rule lower_bound_split)
  show ?thesis
  proof (cases "X \<noteq> [] \<and> seg_start (hd X) \<le> ?s")
    case False
    have "\<forall>y \<in> set X. ?s \<le> seg_start y"
    proof (cases X)
      case (Cons x X')
      with False have x: "?s < seg_start x" by simp
      from ok AX(1) Cons have "segs_ok (seg_end x) X'" "seg_start x < seg_end x" by simp_all
      with x segs_ok_member [of "seg_end x" X'] show ?thesis
        unfolding Cons by fastforce
    qed simp
    moreover have "trim_front nd gs g = Inr (Some (length A, g))"
      using AX False by (cases X) (auto simp: trim_front_def Let_def)
    ultimately show ?thesis
      using AX g(2) by (intro split [of A X g]) (auto intro: less_imp_le)
  next
    case True
    then obtain x X' where X: "X = x # X'" and xs: "seg_start x \<le> ?s" by (cases X) auto
    with AX have xe: "?s \<le> seg_end x" and nth: "gs ! length A = x" "length A < length gs" by auto
    have xB: "seg_end x \<le> B" using wf AX(1) X by (simp add: Segment_wf_def)
    have n: "sub64 (seg_end x) ?s = seg_end x - ?s" using xe xB B by (simp add: size_arith)
    have sz: "Segment_size g = ?e - ?s" using g(1) B by (rule Segment_wf_size)
    show ?thesis
    proof (cases "seg_end x - ?s > ?e - ?s")
      case True
      then have "trim_front nd gs g = Inr None"
        using AX nth xs xe n sz by (simp add: trim_front_def Let_def)
      moreover have "{?s..<?e} \<subseteq> covered gs" using True xs AX(1) X by auto
      ultimately show ?thesis by (rule inside)
    next
      case fits: False
      let ?g1 = "g\<lparr>seg_start := seg_end x\<rparr>"
      have le: "seg_end x \<le> ?e" using fits g(2) by simp
      have "Segment_remove_prefix nd (seg_end x - ?s) g = Inr ?g1"
        using xe xB B le by (simp add: Segment_remove_prefix_def size_arith)
      then have tf: "trim_front nd gs g = Inr (Some (length (A @ [x]), ?g1))"
        using AX nth xs xe n sz fits by (simp add: trim_front_def Let_def)
      have "\<forall>y \<in> set X'. seg_end x \<le> seg_start y"
        using ok AX(1) X segs_ok_member [of "seg_end x" X'] by auto
      moreover have "\<forall>p \<in> set (A @ [x]). seg_end p \<le> seg_end x" using AX(3) xe by fastforce
      ultimately show ?thesis
        using AX(1) X tf xs xe le
        by (intro split [of "A @ [x]" X' ?g1]) (auto simp: trimmed_of_def)
    qed
  qed
qed

lemma trim_back_spec:
  assumes ok: "segs_ok lo gs" and wf: "list_all (Segment_wf B) gs" and B: "B < SIZE_MOD"
    and gs: "gs = P @ Y" and g: "Segment_wf B g" "seg_start g < seg_end g"
    and P: "\<forall>p \<in> set P. seg_end p \<le> seg_start g" and Y: "\<forall>y \<in> set Y. seg_start g \<le> seg_start y"
  obtains M Z g2 where "Y = M @ Z" "trim_back nd gs g = Inr (Some (length P + length M, g2))"
      "trimmed_of g2 g" "seg_start g2 = seg_start g" "seg_start g2 \<le> seg_end g2"
      "\<forall>m \<in> set M. seg_end m \<le> seg_end g2" "\<forall>z \<in> set Z. seg_end g2 \<le> seg_start z"
      "{seg_end g2..<seg_end g} \<subseteq> covered Z"
      "seg_start g2 = seg_end g2 \<longrightarrow> M = [] \<and> (\<exists>z Z'. Z = z # Z' \<and> seg_start z = seg_start g2)"
proof -
  let ?s = "seg_start g" and ?e = "seg_end g"
  obtain M Z where MZ: "Y = M @ Z" "segments_lower_bound Y ?e = length M"
      "\<forall>a \<in> set M. seg_end a < ?e" "Z = [] \<or> ?e \<le> seg_end (hd Z)"
    by (rule lower_bound_split)
  have lb: "segments_lower_bound gs ?e = length P + length M"
  proof -
    have "\<forall>p \<in> set P. seg_end p < ?e" using P g(2) by auto
    then show ?thesis using MZ(2) by (simp add: gs segments_lower_bound_def takeWhile_append2)
  qed
  have okY: "segs_ok (segs_hi lo P) M" "segs_ok (segs_hi (segs_hi lo P) M) Z"
    using ok gs MZ(1) by simp_all
  show ?thesis
  proof (cases "Z \<noteq> [] \<and> seg_start (hd Z) \<le> ?e")
    case False
    then have "trim_back nd gs g = Inr (Some (length P + length M, g))"
      using MZ lb gs by (cases Z) (auto simp: trim_back_def Let_def nth_append)
    moreover have "\<forall>z \<in> set Z. ?e \<le> seg_start z"
    proof (cases Z)
      case (Cons z Z')
      with False have "?e < seg_start z" by simp
      moreover from okY(2) Cons have "segs_ok (seg_end z) Z'" "seg_start z < seg_end z" by simp_all
      ultimately show ?thesis using segs_ok_member [of "seg_end z" Z'] unfolding Cons by fastforce
    qed simp
    ultimately show ?thesis
      using MZ g(2) by (intro that [of M Z g]) (auto intro: less_imp_le)
  next
    case True
    then obtain z Z' where Z: "Z = z # Z'" and zs: "seg_start z \<le> ?e" by (cases Z) auto
    have ze: "?e \<le> seg_end z" and sz: "?s \<le> seg_start z" using MZ Y Z by auto
    have zB: "seg_end z \<le> B" using wf gs MZ(1) Z by (simp add: Segment_wf_def)
    have nth: "gs ! (length P + length M) = z" "length P + length M < length gs"
      by (simp_all add: gs MZ(1) Z nth_append)
    have n: "sub64 ?e (seg_start z) = ?e - seg_start z" using zs g(1) B
      by (simp add: size_arith Segment_wf_def)
    have sg: "Segment_size g = ?e - ?s" using g(1) B by (rule Segment_wf_size)
    let ?g2 = "g\<lparr>seg_end := seg_start z\<rparr>"
    have eB: "?e < SIZE_MOD" using g(1) B by (simp add: Segment_wf_def)
    have "Segment_remove_suffix nd (?e - seg_start z) g = Inr ?g2"
      using zs sz eB by (simp add: Segment_remove_suffix_def size_arith)
    then have tb: "trim_back nd gs g = Inr (Some (length P + length M, ?g2))"
      using lb nth ze zs n sg sz by (simp add: trim_back_def Let_def)
    have Mz: "segs_hi (segs_hi lo P) M \<le> seg_start z" using okY(2) Z by simp
    have M: "\<forall>m \<in> set M. seg_end m \<le> seg_start z"
      using segs_ok_member [OF okY(1)] Mz by fastforce
    have empty: "M = []" if "?s = seg_start z"
    proof (cases M)
      case (Cons m M')
      with M Y MZ(1) okY(1) that show ?thesis by auto
    qed
    have Zs: "\<forall>w \<in> set Z. seg_start z \<le> seg_start w"
    proof -
      from okY(2) Z have "segs_ok (seg_end z) Z'" "seg_start z < seg_end z" by simp_all
      then show ?thesis using segs_ok_member [of "seg_end z" Z'] unfolding Z by fastforce
    qed
    show ?thesis
      using MZ(1) tb zs sz ze M Zs Z empty
      by (intro that [of M Z ?g2]) (auto simp: trimmed_of_def)
  qed
qed

section \<open>Inserting a segment\<close>

text \<open>Replacing the segments \<open>M\<close> inside \<open>g\<close> by \<open>g\<close>; an empty \<open>g\<close> meets its successor and is not inserted.\<close>

lemma splice_spec:
  assumes ok: "segs_ok lo (P @ M @ Z)" and lo: "lo \<le> seg_start g" and g: "seg_start g \<le> seg_end g"
    and P: "\<forall>p \<in> set P. seg_end p \<le> seg_start g"
    and M: "\<forall>m \<in> set M. seg_start g \<le> seg_start m \<and> seg_end m \<le> seg_end g"
    and Z: "\<forall>z \<in> set Z. seg_end g \<le> seg_start z"
    and empty: "seg_start g = seg_end g \<longrightarrow> M = [] \<and> (\<exists>z Z'. Z = z # Z' \<and> seg_start z = seg_start g)"
  shows "segs_ok lo (segments_insert g (P @ Z))"
    and "covered (segments_insert g (P @ Z)) = covered (P @ M @ Z) \<union> {seg_start g..<seg_end g}"
    and "segs_total (segments_insert g (P @ Z)) = segs_total P + segs_total Z + (seg_end g - seg_start g)"
    and "set (segments_insert g (P @ Z)) \<subseteq> insert g (set P \<union> set Z)"
proof -
  have okP: "segs_ok lo P" "segs_ok (segs_hi (segs_hi lo P) M) Z" using ok by simp_all
  have hiP: "segs_hi lo P \<le> seg_start g" using okP(1) lo P by (rule segs_hi_le)
  have start: "\<forall>p \<in> set P. seg_start p < seg_start g"
    using segs_ok_member [OF okP(1)] P by fastforce
  have ins: "segments_insert g (P @ Z) = (if seg_start g = seg_end g then P @ Z else P @ g # Z)"
  proof (cases "seg_start g = seg_end g")
    case True
    with empty start show ?thesis by (auto intro: segments_insert_present)
  next
    case False
    have "Z = [] \<or> seg_start g < seg_start (hd Z)" using g Z False by (cases Z) auto
    with start False show ?thesis by (simp add: segments_insert_between)
  qed
  show "segs_ok lo (segments_insert g (P @ Z))"
    using ok empty hiP g segs_ok_strengthen [OF okP(2) Z] by (auto simp: ins okP(1))
  have "covered M \<subseteq> {seg_start g..<seg_end g}" using M by (fastforce simp: covered_def)
  then show "covered (segments_insert g (P @ Z)) = covered (P @ M @ Z) \<union> {seg_start g..<seg_end g}"
    using empty by (auto simp: ins)
  show "segs_total (segments_insert g (P @ Z)) = segs_total P + segs_total Z + (seg_end g - seg_start g)"
    and "set (segments_insert g (P @ Z)) \<subseteq> insert g (set P \<union> set Z)"
    by (auto simp: ins)
qed

lemma push_interval_spec:
  assumes ok: "segs_ok lo (sr_segments r)" and wf: "list_all (Segment_wf B) (sr_segments r)"
    and B: "B < SIZE_MOD" and un: "sr_unassembled_bytes r = segs_total (sr_segments r)"
    and g: "Segment_wf B g" "lo \<le> seg_start g" and lo: "lo \<le> B"
  shows "\<exists>gs'. push_interval nd r g = Inr (r\<lparr>sr_segments := gs', sr_unassembled_bytes := segs_total gs'\<rparr>) \<and>
           segs_ok lo gs' \<and> list_all (Segment_wf B) gs' \<and>
           covered gs' = covered (sr_segments r) \<union> {seg_start g..<seg_end g} \<and>
           (\<forall>h \<in> set gs'. h \<in> set (sr_segments r) \<or> trimmed_of h g)"
proof -
  let ?gs = "sr_segments r"
  have unchanged: "r\<lparr>sr_segments := ?gs, sr_unassembled_bytes := segs_total ?gs\<rparr> = r" using un by simp
  have small: "segs_total xs + lo \<le> B" if "segs_ok lo xs" "list_all (Segment_wf B) xs" for xs
    using segs_total_bound [OF that(1)] segs_hi_le [OF that(1) lo] that(2)
    by (fastforce simp: list_all_iff Segment_wf_def)
  have size: "Segment_size g = seg_end g - seg_start g" using g(1) B by (rule Segment_wf_size)
  show ?thesis
  proof (cases "seg_start g < seg_end g")
    case False
    with size g(1) have "push_interval nd r g = Inr r" by (simp add: push_interval_def Segment_wf_def)
    with unchanged ok wf False show ?thesis by (intro exI [of _ ?gs]) auto
  next
    case nonempty: True
    with size have size0: "Segment_size g \<noteq> 0" by simp
    from ok wf B g(1) nonempty show ?thesis
    proof (cases rule: trim_front_spec [where nd = nd])
      case inside
      then have "push_interval nd r g = Inr r" using size0 by (simp add: push_interval_def)
      with unchanged ok wf inside(2) show ?thesis by (intro exI [of _ ?gs]) auto
    next
      case (split P Y g1)
      have g1: "Segment_wf B g1" using g(1) split(3,5) by (rule Segment_wf_trimmed)
      show ?thesis
      proof (cases "seg_start g1 < seg_end g1")
        case False
        then obtain A x where Ax: "P = A @ [x]" "seg_end x = seg_end g1" using split(5,9) by auto
        have x: "seg_start x < seg_end x" "segs_hi lo A \<le> seg_start x"
          using ok split(1) Ax(1) by auto
        have A: "\<forall>a \<in> set A. seg_end a < seg_end g1"
          using segs_ok_member [of lo A] ok split(1) Ax x by fastforce
        then have lb: "segments_lower_bound ?gs (seg_end g1) = length A"
          using split(1) Ax by (simp add: segments_lower_bound_def)
        have "sub64 (seg_end g1) (seg_start x) > Segment_size g1"
          using Segment_wf_size [OF g1 B] g1 B False x Ax(2) by (simp add: Segment_wf_def size_arith)
        then have "trim_back nd ?gs g1 = Inr None"
          using lb split(1) Ax x by (simp add: trim_back_def Let_def nth_append)
        then have "push_interval nd r g = Inr r"
          using split(2) size0 by (simp add: push_interval_def)
        moreover have "{seg_start g..<seg_end g} \<subseteq> covered ?gs"
          using split(1,4,5,8) False by auto
        ultimately show ?thesis using unchanged ok wf by (intro exI [of _ ?gs]) auto
      next
        case True
        from ok wf B split(1) g1 True split(6,7)
        obtain M Z g2 where b: "Y = M @ Z" "trim_back nd ?gs g1 = Inr (Some (length P + length M, g2))"
            "trimmed_of g2 g1" "seg_start g2 = seg_start g1" "seg_start g2 \<le> seg_end g2"
            "\<forall>m \<in> set M. seg_end m \<le> seg_end g2" "\<forall>z \<in> set Z. seg_end g2 \<le> seg_start z"
            "{seg_end g2..<seg_end g1} \<subseteq> covered Z"
            "seg_start g2 = seg_end g2 \<longrightarrow> M = [] \<and> (\<exists>z Z'. Z = z # Z' \<and> seg_start z = seg_start g2)"
          by (rule trim_back_spec [where nd = nd])
        have g2: "Segment_wf B g2" using g1 b(3,5) by (rule Segment_wf_trimmed)
        have gs: "?gs = P @ M @ Z" using split(1) b(1) by simp
        have lo2: "lo \<le> seg_start g2" using g(2) split(3) b(4) by (simp add: trimmed_of_def)
        have M: "\<forall>m \<in> set M. seg_start g2 \<le> seg_start m \<and> seg_end m \<le> seg_end g2"
          using b(1,4,6) split(7) by auto
        have P: "\<forall>p \<in> set P. seg_end p \<le> seg_start g2" using split(6) b(4) by simp
        note sp = splice_spec [OF ok [unfolded gs] lo2 b(5) P M b(7,9)]
        let ?gs' = "segments_insert g2 (P @ Z)"
        have wf': "list_all (Segment_wf B) ?gs'"
          using sp(4) wf g2 by (auto simp: list_all_iff gs)
        have wfM: "list_all (Segment_wf B) M" using wf gs by simp
        have "subtract_sizes (sr_unassembled_bytes r) M = segs_total P + segs_total Z"
          using subtract_sizes_total [OF wfM B, of "sr_unassembled_bytes r"] un gs small [OF ok wf] B by simp
        moreover have "add64 (segs_total P + segs_total Z) (Segment_size g2) = segs_total ?gs'"
          using small [OF sp(1) wf'] B sp(3) Segment_wf_size [OF g2 B] by (simp add: add64_exact)
        ultimately have "push_interval nd r g =
            Inr (r\<lparr>sr_segments := ?gs', sr_unassembled_bytes := segs_total ?gs'\<rparr>)"
          using split(2) b(2) size0 gs by (simp add: push_interval_def segments_erase_def Let_def)
        moreover have "covered ?gs' = covered ?gs \<union> {seg_start g..<seg_end g}"
        proof -
          have "{seg_start g..<seg_end g} =
              {seg_start g..<seg_start g1} \<union> {seg_start g2..<seg_end g2} \<union> {seg_end g2..<seg_end g1}"
            using split(3,4,5) b(3,4,5) by (auto simp: trimmed_of_def)
          then show ?thesis using split(8) b(8) gs by (auto simp: sp(2))
        qed
        moreover have "trimmed_of g2 g" using split(3) b(3) by (auto simp: trimmed_of_def)
        then have "\<forall>h \<in> set ?gs'. h \<in> set ?gs \<or> trimmed_of h g" using gs sp(4) by auto
        ultimately show ?thesis using sp(1) wf' by blast
      qed
    qed
  qed
qed

section \<open>The reassembly loop\<close>

text \<open>A segment that carries the bytes of the logical stream \<open>S\<close> at its positions.\<close>

definition seg_matches :: "bytes \<Rightarrow> Segment \<Rightarrow> bool" where
  "seg_matches S g \<longleftrightarrow> seg_end g \<le> length S \<and> Segment_str g = extent S (seg_start g) (seg_end g)"

lemma Segment_str_extent:
  "Segment_wf B g \<Longrightarrow> B < SIZE_MOD \<Longrightarrow>
     Segment_str g = extent (Buffer_str (seg_data g)) (seg_start g - seg_index g) (seg_end g - seg_index g)"
  by (simp add: Segment_str_def Segment_wf_def size_arith extent_def take_drop)

lemma seg_matches_trimmed:
  assumes "Segment_wf B g" "B < SIZE_MOD" "seg_matches S g" "trimmed_of g' g" "seg_start g' \<le> seg_end g'"
  shows "seg_matches S g'"
proof -
  have wf': "Segment_wf B g'" using assms(1,4,5) by (rule Segment_wf_trimmed)
  let ?n = "seg_start g' - seg_start g" and ?l = "seg_end g' - seg_start g'"
  have "Segment_str g' = take ?l (drop ?n (Segment_str g))"
  proof -
    have i: "seg_index g \<le> seg_start g" "seg_start g \<le> seg_start g'" "seg_end g' \<le> seg_end g"
        "seg_index g' = seg_index g" "seg_data g' = seg_data g"
      using assms(1,4) by (simp_all add: Segment_wf_def trimmed_of_def)
    then have sum: "seg_start g - seg_index g + ?n = seg_start g' - seg_index g"
        "seg_start g' - seg_index g + ?l = seg_end g' - seg_index g"
        "seg_start g' - seg_index g + ?l \<le> seg_end g - seg_index g"
      using assms(5) by linarith+
    show ?thesis
      by (simp add: Segment_str_extent [OF assms(1,2)] Segment_str_extent [OF wf' assms(2)] drop_extent
          take_extent [OF sum(3)] i(4,5) sum(1,2))
  qed
  also have "\<dots> = extent S (seg_start g') (seg_end g')"
    using assms(3,4,5) by (simp add: seg_matches_def drop_extent take_extent trimmed_of_def)
  finally show ?thesis using assms(3,4) by (simp add: seg_matches_def trimmed_of_def)
qed

text \<open>What every exit of the loop establishes, from output \<open>out\<close> and segments \<open>gs\<close>.\<close>

definition reassembled ::
  "nat \<Rightarrow> ByteStream \<Rightarrow> Segment list \<Rightarrow> ByteStream \<Rightarrow> Segment list \<Rightarrow> bool" where
  "reassembled B out gs out' gs' \<longleftrightarrow>
     ByteStream_inv out' \<and> bs_capacity out' = bs_capacity out \<and> bs_bytes_read out' = bs_bytes_read out \<and>
     bs_input_ended out' = bs_input_ended out \<and> bs_error out' = bs_error out \<and>
     bs_bytes_written out \<le> bs_bytes_written out' \<and> bs_bytes_written out' \<le> B \<and>
     segs_ok (bs_bytes_written out') gs' \<and> list_all (Segment_wf B) gs' \<and>
     covered gs' = covered gs - {..<bs_bytes_written out'} \<and>
     {bs_bytes_written out..<bs_bytes_written out'} \<subseteq> covered gs \<and>
     (remaining_capacity out' = 0 \<or> bs_bytes_written out' \<notin> covered gs') \<and>
     (\<forall>h \<in> set gs'. \<exists>g \<in> set gs. trimmed_of h g) \<and>
     (\<forall>S. (\<forall>g \<in> set gs. seg_matches S g) \<longrightarrow>
        bs_contents out' = bs_contents out @ extent S (bs_bytes_written out) (bs_bytes_written out'))"

lemma reassembledD:
  assumes "reassembled B out gs out' gs'"
  shows "ByteStream_inv out'" "bs_capacity out' = bs_capacity out" "bs_bytes_read out' = bs_bytes_read out"
    "bs_input_ended out' = bs_input_ended out" "bs_error out' = bs_error out"
    "bs_bytes_written out \<le> bs_bytes_written out'" "bs_bytes_written out' \<le> B"
    "segs_ok (bs_bytes_written out') gs'" "list_all (Segment_wf B) gs'"
    "covered gs' = covered gs - {..<bs_bytes_written out'}"
    "{bs_bytes_written out..<bs_bytes_written out'} \<subseteq> covered gs"
    "remaining_capacity out' = 0 \<or> bs_bytes_written out' \<notin> covered gs'"
    "\<forall>h \<in> set gs'. \<exists>g \<in> set gs. trimmed_of h g"
    "\<forall>g \<in> set gs. seg_matches S g \<Longrightarrow>
       bs_contents out' = bs_contents out @ extent S (bs_bytes_written out) (bs_bytes_written out')"
  using assms unfolding reassembled_def by blast+

lemma reassembled_stop:
  assumes "ByteStream_inv out'" "bs_capacity out' = bs_capacity out" "bs_bytes_read out' = bs_bytes_read out"
    "bs_input_ended out' = bs_input_ended out" "bs_error out' = bs_error out"
    "bs_bytes_written out' = bs_bytes_written out" "bs_contents out' = bs_contents out"
    "bs_bytes_written out \<le> B" "segs_ok (bs_bytes_written out) gs" "list_all (Segment_wf B) gs"
    "remaining_capacity out' = 0 \<or> bs_bytes_written out \<notin> covered gs"
  shows "reassembled B out gs out' gs"
proof -
  have "covered gs \<inter> {..<bs_bytes_written out} = {}"
    using covered_range [OF assms(9)] by auto
  then have "covered gs - {..<bs_bytes_written out} = covered gs" by blast
  then show ?thesis
    using assms unfolding reassembled_def by (auto intro: trimmed_of_refl)
qed

lemma trimmed_of_trans: "trimmed_of a b \<Longrightarrow> trimmed_of b c \<Longrightarrow> trimmed_of a c"
  by (simp add: trimmed_of_def)

lemma reassembled_trans:
  assumes same: "bs_capacity out1 = bs_capacity out" "bs_bytes_read out1 = bs_bytes_read out"
      "bs_input_ended out1 = bs_input_ended out" "bs_error out1 = bs_error out"
    and bw1: "bs_bytes_written out1 = bs_bytes_written out + n"
    and cov: "covered gs1 = covered gs - {..<bs_bytes_written out1}"
    and sub: "{bs_bytes_written out..<bs_bytes_written out1} \<subseteq> covered gs"
    and trim: "\<forall>h \<in> set gs1. \<exists>g \<in> set gs. trimmed_of h g"
    and cont: "\<And>S. \<forall>g \<in> set gs. seg_matches S g \<Longrightarrow>
        bs_contents out1 = bs_contents out @ extent S (bs_bytes_written out) (bs_bytes_written out1) \<and>
        (\<forall>h \<in> set gs1. seg_matches S h)"
    and R: "reassembled B out1 gs1 out' gs'"
  shows "reassembled B out gs out' gs'"
  unfolding reassembled_def
proof (intro conjI allI impI)
  note R' = reassembledD(10,11,6,13) [OF R]
  show "remaining_capacity out' = 0 \<or> bs_bytes_written out' \<notin> covered gs'" using R by (rule reassembledD)
  show "covered gs' = covered gs - {..<bs_bytes_written out'}" unfolding R'(1) cov using R'(3) by auto
  show "{bs_bytes_written out..<bs_bytes_written out'} \<subseteq> covered gs"
  proof -
    have "covered gs1 \<subseteq> covered gs" unfolding cov by blast
    with R'(2) have "{bs_bytes_written out1..<bs_bytes_written out'} \<subseteq> covered gs" by (rule subset_trans)
    with sub have "{bs_bytes_written out..<bs_bytes_written out1} \<union> {bs_bytes_written out1..<bs_bytes_written out'}
        \<subseteq> covered gs" by (rule Un_least)
    then show ?thesis using R'(3) bw1 by (simp add: ivl_disj_un_two(3))
  qed
  show "\<forall>h \<in> set gs'. \<exists>g \<in> set gs. trimmed_of h g"
    using R'(4) trim trimmed_of_trans by meson
  show "bs_contents out' = bs_contents out @ extent S (bs_bytes_written out) (bs_bytes_written out')"
    if "\<forall>g \<in> set gs. seg_matches S g" for S
  proof -
    have "bs_contents out' = bs_contents out1 @ extent S (bs_bytes_written out1) (bs_bytes_written out')"
      using cont [OF that] reassembledD(14) [OF R] by simp
    then show ?thesis
      using cont [OF that] R'(3) bw1 by (simp add: extent_append)
  qed
qed (use R same bw1 in \<open>simp_all add: reassembled_def\<close>)

lemma segs_total_small:
  assumes "segs_ok lo gs" "list_all (Segment_wf B) gs" "lo \<le> B"
  shows "segs_total gs + lo \<le> B"
  using segs_total_bound [OF assms(1)] segs_hi_le [OF assms(1,3)] assms(2)
  by (fastforce simp: list_all_iff Segment_wf_def)

text \<open>One write of the first segment: what is left of it is dropped or trimmed.\<close>

definition after_write :: "Segment \<Rightarrow> Segment list \<Rightarrow> nat \<Rightarrow> Segment list" where
  "after_write g gs bw = (if bw < seg_end g then g\<lparr>seg_start := bw\<rparr> # gs else gs)"

lemma after_write_props:
  assumes "segs_ok bw (g # gs)" "list_all (Segment_wf B) (g # gs)" "B < SIZE_MOD"
    "seg_start g = bw" "bw \<le> bw1" "bw1 \<le> seg_end g"
  shows "segs_ok bw1 (after_write g gs bw1)" "list_all (Segment_wf B) (after_write g gs bw1)"
    "covered (after_write g gs bw1) = covered (g # gs) - {..<bw1}"
    "{bw..<bw1} \<subseteq> covered (g # gs)"
    "segs_total (after_write g gs bw1) = segs_total (g # gs) - (bw1 - bw)"
    "\<forall>h \<in> set (after_write g gs bw1). \<exists>h' \<in> set (g # gs). trimmed_of h h'"
    "\<forall>h \<in> set (g # gs). seg_matches S h \<Longrightarrow> \<forall>h \<in> set (after_write g gs bw1). seg_matches S h"
proof -
  let ?t = "g\<lparr>seg_start := bw1\<rparr>"
  have g: "segs_ok (seg_end g) gs" "Segment_wf B g" "seg_start g < seg_end g" using assms(1,2) by simp_all
  have gs_after: "covered gs \<subseteq> {seg_end g..}" using covered_range [OF g(1)] by auto
  have wft: "Segment_wf B ?t" and trim: "trimmed_of ?t g"
    using g(2) assms(4-6) by (auto simp: Segment_wf_def trimmed_of_def)
  show "segs_ok bw1 (after_write g gs bw1)" "list_all (Segment_wf B) (after_write g gs bw1)"
    using g(1) assms(2,6) wft by (auto simp: after_write_def)
  show "covered (after_write g gs bw1) = covered (g # gs) - {..<bw1}"
    using gs_after assms(4-6) by (auto simp: after_write_def)
  show "{bw..<bw1} \<subseteq> covered (g # gs)" using assms(4,6) by auto
  show "segs_total (after_write g gs bw1) = segs_total (g # gs) - (bw1 - bw)"
    using assms(4-6) g(3) by (auto simp: after_write_def)
  show "\<forall>h \<in> set (after_write g gs bw1). \<exists>h' \<in> set (g # gs). trimmed_of h h'"
    using trim by (auto simp: after_write_def intro: trimmed_of_refl)
  show "\<forall>h \<in> set (after_write g gs bw1). seg_matches S h" if "\<forall>h \<in> set (g # gs). seg_matches S h"
    using that seg_matches_trimmed [OF g(2) assms(3) _ trim, of S] assms(6) by (auto simp: after_write_def)
qed

lemma reassembled_write:
  assumes inv: "ByteStream_inv out" and segs: "segs_ok (bs_bytes_written out) (g # gs)"
    and wf: "list_all (Segment_wf B) (g # gs)" and B: "B < SIZE_MOD"
    and st: "seg_start g = bs_bytes_written out" and w: "bs_write out (Segment_str g) = (out1, wc)"
  shows "bs_bytes_written out1 = bs_bytes_written out + wc" "bs_bytes_written out + wc \<le> seg_end g"
    "bs_bytes_written out + wc < seg_end g \<Longrightarrow> remaining_capacity out1 = 0"
    "reassembled B out1 (after_write g gs (bs_bytes_written out1)) out' gs' \<Longrightarrow> reassembled B out (g # gs) out' gs'"
proof -
  let ?bw = "bs_bytes_written out"
  note spec = bs_write_spec [OF inv w]
  have g: "Segment_wf B g" "?bw < seg_end g" using segs wf st by simp_all
  have len: "length (Segment_str g) = seg_end g - ?bw" using length_Segment_str [OF g(1) B] st by simp
  have room: "remaining_capacity out1 = remaining_capacity out - wc"
      "wc = min (seg_end g - ?bw) (remaining_capacity out)"
    using stream.put_law [OF inv w] len by auto
  show bw1: "bs_bytes_written out1 = ?bw + wc"
  proof -
    have "seg_end g < SIZE_MOD" using g(1) B by (simp add: Segment_wf_def)
    moreover have "wc \<le> seg_end g - ?bw" using room(2) by simp
    ultimately have "?bw + wc < SIZE_MOD" using g(2) by linarith
    with spec(4) show ?thesis by (simp add: add64_exact)
  qed
  show le: "?bw + wc \<le> seg_end g" and "?bw + wc < seg_end g \<Longrightarrow> remaining_capacity out1 = 0"
    using room g(2) by auto
  have mid: "?bw \<le> bs_bytes_written out1" "bs_bytes_written out1 \<le> seg_end g" using bw1 le by simp_all
  note p = after_write_props [OF segs wf B st mid]
  have cont: "bs_contents out1 = bs_contents out @ extent S ?bw (bs_bytes_written out1)"
    if "seg_matches S g" for S
    using that st le g(2) spec(3) bw1 by (simp add: seg_matches_def take_extent)
  show "reassembled B out (g # gs) out' gs'"
    if R: "reassembled B out1 (after_write g gs (bs_bytes_written out1)) out' gs'"
  proof (rule reassembled_trans [OF spec(6,5,7,8) bw1 p(3,4,6) _ R])
    fix S assume S: "\<forall>h \<in> set (g # gs). seg_matches S h"
    then show "bs_contents out1 = bs_contents out @ extent S ?bw (bs_bytes_written out1) \<and>
        (\<forall>h \<in> set (after_write g gs (bs_bytes_written out1)). seg_matches S h)"
      using cont [of S] p(7) [OF S] by (intro conjI) simp
  qed
qed

lemma reassemble_cut:
  assumes st: "seg_start g = bs_bytes_written out" and w: "bs_write out (Segment_str g) = (out1, wc)"
    and cut: "bs_bytes_written out + wc < seg_end g" and "seg_end g < SIZE_MOD" "segs_ok (seg_end g) gs"
    and "Segment_size g = seg_end g - bs_bytes_written out" "un < SIZE_MOD"
  shows "reassemble nd out un (g # gs) = Inr (out1, sub64 un wc, after_write g gs (bs_bytes_written out + wc))"
proof (cases "wc = 0")
  case True
  with assms show ?thesis by (cases g) (simp add: bytes_written_def after_write_def sub64_exact)
next
  case False
  let ?t = "g\<lparr>seg_start := bs_bytes_written out + wc\<rparr>"
  have "segments_insert ?t gs = ?t # gs" using assms(3,5) by (cases gs) auto
  moreover have "Segment_remove_prefix nd wc g = Inr ?t"
    using assms(1,3,4) by (simp add: Segment_remove_prefix_def add64_exact)
  moreover have "wc < Segment_size g" using assms(3,6) by simp
  ultimately show ?thesis
    using st w cut False by (simp add: bytes_written_def after_write_def)
qed

lemma reassemble_spec:
  assumes "ByteStream_inv out" "segs_ok (bs_bytes_written out) gs" "list_all (Segment_wf B) gs"
    and B: "B < SIZE_MOD" and "bs_bytes_written out \<le> B"
  shows "\<exists>out' gs'. reassemble nd out (segs_total gs) gs = Inr (out', segs_total gs', gs') \<and>
           reassembled B out gs out' gs'"
  using assms
proof (induction gs arbitrary: out)
  case Nil
  then show ?case by (simp add: reassembled_def)
next
  case (Cons g gs)
  let ?bw = "bs_bytes_written out"
  have g: "segs_ok (seg_end g) gs" "Segment_wf B g" "?bw \<le> seg_start g" "seg_start g < seg_end g"
    using Cons.prems(2,3) by simp_all
  show ?case
  proof (cases "seg_start g = ?bw")
    case False
    moreover have "?bw \<notin> covered gs" using covered_range [OF g(1)] g(3,4) by auto
    ultimately have "reassembled B out (g # gs) out (g # gs)"
      using Cons.prems g(3) by (intro reassembled_stop) simp_all
    then show ?thesis using False by (auto simp: bytes_written_def)
  next
    case True
    obtain out1 wc where w: "bs_write out (Segment_str g) = (out1, wc)" by fastforce
    note spec = bs_write_spec [OF Cons.prems(1) w]
    note rw = reassembled_write [OF Cons.prems(1-4) True w]
    let ?bw1 = "bs_bytes_written out1" and ?gs1 = "after_write g gs (bs_bytes_written out1)"
    have mid: "?bw \<le> ?bw1" "?bw1 \<le> seg_end g" "?bw1 \<le> B" using rw(1,2) g(2) by (simp_all add: Segment_wf_def)
    note p = after_write_props [OF Cons.prems(2-4) True mid(1,2)]
    have size: "Segment_size g = seg_end g - ?bw" using Segment_wf_size [OF g(2) B] True by simp
    have un: "sub64 (segs_total (g # gs)) wc = segs_total ?gs1"
      using p(5) rw(1,2) segs_total_small [OF Cons.prems(2,3,5)] B True
      by (subst sub64_exact) (simp_all del: segs_total_simps, simp)
    show ?thesis
    proof (cases "?bw1 < seg_end g")
      case True': True
      have "reassembled B out1 ?gs1 out1 ?gs1"
        using spec(1) p(1,2) mid(3) rw(1,3) True' by (intro reassembled_stop) simp_all
      moreover have "reassemble nd out (segs_total (g # gs)) (g # gs) = Inr (out1, segs_total ?gs1, ?gs1)"
        unfolding rw(1) un [symmetric, unfolded rw(1)]
      proof (rule reassemble_cut [OF True w])
        show "?bw + wc < seg_end g" using True' rw(1) by simp
        show "seg_end g < SIZE_MOD" using g(2) B by (simp add: Segment_wf_def)
        show "segs_total (g # gs) < SIZE_MOD"
          using segs_total_small [OF Cons.prems(2,3,5)] B by linarith
      qed (rule g(1) size)+
      ultimately show ?thesis using rw(4) by blast
    next
      case False
      with mid(2) have gs1: "?gs1 = gs" "?bw1 = seg_end g" by (simp_all add: after_write_def)
      then obtain out' gs' where IH: "reassemble nd out1 (segs_total gs) gs = Inr (out', segs_total gs', gs')"
          "reassembled B out1 gs out' gs'"
        using Cons.IH [of out1] spec(1) p(1,2) B mid(3) by auto
      have "reassemble nd out (segs_total (g # gs)) (g # gs) = reassemble nd out1 (segs_total gs) gs"
      proof -
        have "wc = Segment_size g" "wc \<noteq> 0" using size gs1(2) rw(1) g(4) True by simp_all
        with True w un gs1(1) show ?thesis by (simp add: bytes_written_def)
      qed
      with IH show ?thesis using rw(4) gs1(1) by auto
    qed
  qed
qed

end
