(* ===== verification/Reassembler_Contract.thy ===== *)
theory Reassembler_Contract
  imports Stream_Reassembler
begin

text \<open>
  What libsponge/stream\_reassembler.cc promises: the invariant of the reassembler, the effect of
  one \<open>push_substring\<close> inside its window, and the properties of whole runs.
\<close>

section \<open>The contract of push\_substring\<close>

text \<open>
  The invariant, for stream positions up to \<open>B\<close>: the output is a proper stream, the segments lie in
  order between the first unassembled byte and the end of the window, and the count of unassembled
  bytes is their total size.
\<close>

definition sr_inv :: "nat \<Rightarrow> StreamReassembler \<Rightarrow> bool" where
  "sr_inv B r \<longleftrightarrow>
     ByteStream_inv (sr_output r) \<and> bs_capacity (sr_output r) = sr_capacity r \<and>
     B + sr_capacity r < SIZE_MOD \<and> bs_bytes_written (sr_output r) \<le> B \<and>
     bs_bytes_read (sr_output r) + length (bs_contents (sr_output r)) = bs_bytes_written (sr_output r) \<and>
     segs_ok (bs_bytes_written (sr_output r)) (sr_segments r) \<and>
     list_all (Segment_wf B) (sr_segments r) \<and>
     covered (sr_segments r) \<subseteq> {..<bs_bytes_written (sr_output r) + sr_capacity r} \<and>
     sr_unassembled_bytes r = segs_total (sr_segments r) \<and>
     (bs_input_ended (sr_output r) \<longrightarrow>
        sr_got_eof r \<and> sr_end_index r = bs_bytes_written (sr_output r))"

text \<open>The stream positions whose byte the reassembler has accepted.\<close>

definition held :: "StreamReassembler \<Rightarrow> nat set" where
  "held r = {..<bs_bytes_written (sr_output r)} \<union> covered (sr_segments r)"

text \<open>Everything stored is the logical stream \<open>S\<close> at its position.\<close>

definition sr_agrees :: "bytes \<Rightarrow> StreamReassembler \<Rightarrow> bool" where
  "sr_agrees S r \<longleftrightarrow>
     bs_bytes_written (sr_output r) \<le> length S \<and>
     bs_contents (sr_output r) = extent S (bs_bytes_read (sr_output r)) (bs_bytes_written (sr_output r)) \<and>
     (\<forall>g \<in> set (sr_segments r). seg_matches S g)"

text \<open>The first byte past the window of the reassembler.\<close>

abbreviation sr_window_end :: "StreamReassembler \<Rightarrow> nat" where
  "sr_window_end r \<equiv> bs_bytes_written (sr_output r) + sr_capacity r"

definition pushed ::
  "nat \<Rightarrow> StreamReassembler \<Rightarrow> bytes \<Rightarrow> nat \<Rightarrow> bool \<Rightarrow> StreamReassembler \<Rightarrow> bool" where
  "pushed B r data index fin r' \<longleftrightarrow>
     sr_inv B r' \<and> sr_capacity r' = sr_capacity r \<and>
     bs_bytes_read (sr_output r') = bs_bytes_read (sr_output r) \<and>
     bs_error (sr_output r') = bs_error (sr_output r) \<and>
     bs_bytes_written (sr_output r) \<le> bs_bytes_written (sr_output r') \<and>
     held r' = held r \<union> ({index..<index + length data} \<inter> {..<sr_window_end r}) \<and>
     (remaining_capacity (sr_output r') = 0 \<or> bs_bytes_written (sr_output r') \<notin> held r') \<and>
     sr_got_eof r' = (sr_got_eof r \<or> fin) \<and>
     sr_end_index r' = (if fin \<and> \<not> sr_got_eof r then index + length data else sr_end_index r) \<and>
     bs_input_ended (sr_output r') =
       (sr_got_eof r' \<and> sr_end_index r' = bs_bytes_written (sr_output r')) \<and>
     (\<forall>S. sr_agrees S r \<longrightarrow> index + length data \<le> length S \<longrightarrow>
        data = extent S index (index + length data) \<longrightarrow> sr_agrees S r')"

lemma pushedD:
  assumes "pushed B r data index fin r'"
  shows "sr_inv B r'" "sr_capacity r' = sr_capacity r"
    "bs_bytes_read (sr_output r') = bs_bytes_read (sr_output r)"
    "bs_bytes_written (sr_output r) \<le> bs_bytes_written (sr_output r')"
    "held r' = held r \<union> ({index..<index + length data} \<inter> {..<sr_window_end r})"
    "remaining_capacity (sr_output r') = 0 \<or> bs_bytes_written (sr_output r') \<notin> held r'"
    "sr_got_eof r' = (sr_got_eof r \<or> fin)"
    "sr_end_index r' = (if fin \<and> \<not> sr_got_eof r then index + length data else sr_end_index r)"
    "bs_input_ended (sr_output r') = (sr_got_eof r' \<and> sr_end_index r' = bs_bytes_written (sr_output r'))"
    "sr_agrees S r \<Longrightarrow> index + length data \<le> length S \<Longrightarrow>
       data = extent S index (index + length data) \<Longrightarrow> sr_agrees S r'"
  using assms unfolding pushed_def by blast+

lemma sr_inv_new [simp]: "B + capacity < SIZE_MOD \<Longrightarrow> sr_inv B (StreamReassembler_new capacity)"
  by (simp add: sr_inv_def StreamReassembler_new_def) (simp add: ByteStream_new_def)

text \<open>The segment that enters \<open>push_interval\<close>: the part of the data inside the window.\<close>

definition clipped :: "StreamReassembler \<Rightarrow> bytes \<Rightarrow> nat \<Rightarrow> Segment" where
  "clipped r data index =
     (let n = min (length data) (sr_window_end r - index) in
      \<lparr>seg_index = index, seg_data = Buffer_of_string (take n data),
       seg_start = max index (bs_bytes_written (sr_output r)), seg_end = index + n\<rparr>)"

lemma clipped_props:
  assumes "bs_bytes_written (sr_output r) \<le> index + length data" "index \<le> sr_window_end r"
    "index + length data \<le> B" "B + sr_capacity r < SIZE_MOD"
  shows "Segment_wf B (clipped r data index)" "bs_bytes_written (sr_output r) \<le> seg_start (clipped r data index)"
    "{seg_start (clipped r data index)..<seg_end (clipped r data index)} =
       {index..<index + length data} \<inter> {bs_bytes_written (sr_output r)..<sr_window_end r}"
    "index + length data \<le> length S \<Longrightarrow> data = extent S index (index + length data) \<Longrightarrow>
       seg_matches S (clipped r data index)"
proof -
  let ?n = "min (length data) (sr_window_end r - index)" and ?bw = "bs_bytes_written (sr_output r)"
  have n: "?bw \<le> index + ?n" "index + ?n \<le> index + length data" "?n < SIZE_MOD"
    using assms by (auto simp: min_def)
  show wf: "Segment_wf B (clipped r data index)"
    using n assms(3) by (simp add: Segment_wf_def clipped_def Let_def)
  show "?bw \<le> seg_start (clipped r data index)" by (simp add: clipped_def Let_def)
  show "{seg_start (clipped r data index)..<seg_end (clipped r data index)} =
       {index..<index + length data} \<inter> {?bw..<sr_window_end r}"
    using assms(2) by (auto simp: clipped_def Let_def)
  show "seg_matches S (clipped r data index)"
    if S: "index + length data \<le> length S" "data = extent S index (index + length data)"
  proof -
    have "take ?n data = extent S index (index + ?n)"
      using S(2) take_extent [of index ?n "index + length data" S] by simp
    moreover have "Segment_str (clipped r data index) = drop (max index ?bw - index) (take ?n data)"
      using n(3) assms(4) by (subst Segment_str_extent [OF wf]) (simp_all add: clipped_def Let_def extent_def)
    ultimately have "Segment_str (clipped r data index) = extent S (max index ?bw) (index + ?n)"
      by (simp add: drop_extent)
    then show ?thesis using n(2) S(1) by (simp add: seg_matches_def clipped_def Let_def)
  qed
qed

text \<open>\<open>push_substring\<close> on its window: the clipped segment goes through \<open>push_interval\<close> and the loop.\<close>

lemma push_substring_clipped:
  assumes inv: "sr_inv B r" and open_: "\<not> bs_input_ended (sr_output r)"
    and range: "bs_bytes_written (sr_output r) \<le> index + length data" "index \<le> sr_window_end r"
      "index + length data \<le> B"
  shows "push_substring nd r data index fin =
     (let r1 = (if fin \<and> \<not> sr_got_eof r
                then r\<lparr>sr_got_eof := True, sr_end_index := index + length data\<rparr> else r)
      in result_bind (push_interval nd r1 (clipped r data index)) (\<lambda>r2.
         result_bind (reassemble nd (sr_output r2) (sr_unassembled_bytes r2) (sr_segments r2)) (\<lambda>(out, un, gs).
           let r3 = r2\<lparr>sr_output := out, sr_unassembled_bytes := un, sr_segments := gs\<rparr> in
           if sr_got_eof r3 \<and> sr_end_index r3 = bytes_written (sr_output r3)
           then Inr (r3\<lparr>sr_output := end_input (sr_output r3)\<rparr>) else Inr r3)))"
proof -
  let ?bw = "bs_bytes_written (sr_output r)" and ?we = "sr_window_end r"
  have small: "index + length data < SIZE_MOD" "?we < SIZE_MOD" "?bw < SIZE_MOD"
    using inv range(3) by (simp_all add: sr_inv_def)
  then have sums: "add64 index (length data) = index + length data" "add64 ?bw (sr_capacity r) = ?we"
    by (simp_all add: size_arith)
  define n where "n = min (length data) (?we - index)"
  then have n: "n = min (length data) (?we - index)"
      "(if ?we < index + length data then sub64 ?we index else length data) = n"
    using small range(2) by (auto simp: size_arith min_def)
  have view: "Segment_of_view index data n = Inr (Segment_new index (take n data))"
    using n(1) by (simp add: Segment_of_view_def)
  have le: "?bw \<le> index + n" "index + n < SIZE_MOD" using n(1) range(1,2) small(1) by (auto simp: min_def)
  have "(if seg_start (Segment_new index (take n data)) < ?bw
         then Segment_remove_prefix nd (sub64 ?bw (seg_start (Segment_new index (take n data)))) (Segment_new index (take n data))
         else Inr (Segment_new index (take n data))) = Inr (clipped r data index)"
    using le small(3) n(1)
    by (simp add: Segment_new_def Segment_remove_prefix_def clipped_def Let_def size_arith max_def)
  then show ?thesis
    using open_ range(1) view
    unfolding push_substring_def input_ended_def bytes_written_def Let_def sums n(2) by simp
qed

lemma held_after_push:
  fixes bw bw' :: nat
  assumes "C1 = C \<union> (D \<inter> {bw..<we})" "C' = C1 - {..<bw'}" "{bw..<bw'} \<subseteq> C1" "bw \<le> bw'" "bw \<le> we"
  shows "{..<bw'} \<union> C' = {..<bw} \<union> C \<union> (D \<inter> {..<we})"
proof -
  have "{..<bw'} = {..<bw} \<union> {bw..<bw'}" using assms(4) by auto
  with assms(2,3) have "{..<bw'} \<union> C' = {..<bw} \<union> C1" by auto
  also have "\<dots> = {..<bw} \<union> C \<union> (D \<inter> {..<we})" using assms(1,5) by auto
  finally show ?thesis .
qed

text \<open>From the two loops to the state after the call, before the end-of-input flag is set.\<close>

lemma pushed_core:
  assumes inv: "sr_inv B r" and g: "{seg_start g..<seg_end g} =
      {index..<index + length data} \<inter> {bs_bytes_written (sr_output r)..<sr_window_end r}"
    and cov1: "covered gs1 = covered (sr_segments r) \<union> {seg_start g..<seg_end g}"
    and R: "reassembled B (sr_output r) gs1 out' gs'"
  shows "{..<bs_bytes_written out'} \<union> covered gs' = held r \<union> ({index..<index + length data} \<inter> {..<sr_window_end r})"
    and "covered gs' \<subseteq> {..<bs_bytes_written out' + sr_capacity r}"
    and "bs_bytes_read out' + length (bs_contents out') = bs_bytes_written out'"
    and "remaining_capacity out' = 0 \<or> bs_bytes_written out' \<notin> {..<bs_bytes_written out'} \<union> covered gs'"
proof -
  note R' = reassembledD(10,11,6,1,3,12) [OF R]
  show "{..<bs_bytes_written out'} \<union> covered gs' = held r \<union> ({index..<index + length data} \<inter> {..<sr_window_end r})"
    using held_after_push [OF cov1 [unfolded g] R'(1-3)] by (simp add: held_def)
  have "covered gs1 \<subseteq> {..<sr_window_end r}"
    unfolding cov1 g using inv by (auto simp: sr_inv_def)
  moreover have "covered gs' \<subseteq> covered gs1" unfolding R'(1) by blast
  moreover have "sr_window_end r \<le> bs_bytes_written out' + sr_capacity r" using R'(3) by simp
  ultimately show "covered gs' \<subseteq> {..<bs_bytes_written out' + sr_capacity r}"
    by (meson lessThan_subset_iff subset_trans)
  have "bs_bytes_read out' \<le> bs_bytes_written out'" using inv R'(3,5) by (simp add: sr_inv_def)
  then show "bs_bytes_read out' + length (bs_contents out') = bs_bytes_written out'"
    using ByteStream_invD(2,5) [OF R'(4)] by (simp add: buffer_size_def size_arith)
  show "remaining_capacity out' = 0 \<or> bs_bytes_written out' \<notin> {..<bs_bytes_written out'} \<union> covered gs'"
    using R'(6) by simp
qed

lemma agrees_after_push:
  assumes inv: "sr_inv B r" and g: "Segment_wf B g"
    and m: "\<forall>h \<in> set gs1. h \<in> set (sr_segments r) \<or> trimmed_of h g" and ok: "segs_ok lo gs1"
    and wf: "list_all (Segment_wf B) gs1" and R: "reassembled B (sr_output r) gs1 out' gs'"
    and S: "sr_agrees S r" "seg_matches S g"
  shows "bs_bytes_written out' \<le> length S"
    "bs_contents out' = extent S (bs_bytes_read out') (bs_bytes_written out')"
    "\<forall>h \<in> set gs'. seg_matches S h"
proof -
  have B: "B < SIZE_MOD" using inv by (simp add: sr_inv_def)
  note R' = reassembledD(11,6,3,8,13) [OF R]
  have m1: "\<forall>h \<in> set gs1. seg_matches S h"
  proof
    fix h assume h: "h \<in> set gs1"
    with ok have "seg_start h \<le> seg_end h" using segs_ok_member less_imp_le by blast
    with m h S show "seg_matches S h"
      using seg_matches_trimmed [OF g B S(2)] by (auto simp: sr_agrees_def)
  qed
  then have "covered gs1 \<subseteq> {..<length S}" by (fastforce simp: covered_def seg_matches_def)
  with R'(1) have "{bs_bytes_written (sr_output r)..<bs_bytes_written out'} \<subseteq> {..<length S}" by blast
  then show "bs_bytes_written out' \<le> length S"
    using S(1) by (cases "bs_bytes_written out' = bs_bytes_written (sr_output r)")
      (auto simp: sr_agrees_def subset_eq Ball_def dest: spec [of _ "bs_bytes_written out' - 1"])
  have "bs_contents out' = bs_contents (sr_output r) @
      extent S (bs_bytes_written (sr_output r)) (bs_bytes_written out')"
    using reassembledD(14) [OF R m1] .
  then show "bs_contents out' = extent S (bs_bytes_read out') (bs_bytes_written out')"
    using S(1) inv R'(2,3) by (simp add: sr_agrees_def sr_inv_def extent_append)
  show "\<forall>h \<in> set gs'. seg_matches S h"
  proof
    fix h assume h: "h \<in> set gs'"
    then obtain g' where g': "g' \<in> set gs1" "trimmed_of h g'" using R'(5) by blast
    have "seg_start h \<le> seg_end h" using segs_ok_member [OF R'(4) h] by simp
    with g' m1 wf show "seg_matches S h"
      using seg_matches_trimmed [OF _ B _ g'(2)] by (simp add: list_all_iff)
  qed
qed

lemma pushed_state:
  assumes inv: "sr_inv B r"
    and range: "bs_bytes_written (sr_output r) \<le> index + length data" "index \<le> sr_window_end r"
      "index + length data \<le> B" "B + sr_capacity r < SIZE_MOD"
    and p: "segs_ok (bs_bytes_written (sr_output r)) gs1" "list_all (Segment_wf B) gs1"
      "covered gs1 = covered (sr_segments r) \<union>
         {seg_start (clipped r data index)..<seg_end (clipped r data index)}"
      "\<forall>h \<in> set gs1. h \<in> set (sr_segments r) \<or> trimmed_of h (clipped r data index)"
    and q: "reassembled B (sr_output r) gs1 out' gs'"
    and r': "sr_capacity r' = sr_capacity r" "sr_segments r' = gs'" "sr_unassembled_bytes r' = segs_total gs'"
      "sr_got_eof r' = (sr_got_eof r \<or> fin)"
      "sr_end_index r' = (if fin \<and> \<not> sr_got_eof r then index + length data else sr_end_index r)"
    and out: "ByteStream_inv (sr_output r')" "bs_buffer (sr_output r') = bs_buffer out'"
      "bs_bytes_written (sr_output r') = bs_bytes_written out'" "bs_bytes_read (sr_output r') = bs_bytes_read out'"
      "bs_capacity (sr_output r') = bs_capacity out'" "bs_error (sr_output r') = bs_error out'"
      "remaining_capacity (sr_output r') = remaining_capacity out'"
      "bs_input_ended (sr_output r') = (sr_got_eof r' \<and> sr_end_index r' = bs_bytes_written out')"
  shows "pushed B r data index fin r'"
proof -
  note c = clipped_props [OF range]
  note core = pushed_core [OF inv c(3) p(3) q] and agr = agrees_after_push [OF inv c(1) p(4,1,2) q]
  note R = reassembledD [OF q]
  have held: "held r' = {..<bs_bytes_written out'} \<union> covered gs'" by (simp add: held_def r' out)
  have cap: "bs_capacity (sr_output r) = sr_capacity r" using inv by (simp add: sr_inv_def)
  have "sr_inv B r'"
    unfolding sr_inv_def out r'(1-3) using out(1) R(2,7-9) cap core(2,3) range(4) out(8) by (simp add: out)
  moreover have "sr_agrees S r'"
    if "sr_agrees S r" "index + length data \<le> length S" "data = extent S index (index + length data)" for S
    unfolding sr_agrees_def out r'(2) using agr [OF that(1) c(4) [OF that(2,3)]] by blast
  ultimately show ?thesis
    unfolding pushed_def held out r'(1) using R(3,5,6) core(1,4) r'(4,5) out(8) by blast
qed

lemma push_in_window:
  assumes inv: "sr_inv B r" and open_: "\<not> bs_input_ended (sr_output r)"
    and range: "bs_bytes_written (sr_output r) \<le> index + length data" "index \<le> sr_window_end r"
      "index + length data \<le> B"
  shows "\<exists>r'. push_substring nd r data index fin = Inr r' \<and> pushed B r data index fin r'"
proof -
  let ?g = "clipped r data index"
  define r1 where "r1 = (if fin \<and> \<not> sr_got_eof r
    then r\<lparr>sr_got_eof := True, sr_end_index := index + length data\<rparr> else r)"
  then have r1: "sr_output r1 = sr_output r" "sr_segments r1 = sr_segments r" "sr_capacity r1 = sr_capacity r"
      "sr_unassembled_bytes r1 = sr_unassembled_bytes r" "sr_got_eof r1 = (sr_got_eof r \<or> fin)"
      "sr_end_index r1 = (if fin \<and> \<not> sr_got_eof r then index + length data else sr_end_index r)"
    by auto
  have B: "B + sr_capacity r < SIZE_MOD" "B < SIZE_MOD" and lo: "bs_bytes_written (sr_output r) \<le> B"
    using inv by (simp_all add: sr_inv_def)
  note c = clipped_props [OF range B(1)]
  obtain gs1 where p: "push_interval nd r1 ?g = Inr (r1\<lparr>sr_segments := gs1, sr_unassembled_bytes := segs_total gs1\<rparr>)"
      "segs_ok (bs_bytes_written (sr_output r)) gs1" "list_all (Segment_wf B) gs1"
      "covered gs1 = covered (sr_segments r) \<union> {seg_start ?g..<seg_end ?g}"
      "\<forall>h \<in> set gs1. h \<in> set (sr_segments r) \<or> trimmed_of h ?g"
    using push_interval_spec [of "bs_bytes_written (sr_output r)" r1 B ?g nd] inv B lo c(1,2)
    by (auto simp: sr_inv_def r1)
  have "ByteStream_inv (sr_output r)" using inv by (simp add: sr_inv_def)
  from reassemble_spec [OF this p(2,3) B(2) lo]
  obtain out' gs' where q: "reassemble nd (sr_output r) (segs_total gs1) gs1 = Inr (out', segs_total gs', gs')"
      "reassembled B (sr_output r) gs1 out' gs'" by blast
  let ?r3 = "r1\<lparr>sr_output := out', sr_unassembled_bytes := segs_total gs', sr_segments := gs'\<rparr>"
  let ?r' = "if sr_got_eof ?r3 \<and> sr_end_index ?r3 = bs_bytes_written out'
             then ?r3\<lparr>sr_output := end_input out'\<rparr> else ?r3"
  have "push_substring nd r data index fin = Inr ?r'"
    unfolding push_substring_clipped [OF inv open_ range] Let_def r1_def [symmetric] p(1)
    using q(1) by (simp add: bytes_written_def r1)
  moreover have "pushed B r data index fin ?r'"
  proof (rule pushed_state [OF inv range B(1) p(2-5) q(2)])
    show "bs_input_ended (sr_output ?r') = (sr_got_eof ?r' \<and> sr_end_index ?r' = bs_bytes_written out')"
      using open_ reassembledD(4) [OF q(2)] by simp
    show "remaining_capacity (sr_output ?r') = remaining_capacity out'"
      by (simp add: remaining_capacity_def buffer_size_def)
  qed (use r1 reassembledD(1) [OF q(2)] in simp_all)
  ultimately show ?thesis by blast
qed

text \<open>The other branches: an ended stream, data that is all old, data beyond the window.\<close>

lemma push_ended: "bs_input_ended (sr_output r) \<Longrightarrow> push_substring nd r data index fin = Inr r"
  by (simp add: push_substring_def input_ended_def)

lemma push_old:
  assumes "sr_inv B r" "index + length data \<le> B" "index + length data < bs_bytes_written (sr_output r)"
  shows "push_substring nd r data index fin = Inr r"
  using assms by (simp add: push_substring_def bytes_written_def sr_inv_def size_arith)

lemma push_beyond:
  assumes "sr_inv B r" "index + length data \<le> B" "\<not> bs_input_ended (sr_output r)" "sr_window_end r < index"
  shows "push_substring nd r data index fin = Inl OutOfBounds"
proof -
  have small: "index + length data < SIZE_MOD" "sr_window_end r < SIZE_MOD" "index < SIZE_MOD"
    using assms by (simp_all add: sr_inv_def)
  then have "sub64 (sr_window_end r) index = sr_window_end r + SIZE_MOD - index"
    using assms(4) by (simp add: sub64_wrap)
  with small have "length data < sub64 (sr_window_end r) index" by linarith
  then have "Segment_of_view index data (sub64 (sr_window_end r) index) = Inl OutOfBounds"
    by (simp add: Segment_of_view_def)
  then show ?thesis
    using small assms(3,4) by (simp add: push_substring_def bytes_written_def input_ended_def add64_exact)
qed

lemma push_substring_cases:
  assumes inv: "sr_inv B r" and B: "index + length data \<le> B"
  obtains (ended) "bs_input_ended (sr_output r)" "push_substring nd r data index fin = Inr r"
    | (old) "\<not> bs_input_ended (sr_output r)" "index + length data < bs_bytes_written (sr_output r)"
        "push_substring nd r data index fin = Inr r"
    | (beyond) "\<not> bs_input_ended (sr_output r)" "sr_window_end r < index"
        "push_substring nd r data index fin = Inl OutOfBounds"
    | (pushed) r' where "\<not> bs_input_ended (sr_output r)" "index \<le> sr_window_end r"
        "bs_bytes_written (sr_output r) \<le> index + length data"
        "push_substring nd r data index fin = Inr r'" "pushed B r data index fin r'"
proof -
  consider "bs_input_ended (sr_output r)"
    | "\<not> bs_input_ended (sr_output r)" "index + length data < bs_bytes_written (sr_output r)"
    | "\<not> bs_input_ended (sr_output r)" "sr_window_end r < index"
    | "\<not> bs_input_ended (sr_output r)" "bs_bytes_written (sr_output r) \<le> index + length data"
        "index \<le> sr_window_end r" by linarith
  then show thesis
  proof cases
    case 4
    with push_in_window [OF inv 4 B, of nd fin] pushed show thesis by blast
  qed (use that(1-3) push_ended push_old [OF inv B] push_beyond [OF inv B] in blast)+
qed

text \<open>The application reads from the output.\<close>

definition sr_consume :: "StreamReassembler \<Rightarrow> size_t \<Rightarrow> (bytes \<times> StreamReassembler) result" where
  "sr_consume r n = result_bind (bs_read True (sr_output r) n) (\<lambda>(x, out). Inr (x, r\<lparr>sr_output := out\<rparr>))"

lemma sr_consume_spec:
  assumes inv: "sr_inv B r"
  shows "\<exists>r'. sr_consume r n = Inr (take n (bs_contents (sr_output r)), r') \<and> sr_inv B r' \<and> held r' = held r \<and>
     sr_capacity r' = sr_capacity r \<and> sr_got_eof r' = sr_got_eof r \<and> sr_end_index r' = sr_end_index r \<and>
     bs_input_ended (sr_output r') = bs_input_ended (sr_output r) \<and>
     bs_bytes_written (sr_output r') = bs_bytes_written (sr_output r) \<and>
     bs_bytes_read (sr_output r') = bs_bytes_read (sr_output r) + min n (length (bs_contents (sr_output r))) \<and>
     (\<forall>S. sr_agrees S r \<longrightarrow> sr_agrees S r')"
proof -
  let ?o = "sr_output r"
  have i: "ByteStream_inv ?o" "bs_bytes_read ?o + length (bs_contents ?o) = bs_bytes_written ?o"
    using inv by (simp_all add: sr_inv_def)
  from bs_read_spec [OF i(1), of n] pop_output_spec [OF i(1), of n] obtain out where
    out: "bs_read True ?o n = Inr (take n (bs_contents ?o), out)" "ByteStream_inv out"
      "bs_contents out = drop n (bs_contents ?o)"
      "bs_bytes_read out = add64 (bs_bytes_read ?o) (min n (length (bs_contents ?o)))"
      "bs_bytes_written out = bs_bytes_written ?o" "bs_capacity out = bs_capacity ?o"
      "bs_input_ended out = bs_input_ended ?o" by auto
  have rd: "bs_bytes_read out = bs_bytes_read ?o + min n (length (bs_contents ?o))"
    using out(4) i(2) ByteStream_invD(5) [OF i(1)] by (simp add: add64_exact)
  have "sr_agrees S (r\<lparr>sr_output := out\<rparr>)" if "sr_agrees S r" for S
    using that out(3,5) rd i(2) by (auto simp: sr_agrees_def min_def extent_def add.commute)
  moreover have "bs_bytes_read out + length (bs_contents out) = bs_bytes_written ?o"
    using rd out(3) i(2) by (auto simp: min_def)
  ultimately show ?thesis
    using out(1,2,5-7) rd inv
    by (intro exI [of _ "r\<lparr>sr_output := out\<rparr>"]) (simp add: sr_consume_def sr_inv_def held_def)
qed

section \<open>Runs\<close>

datatype sr_op = Push bytes size_t bool | Consume size_t

text \<open>A run of the reassembler, with the bytes its reader has taken so far.\<close>

fun sr_run :: "sr_op list \<Rightarrow> bytes \<Rightarrow> StreamReassembler \<Rightarrow> (bytes \<times> StreamReassembler) result" where
  "sr_run [] del r = Inr (del, r)"
| "sr_run (Push data index fin # ops) del r =
     result_bind (push_substring True r data index fin) (\<lambda>r'. sr_run ops del r')"
| "sr_run (Consume n # ops) del r =
     result_bind (sr_consume r n) (\<lambda>(x, r'). sr_run ops (del @ x) r')"

text \<open>
  A push that carries bytes of the stream \<open>S\<close> at their place, with the flag only at its end, or
  one that carries nothing (a pure acknowledgment; behind a FIN its index is one past the stream).
\<close>

fun op_of_stream :: "bytes \<Rightarrow> sr_op \<Rightarrow> bool" where
  "op_of_stream S (Push data index fin) \<longleftrightarrow>
     index + length data \<le> length S \<and> data = extent S index (index + length data) \<and>
       (fin \<longrightarrow> index + length data = length S) \<or>
     data = [] \<and> \<not> fin \<and> index \<le> length S + 1"
| "op_of_stream S (Consume n) \<longleftrightarrow> True"

fun op_positions :: "sr_op \<Rightarrow> nat set" where
  "op_positions (Push data index fin) = {index..<index + length data}"
| "op_positions (Consume n) = {}"

fun op_fin :: "sr_op \<Rightarrow> bool" where
  "op_fin (Push data index fin) = fin"
| "op_fin (Consume n) = False"

definition run_inv :: "bytes \<Rightarrow> StreamReassembler \<Rightarrow> bool" where
  "run_inv S r \<longleftrightarrow> sr_inv (length S + 1) r \<and> sr_agrees S r \<and>
     (sr_got_eof r \<longrightarrow> sr_end_index r = length S) \<and>
     bs_input_ended (sr_output r) = (sr_got_eof r \<and> bs_bytes_written (sr_output r) = length S)"

lemma run_inv_new [simp]:
  assumes "length S + capacity + 1 < SIZE_MOD"
  shows "run_inv S (StreamReassembler_new capacity)"
  using assms sr_inv_new [of "length S + 1" capacity]
  by (simp add: run_inv_def sr_agrees_def StreamReassembler_new_def ByteStream_new_def)

lemma sr_agrees_held: "sr_agrees S r \<Longrightarrow> held r \<subseteq> {..<length S}"
  by (fastforce simp: sr_agrees_def held_def covered_def seg_matches_def)

lemma extent_append_left: "b \<le> length S \<Longrightarrow> extent (S @ T) a b = extent S a b"
  by (simp add: extent_def)

text \<open>Agreement only depends on the positions held.\<close>

lemma sr_agrees_mono: "sr_agrees S r \<Longrightarrow> sr_agrees (S @ T) r"
  by (auto simp: sr_agrees_def seg_matches_def extent_append_left)

lemma sr_agrees_shrink:
  assumes "sr_agrees (S @ T) r" "sr_inv B r" "held r \<subseteq> {..<length S}"
  shows "sr_agrees S r"
proof -
  have "{..<bs_bytes_written (sr_output r)} \<subseteq> {..<length S}" using assms(3) by (simp add: held_def)
  then have bw: "bs_bytes_written (sr_output r) \<le> length S" by simp
  moreover have "seg_matches S g" if g: "g \<in> set (sr_segments r)" for g
  proof -
    have "segs_ok (bs_bytes_written (sr_output r)) (sr_segments r)" using assms(2) by (simp add: sr_inv_def)
    from segs_ok_member [OF this g] have "seg_end g - 1 \<in> covered (sr_segments r)"
      using g by (auto simp: covered_def intro!: bexI [of _ g])
    moreover have "seg_start g < seg_end g" using segs_ok_member [OF _ g] assms(2) by (auto simp: sr_inv_def)
    ultimately have "seg_end g \<le> length S" using assms(3) by (auto simp: held_def)
    with assms(1) g show ?thesis by (auto simp: sr_agrees_def seg_matches_def extent_append_left)
  qed
  ultimately show ?thesis using assms(1) by (simp add: sr_agrees_def extent_append_left)
qed

lemma pushed_empty_agrees:
  assumes "pushed B r [] index fin r'" "sr_agrees S r"
  shows "sr_agrees S r'"
proof -
  let ?T = "replicate index (0 :: byte)"
  have "sr_agrees (S @ ?T) r'"
    by (rule pushedD(10) [OF assms(1) sr_agrees_mono [OF assms(2)]]) simp_all
  moreover have "held r' \<subseteq> {..<length S}"
    using pushedD(5) [OF assms(1)] sr_agrees_held [OF assms(2)] by simp
  ultimately show ?thesis using pushedD(1) [OF assms(1)] sr_agrees_shrink by blast
qed

text \<open>Positions of the window enter \<open>held\<close>; an ended stream already holds all of \<open>S\<close>.\<close>

lemma run_push_step:
  assumes inv: "run_inv S r" and op: "op_of_stream S (Push data index fin)"
    and ret: "push_substring nd r data index fin = Inr r'"
  shows "run_inv S r'" "sr_capacity r' = sr_capacity r"
    "bs_bytes_read (sr_output r') = bs_bytes_read (sr_output r)"
    "held r \<union> ({index..<index + length data} \<inter> {..<sr_window_end r}) \<subseteq> held r'"
    "sr_got_eof r \<or> fin \<Longrightarrow> sr_got_eof r'"
    "remaining_capacity (sr_output r') = 0 \<or> bs_bytes_written (sr_output r') \<notin> held r' \<or> r' = r"
proof -
  have i: "sr_inv (length S + 1) r" "index + length data \<le> length S + 1" "fin \<Longrightarrow> index + length data = length S"
    "bs_bytes_written (sr_output r) \<le> length S"
    using inv op by (auto simp: run_inv_def sr_agrees_def)
  have pos: "{index..<index + length data} \<subseteq> {..<length S}" using op by auto
  have "run_inv S r' \<and> sr_capacity r' = sr_capacity r \<and>
    bs_bytes_read (sr_output r') = bs_bytes_read (sr_output r) \<and>
    held r \<union> ({index..<index + length data} \<inter> {..<sr_window_end r}) \<subseteq> held r' \<and>
    (sr_got_eof r \<or> fin \<longrightarrow> sr_got_eof r') \<and>
    (remaining_capacity (sr_output r') = 0 \<or> bs_bytes_written (sr_output r') \<notin> held r' \<or> r' = r)"
    using i(1,2)
  proof (cases rule: push_substring_cases [where nd = nd and fin = fin])
    case ended
    with ret inv i pos show ?thesis by (auto simp: run_inv_def held_def)
  next
    case old
    with ret inv i show ?thesis by (auto simp: held_def)
  next
    case beyond
    with ret show ?thesis by simp
  next
    case (pushed q)
    with ret have p: "pushed (length S + 1) r data index fin r'" by simp
    have "sr_agrees S r" using inv by (simp add: run_inv_def)
    then have "sr_agrees S r'"
      using op pushedD(10) [OF p] pushed_empty_agrees [of _ r index fin r' S] p by auto
    moreover have eof: "sr_end_index r' = length S" if "sr_got_eof r'"
      using that pushedD(7,8) [OF p] inv i(3) by (auto simp: run_inv_def)
    ultimately have "run_inv S r'"
      using pushedD(1,9) [OF p] unfolding run_inv_def by metis
    with pushedD(2,3,5,6,7) [OF p] show ?thesis by blast
  qed
  then show "run_inv S r'" "sr_capacity r' = sr_capacity r"
    "bs_bytes_read (sr_output r') = bs_bytes_read (sr_output r)"
    "held r \<union> ({index..<index + length data} \<inter> {..<sr_window_end r}) \<subseteq> held r'"
    "sr_got_eof r \<or> fin \<Longrightarrow> sr_got_eof r'"
    "remaining_capacity (sr_output r') = 0 \<or> bs_bytes_written (sr_output r') \<notin> held r' \<or> r' = r"
    by blast+
qed

lemma run_consume_step:
  assumes inv: "run_inv S r" and ret: "sr_consume r n = Inr (x, r')"
  shows "run_inv S r'" "sr_capacity r' = sr_capacity r" "held r' = held r" "sr_got_eof r' = sr_got_eof r"
    "bs_bytes_written (sr_output r') = bs_bytes_written (sr_output r)"
    "take (bs_bytes_read (sr_output r)) S @ x = take (bs_bytes_read (sr_output r')) S"
proof -
  let ?c = "bs_contents (sr_output r)" and ?br = "bs_bytes_read (sr_output r)"
  have i: "sr_inv (length S + 1) r" "sr_agrees S r" using inv by (simp_all add: run_inv_def)
  from sr_consume_spec [OF i(1), of n] ret have x: "x = take n ?c" and r': "sr_inv (length S + 1) r'" "held r' = held r"
     "sr_capacity r' = sr_capacity r" "sr_got_eof r' = sr_got_eof r" "sr_end_index r' = sr_end_index r"
     "bs_input_ended (sr_output r') = bs_input_ended (sr_output r)"
     "bs_bytes_written (sr_output r') = bs_bytes_written (sr_output r)"
     "bs_bytes_read (sr_output r') = ?br + min n (length ?c)" "\<forall>S. sr_agrees S r \<longrightarrow> sr_agrees S r'"
    by auto
  show "run_inv S r'" using r' inv i by (simp add: run_inv_def)
  show "sr_capacity r' = sr_capacity r" "held r' = held r" "sr_got_eof r' = sr_got_eof r"
    "bs_bytes_written (sr_output r') = bs_bytes_written (sr_output r)" by (rule r')+
  have sum: "?br + length ?c = bs_bytes_written (sr_output r)" using i(1) by (simp add: sr_inv_def)
  have "take n ?c = take (min n (length ?c)) ?c" by (simp add: min_def)
  also have "\<dots> = extent S ?br (?br + min n (length ?c))"
    using i(2) sum take_extent [of ?br "min n (length ?c)" "bs_bytes_written (sr_output r)" S]
    by (simp add: sr_agrees_def)
  finally show "take ?br S @ x = take (bs_bytes_read (sr_output r')) S"
    unfolding x r'(8) using extent_append [of 0 ?br "?br + min n (length ?c)" S] by simp
qed

lemma sr_run_inv:
  assumes "run_inv S r" "list_all (op_of_stream S) ops" "del = take (bs_bytes_read (sr_output r)) S"
    "sr_run ops del r = Inr (del', r')"
  shows "run_inv S r' \<and> sr_capacity r' = sr_capacity r \<and> del' = take (bs_bytes_read (sr_output r')) S"
  using assms
proof (induction ops del r rule: sr_run.induct)
  case (2 data index fin ops del r)
  from 2(5) obtain r1 where r1: "push_substring True r data index fin = Inr r1" "sr_run ops del r1 = Inr (del', r')"
    by (auto simp: result_bind_Inr_iff)
  from 2(3) have ok: "op_of_stream S (Push data index fin)" "list_all (op_of_stream S) ops" by simp_all
  note st = run_push_step [OF 2(2) ok(1) r1(1)]
  from 2(1) [OF r1(1) st(1) ok(2) _ r1(2)] 2(4) st(2,3) show ?case by simp
next
  case (3 n ops del r)
  from 3(5) obtain x r1 where r1: "sr_consume r n = Inr (x, r1)" "sr_run ops (del @ x) r1 = Inr (del', r')"
    by (auto simp: result_bind_Inr_iff)
  note st = run_consume_step [OF 3(2) r1(1)]
  from 3(1) [OF r1(1) refl st(1) _ _ r1(2)] 3(3,4) st(2,6) show ?case by simp
qed simp

text \<open>
  With a window as large as the stream no push is out of range, and the output never waits for
  its reader: the reassembler holds back nothing it could write.
\<close>

definition caught_up :: "bytes \<Rightarrow> StreamReassembler \<Rightarrow> bool" where
  "caught_up S r \<longleftrightarrow> run_inv S r \<and> length S < sr_capacity r \<and>
     (bs_bytes_written (sr_output r) = length S \<or> bs_bytes_written (sr_output r) \<notin> held r)"

lemma caught_up_push:
  assumes inv: "caught_up S r" and op: "op_of_stream S (Push data index fin)"
  shows "\<exists>r'. push_substring True r data index fin = Inr r' \<and> caught_up S r' \<and>
     held r \<union> {index..<index + length data} \<subseteq> held r' \<and> (sr_got_eof r \<or> fin \<longrightarrow> sr_got_eof r')"
proof -
  have i: "run_inv S r" "sr_inv (length S + 1) r" "length S < sr_capacity r" "index + length data \<le> length S + 1"
    using inv op by (auto simp: caught_up_def run_inv_def)
  obtain r' where r': "push_substring True r data index fin = Inr r'"
    using i(2,4)
  proof (cases rule: push_substring_cases [where nd = True and fin = fin])
    case beyond
    with i(3,4) show thesis by simp
  qed (use that in blast)+
  note st = run_push_step [OF i(1) op r']
  have len: "length S < sr_capacity r'" using i(3) st(2) by simp
  have "bs_bytes_written (sr_output r') = length S" if full: "remaining_capacity (sr_output r') = 0"
  proof -
    have r: "ByteStream_inv (sr_output r')" "bs_capacity (sr_output r') = sr_capacity r'"
        "bs_bytes_read (sr_output r') + length (bs_contents (sr_output r')) = bs_bytes_written (sr_output r')"
        "bs_bytes_written (sr_output r') \<le> length S"
      using st(1) by (simp_all add: run_inv_def sr_inv_def sr_agrees_def)
    with full ByteStream_invD(7) [OF r(1)] len show ?thesis by simp
  qed
  then have "caught_up S r'" using st(1,6) len inv by (auto simp: caught_up_def)
  moreover have "{index..<index + length data} \<subseteq> {..<sr_window_end r}" using i(3,4) by auto
  ultimately show ?thesis using r' st(4,5) by blast
qed

lemma caught_up_run:
  assumes "caught_up S r" "list_all (op_of_stream S) ops"
  shows "\<exists>del' r'. sr_run ops del r = Inr (del', r') \<and> caught_up S r' \<and>
     held r \<union> \<Union> (op_positions ` set ops) \<subseteq> held r' \<and> (sr_got_eof r \<or> list_ex op_fin ops \<longrightarrow> sr_got_eof r')"
  using assms
proof (induction ops del r rule: sr_run.induct)
  case (2 data index fin ops del r)
  from 2(3) have ok: "op_of_stream S (Push data index fin)" "list_all (op_of_stream S) ops" by simp_all
  from caught_up_push [OF 2(2) ok(1)] obtain r1 where r1: "push_substring True r data index fin = Inr r1"
    "caught_up S r1" "held r \<union> {index..<index + length data} \<subseteq> held r1" "sr_got_eof r \<or> fin \<longrightarrow> sr_got_eof r1" by blast
  from 2(1) [OF r1(1,2) ok(2)] obtain del' r' where IH: "sr_run ops del r1 = Inr (del', r')" "caught_up S r'"
    "held r1 \<union> \<Union> (op_positions ` set ops) \<subseteq> held r'" "sr_got_eof r1 \<or> list_ex op_fin ops \<longrightarrow> sr_got_eof r'" by blast
  have "sr_run (Push data index fin # ops) del r = Inr (del', r')" using r1(1) IH(1) by simp
  moreover have "held r \<union> \<Union> (op_positions ` set (Push data index fin # ops)) \<subseteq> held r'"
    using r1(3) IH(3) by auto
  ultimately show ?case using IH(2,4) r1(4) by auto
next
  case (3 n ops del r)
  then have i: "run_inv S r" "sr_inv (length S + 1) r" by (simp_all add: caught_up_def run_inv_def)
  from sr_consume_spec [OF i(2), of n] obtain x r1 where c: "sr_consume r n = Inr (x, r1)" by blast
  note st = run_consume_step [OF i(1) c]
  have "caught_up S r1" using 3(2) st by (simp add: caught_up_def)
  from 3(1) [OF c refl this] 3(3) obtain del' r' where IH: "sr_run ops (del @ x) r1 = Inr (del', r')" "caught_up S r'"
    "held r1 \<union> \<Union> (op_positions ` set ops) \<subseteq> held r'" "sr_got_eof r1 \<or> list_ex op_fin ops \<longrightarrow> sr_got_eof r'" by auto
  have "sr_run (Consume n # ops) del r = Inr (del', r')" using c IH(1) by simp
  with IH(2-4) st(3,4) show ?case by auto
qed simp

lemma sr_inv_bounds:
  assumes "sr_inv B r"
  shows "buffer_size (sr_output r) \<le> sr_capacity r" "unassembled_bytes r \<le> sr_capacity r"
    "unassembled_bytes r = card (covered (sr_segments r))"
proof -
  let ?bw = "bs_bytes_written (sr_output r)"
  have i: "ByteStream_inv (sr_output r)" "bs_capacity (sr_output r) = sr_capacity r" "segs_ok ?bw (sr_segments r)"
      "covered (sr_segments r) \<subseteq> {..<?bw + sr_capacity r}" "sr_unassembled_bytes r = segs_total (sr_segments r)"
    using assms by (simp_all add: sr_inv_def)
  show "buffer_size (sr_output r) \<le> sr_capacity r" using ByteStream_invD(2,3) [OF i(1)] i(2) by simp
  show un: "unassembled_bytes r = card (covered (sr_segments r))"
    using card_covered [OF i(3)] i(5) by (simp add: unassembled_bytes_def)
  have "covered (sr_segments r) \<subseteq> {?bw..<?bw + sr_capacity r}"
    using i(4) covered_range [OF i(3)] by (fastforce simp: subset_eq)
  from card_mono [OF _ this] show "unassembled_bytes r \<le> sr_capacity r" by (simp add: un)
qed

lemma run_inv_prefix:
  assumes "run_inv S r"
  shows "take (bs_bytes_read (sr_output r)) S @ bs_contents (sr_output r) = take (bs_bytes_written (sr_output r)) S"
proof -
  have i: "sr_inv (length S + 1) r" "sr_agrees S r" using assms by (simp_all add: run_inv_def)
  then have "bs_bytes_read (sr_output r) \<le> bs_bytes_written (sr_output r)" by (simp add: sr_inv_def)
  with i(2) extent_append [of 0 "bs_bytes_read (sr_output r)" "bs_bytes_written (sr_output r)" S] show ?thesis
    by (simp add: sr_agrees_def)
qed

lemma caught_up_all:
  assumes "caught_up S r" "{..<length S} \<subseteq> held r"
  shows "bs_bytes_written (sr_output r) = length S"
proof (rule ccontr)
  assume ne: "bs_bytes_written (sr_output r) \<noteq> length S"
  with assms(1) have "bs_bytes_written (sr_output r) \<in> {..<length S}"
    by (simp add: caught_up_def run_inv_def sr_agrees_def)
  with assms ne show False by (auto simp: caught_up_def)
qed

lemma sr_inv_mono:
  assumes "sr_inv B r" "B \<le> B'" "B' + sr_capacity r < SIZE_MOD"
  shows "sr_inv B' r"
proof -
  have "list_all (Segment_wf B') (sr_segments r)"
    using assms(1,2) by (auto simp: sr_inv_def list_all_iff Segment_wf_def)
  with assms show ?thesis by (simp add: sr_inv_def)
qed

section \<open>Step relation\<close>

text \<open>The steps of a driver (the TCP receiver, the application), for stream positions up to \<open>B\<close>.\<close>

inductive sr_step :: "nat \<Rightarrow> StreamReassembler \<Rightarrow> StreamReassembler \<Rightarrow> bool" for B where
  sr_step_push: "push_substring nd r data index fin = Inr r' \<Longrightarrow> index + length data \<le> B \<Longrightarrow> sr_step B r r'"
| sr_step_consume: "sr_consume r n = Inr (x, r') \<Longrightarrow> sr_step B r r'"

definition sr_initial :: "nat \<Rightarrow> size_t \<Rightarrow> StreamReassembler \<Rightarrow> bool" where
  "sr_initial B capacity r \<longleftrightarrow> B + capacity < SIZE_MOD \<and> r = StreamReassembler_new capacity"

interpretation reassembler: driven_component "sr_initial B capacity" "sr_step B"
  "\<lambda>r. sr_inv B r \<and> sr_capacity r = capacity" for B capacity
proof unfold_locales
  show "sr_inv B r \<and> sr_capacity r = capacity" if "sr_initial B capacity r" for r
    using that by (simp add: sr_initial_def) (simp add: StreamReassembler_new_def)
  show "sr_inv B r' \<and> sr_capacity r' = capacity"
    if "sr_step B r r'" "sr_inv B r \<and> sr_capacity r = capacity" for r r'
    using that(1)
  proof cases
    case (sr_step_push nd data index fin)
    from that(2) have "sr_inv B r" ..
    from this sr_step_push(2) that(2) sr_step_push(1) show ?thesis
      by (cases rule: push_substring_cases [where nd = nd and fin = fin]) (auto dest: pushedD(1,2))
  next
    case (sr_step_consume n x)
    with sr_consume_spec [of B r n] that(2) show ?thesis by auto
  qed
qed

section \<open>Debug and Release builds agree\<close>

lemma Segment_remove_release [release]:
  "returns_as (Segment_remove_prefix False n g) (Segment_remove_prefix True n g)"
  "returns_as (Segment_remove_suffix False n g) (Segment_remove_suffix True n g)"
  unfolding Segment_remove_prefix_def Segment_remove_suffix_def by (intro release)+

lemma trim_release [release]:
  "returns_as (trim_front False gs g) (trim_front True gs g)"
  "returns_as (trim_back False gs g) (trim_back True gs g)"
  unfolding trim_front_def trim_back_def by (intro release)+

lemma push_interval_release [release]: "returns_as (push_interval False r g) (push_interval True r g)"
  unfolding push_interval_def by (intro release)

lemma reassemble_release [release]: "returns_as (reassemble False out un gs) (reassemble True out un gs)"
proof (induction gs arbitrary: out un)
  case (Cons g gs)
  then show ?case unfolding reassemble.simps by (intro release)
qed simp

lemma push_substring_release [release]:
  "returns_as (push_substring False r data index fin) (push_substring True r data index fin)"
  unfolding push_substring_def by (intro release)

section \<open>Properties\<close>

text \<open>The definitions that evaluating a concrete run unfolds.\<close>

lemmas sr_eval =
  push_substring_def StreamReassembler_new_def ByteStream_new_def input_ended_def bytes_written_def
  Segment_of_view_def Segment_new_def Segment_remove_prefix_def Segment_remove_suffix_def
  push_interval_def trim_front_def trim_back_def segments_lower_bound_def segments_erase_def
  add64_def sub64_def SIZE_MOD_def Segment_size_def Segment_str_def bs_write_def remaining_capacity_def
  buffer_size_def Buffer_of_string_def Buffer_str_def unassembled_bytes_def sr_consume_def bs_read_def
  peek_output_def pop_output_def end_input_def BufferList_append_def BufferList_of_Buffer_def
  Buffer_size_def Buffer_str_len_def Buffer_remove_prefix_def



text \<open>
  C17. When the capacity is larger than the length of the stream, pushing substrings that together cover
  the stream, one of them marked as the last, always succeeds and completes it: every byte of \<open>S\<close> is
  delivered or waits in the output in order, the input is ended, and nothing stays unassembled.
\<close>

theorem reassembler_complete:
  assumes "length S < capacity" and "length S + capacity + 1 < SIZE_MOD" and "list_all (op_of_stream S) ops"
    and "{..<length S} \<subseteq> \<Union> (op_positions ` set ops)" and "list_ex op_fin ops"
  shows "\<exists>del r. sr_run ops [] (StreamReassembler_new capacity) = Inr (del, r) \<and>
    del @ bs_contents (sr_output r) = S \<and> input_ended (sr_output r) \<and> sr_empty r"
proof -
  let ?r0 = "StreamReassembler_new capacity"
  have "caught_up S ?r0"
    using assms(1) run_inv_new [OF assms(2)]
    by (auto simp: caught_up_def held_def) (simp_all add: StreamReassembler_new_def ByteStream_new_def)
  from caught_up_run [OF this assms(3), of "[]"] obtain del r where
    run: "sr_run ops [] ?r0 = Inr (del, r)" and r: "caught_up S r" "\<Union> (op_positions ` set ops) \<subseteq> held r" "sr_got_eof r"
    using assms(5) by auto
  have i: "run_inv S r" "sr_inv (length S + 1) r" "sr_agrees S r" using r(1) by (simp_all add: caught_up_def run_inv_def)
  have bw: "bs_bytes_written (sr_output r) = length S"
    by (rule caught_up_all [OF r(1) subset_trans [OF assms(4) r(2)]])
  have del: "del = take (bs_bytes_read (sr_output r)) S"
    using sr_run_inv [OF run_inv_new [OF assms(2)] assms(3) _ run]
    by (simp add: StreamReassembler_new_def ByteStream_new_def)
  have "del @ bs_contents (sr_output r) = S" using run_inv_prefix [OF i(1)] del bw by simp
  moreover have "sr_segments r = []"
    using i(2,3) bw by (cases "sr_segments r") (auto simp: sr_inv_def sr_agrees_def seg_matches_def)
  ultimately show ?thesis
    using run i(1,2) bw r(3) by (simp add: run_inv_def sr_inv_def input_ended_def sr_empty_def)
qed

theorem reassembler_complete_witness:
  "\<exists>del r. sr_run [Push [3] 2 True, Push [1, 2] 0 False] [] (StreamReassembler_new 4) = Inr (del, r) \<and>
    del @ bs_contents (sr_output r) = [1, 2, 3] \<and> input_ended (sr_output r) \<and> sr_empty r"
  by (rule reassembler_complete) (auto simp: SIZE_MOD_def extent_def)

text \<open>
  C18. The effect of one \<open>push_substring\<close> in any reachable state, for data that touches the window:
  the call returns, exactly the positions of the data inside the window are added to the positions
  held, \<open>unassembled_bytes\<close> counts the held positions past the written ones without duplicates, the
  output is maximal (it is full, or the next byte is not held), and the input ends exactly when the
  position recorded with the first end-of-stream flag is reached.
\<close>

theorem push_substring_effect:
  assumes "sr_initial B capacity r0" and "rtranclp (sr_step B) r0 r" and "\<not> input_ended (sr_output r)"
    and "bytes_written (sr_output r) \<le> index + length data"
    and "index \<le> bytes_written (sr_output r) + capacity" and "index + length data \<le> B"
  shows "\<exists>r'. push_substring nd r data index fin = Inr r' \<and>
    held r' = held r \<union> ({index..<index + length data} \<inter> {..<bytes_written (sr_output r) + capacity}) \<and>
    unassembled_bytes r' = card (held r' - {..<bytes_written (sr_output r')}) \<and>
    (remaining_capacity (sr_output r') = 0 \<or> bytes_written (sr_output r') \<notin> held r') \<and>
    sr_end_index r' = (if fin \<and> \<not> sr_got_eof r then index + length data else sr_end_index r) \<and>
    input_ended (sr_output r') =
      ((sr_got_eof r \<or> fin) \<and> sr_end_index r' = bytes_written (sr_output r'))"
proof -
  have inv: "sr_inv B r" "sr_capacity r = capacity"
    using reassembler.reachable_invariant [OF assms(1,2)] by simp_all
  from push_in_window [OF inv(1), of index data nd fin] assms(3-6) inv(2) obtain r' where
    r': "push_substring nd r data index fin = Inr r'" "pushed B r data index fin r'"
    by (auto simp: input_ended_def bytes_written_def)
  note p = pushedD [OF r'(2)]
  have "segs_ok (bs_bytes_written (sr_output r')) (sr_segments r')" using p(1) by (simp add: sr_inv_def)
  then have "held r' - {..<bs_bytes_written (sr_output r')} = covered (sr_segments r')"
    using covered_range by (fastforce simp: held_def)
  then have "unassembled_bytes r' = card (held r' - {..<bs_bytes_written (sr_output r')})"
    using sr_inv_bounds(3) [OF p(1)] by simp
  with r'(1) p(5-9) inv(2) show ?thesis
    unfolding input_ended_def bytes_written_def by blast
qed

theorem push_substring_effect_witness:
  "\<exists>r'. push_substring False (StreamReassembler_new 4) [7, 8] 1 False = Inr r' \<and>
    held r' = held (StreamReassembler_new 4) \<union> ({1..<3} \<inter> {..<4}) \<and>
    unassembled_bytes r' = card (held r' - {..<bytes_written (sr_output r')})"
proof -
  let ?r = "StreamReassembler_new 4"
  have init: "sr_initial 10 4 ?r" by (simp add: sr_initial_def SIZE_MOD_def)
  have r: "\<not> input_ended (sr_output ?r)" "bytes_written (sr_output ?r) = 0"
    by (simp_all add: StreamReassembler_new_def ByteStream_new_def input_ended_def bytes_written_def)
  have "\<exists>r'. push_substring False ?r [7, 8] 1 False = Inr r' \<and>
      held r' = held ?r \<union> ({1..<1 + length [7 :: byte, 8]} \<inter> {..<bytes_written (sr_output ?r) + 4}) \<and>
      unassembled_bytes r' = card (held r' - {..<bytes_written (sr_output r')})"
    using push_substring_effect [OF init rtranclp.rtrancl_refl r(1), of 1 "[7, 8]" False False] r(2)
    unfolding r(2) by fastforce
  then show ?thesis by (simp add: r(2) numeral_3_eq_3)
qed

text \<open>
  C29. When \<open>push_substring\<close> does not return: in a reachable state the call fails exactly when the
  stream is still open and the index lies beyond the window, whatever the data (even none). The
  view is then built with a length that has wrapped around and leaves its string.
\<close>

theorem push_substring_fails_iff:
  assumes "sr_initial B capacity r0" and "rtranclp (sr_step B) r0 r" and "index + length data \<le> B"
  shows "(\<not> input_ended (sr_output r) \<and> bytes_written (sr_output r) + capacity < index) =
      (push_substring nd r data index fin = Inl OutOfBounds) \<and>
    (push_substring nd r data index fin = Inl OutOfBounds \<or>
      (\<exists>r'. push_substring nd r data index fin = Inr r'))"
proof -
  have inv: "sr_inv B r" "sr_capacity r = capacity"
    using reassembler.reachable_invariant [OF assms(1,2)] by simp_all
  from inv(1) assms(3) show ?thesis
    by (cases rule: push_substring_cases [where nd = nd and fin = fin])
      (use inv(2) in \<open>auto simp: input_ended_def bytes_written_def\<close>)
qed

theorem push_substring_fails_iff_witness:
  "push_substring True (StreamReassembler_new 4) [] 5 False = Inl OutOfBounds"
proof -
  have "sr_initial 10 4 (StreamReassembler_new 4)" by (simp add: sr_initial_def SIZE_MOD_def)
  from push_substring_fails_iff [OF this rtranclp.rtrancl_refl, of 5 "[]" True False]
  show ?thesis by (simp add: StreamReassembler_new_def ByteStream_new_def input_ended_def bytes_written_def)
qed

text \<open>
  No assert of the reassembler fires: in every reachable state the Debug build of
  \<open>push_substring\<close> does what the Release build does.
\<close>

lemma push_substring_debug_release:
  assumes "sr_initial B capacity r0" and "rtranclp (sr_step B) r0 r" and "index + length data \<le> B"
  shows "push_substring False r data index fin = push_substring True r data index fin"
proof -
  have inv: "sr_inv B r" using reassembler.reachable_invariant [OF assms(1,2)] by simp
  from inv assms(3) show ?thesis
  proof (cases rule: push_substring_cases [where nd = False and fin = fin])
    case beyond
    with push_beyond [OF inv assms(3)] show ?thesis by simp
  qed (use push_substring_release [of r data index fin] in \<open>auto simp: returns_as_def\<close>)
qed

lemma push_substring_debug_release_witness:
  "push_substring False (StreamReassembler_new 4) [7, 8] 1 False =
     push_substring True (StreamReassembler_new 4) [7, 8] 1 False"
  by (rule push_substring_debug_release [of 10 4]) (auto simp: sr_initial_def SIZE_MOD_def)

text \<open>
  The capacity bounds the unassembled bytes and the bytes waiting in the output separately, not
  together: two pushes of two bytes each into a reassembler of capacity two are both kept.
\<close>

lemma reassembler_stores_twice_capacity:
  "\<exists>r. sr_run [Push [1, 2] 0 False, Push [3, 4] 2 False] [] (StreamReassembler_new 2) = Inr ([], r) \<and>
     buffer_size (sr_output r) + unassembled_bytes r = 2 * sr_capacity r"
  by (simp add: sr_eval)

end
