(* ===== verification/Net_Parser.thy ===== *)
theory Net_Parser
  imports Buffers
begin

unbundle bit_operations_syntax

text \<open>
  libsponge/util/parser.hh and parser.cc: reading and writing integers in network byte order.

  A parsing function threads the \<open>NetParser\<close> it is given and may throw: \<open>'a parser\<close> is a state
  transformer with failure, composed by \<open>pbind\<close>. Short input is no exception but the sticky
  error flag of the parser; \<open>parser_total\<close> says that an operation never throws on a well-formed
  buffer.

  The template \<open>_parse_int<T>\<close> is polymorphic in the width of its word, and sizeof(T) is
  \<open>LENGTH('a) div 8\<close>. The locale \<open>int_codec\<close> is the contract of one width, interpreted for 8, 16
  and 32 bits.
\<close>

section \<open>NetParser\<close>

datatype ParseResult =
  NoError | BadChecksum | PacketTooShort | WrongIPVersion | HeaderTooShort | TruncatedPacket | Unsupported

fun ParseResult_index :: "ParseResult \<Rightarrow> nat" where
  "ParseResult_index NoError = 0"
| "ParseResult_index BadChecksum = 1"
| "ParseResult_index PacketTooShort = 2"
| "ParseResult_index WrongIPVersion = 3"
| "ParseResult_index HeaderTooShort = 4"
| "ParseResult_index TruncatedPacket = 5"
| "ParseResult_index Unsupported = 6"

text \<open>The table of names has no entry for \<open>Unsupported\<close>.\<close>

definition as_string :: "ParseResult \<Rightarrow> string result" where
  "as_string r =
     (let names = [''NoError'', ''BadChecksum'', ''PacketTooShort'', ''WrongIPVersion'',
                   ''HeaderTooShort'', ''TruncatedPacket'']
      in if ParseResult_index r < length names then Inr (names ! ParseResult_index r) else Inl OutOfBounds)"

record NetParser =
  np_buffer :: Buffer
  np_error :: ParseResult

type_synonym 'a parser = "NetParser \<Rightarrow> ('a \<times> NetParser) result"

definition pbind :: "'a parser \<Rightarrow> ('a \<Rightarrow> 'b parser) \<Rightarrow> 'b parser" where
  "pbind m f p = result_bind (m p) (\<lambda>(x, p'). f x p')"

definition preturn :: "'a \<Rightarrow> 'a parser" where
  "preturn x p = Inr (x, p)"

definition NetParser_new :: "Buffer \<Rightarrow> NetParser" where
  "NetParser_new b = \<lparr>np_buffer = b, np_error = NoError\<rparr>"

definition np_set_error :: "ParseResult \<Rightarrow> NetParser \<Rightarrow> NetParser" where
  "np_set_error res p = p\<lparr>np_error := res\<rparr>"

definition np_has_error :: "NetParser \<Rightarrow> bool" where
  "np_has_error p \<longleftrightarrow> np_error p \<noteq> NoError"

definition check_size :: "size_t \<Rightarrow> NetParser \<Rightarrow> NetParser" where
  "check_size n p = (if n > Buffer_size (np_buffer p) then np_set_error PacketTooShort p else p)"

fun parse_int_loop :: "Buffer \<Rightarrow> nat list \<Rightarrow> 'a::len word \<Rightarrow> 'a word result" where
  "parse_int_loop b [] ret = Inr ret"
| "parse_int_loop b (i # is) ret =
     result_bind (Buffer_at b i) (\<lambda>x. parse_int_loop b is (push_bit 8 ret + ucast x))"

definition parse_int :: "'a::len word parser" where
  "parse_int p =
     (let len = LENGTH('a) div 8; p1 = check_size len p in
      if np_has_error p1 then Inr (0, p1)
      else result_bind (parse_int_loop (np_buffer p1) [0..<len] 0) (\<lambda>ret.
           result_bind (Buffer_remove_prefix len (np_buffer p1)) (\<lambda>b. Inr (ret, p1\<lparr>np_buffer := b\<rparr>))))"

text \<open>\<open>get_error\<close> and \<open>buffer\<close>, as parsers that change nothing.\<close>

definition NetParser_get_error :: "ParseResult parser" where
  "NetParser_get_error p = Inr (np_error p, p)"

definition NetParser_buffer :: "Buffer parser" where
  "NetParser_buffer p = Inr (np_buffer p, p)"

definition NetParser_u32 :: "32 word parser" where
  "NetParser_u32 p = parse_int p"

definition NetParser_u16 :: "16 word parser" where
  "NetParser_u16 p = parse_int p"

definition NetParser_u8 :: "8 word parser" where
  "NetParser_u8 p = parse_int p"

definition NetParser_remove_prefix :: "size_t \<Rightarrow> unit parser" where
  "NetParser_remove_prefix n p =
     (let p1 = check_size n p in
      if np_has_error p1 then Inr ((), p1)
      else result_bind (Buffer_remove_prefix n (np_buffer p1)) (\<lambda>b. Inr ((), p1\<lparr>np_buffer := b\<rparr>)))"

text \<open>The loops \<open>for (auto &byte : address) byte = p.u8();\<close> of the Ethernet and ARP parsers.\<close>

fun parse_bytes :: "nat \<Rightarrow> bytes parser" where
  "parse_bytes 0 = preturn []"
| "parse_bytes (Suc n) = pbind NetParser_u8 (\<lambda>b. pbind (parse_bytes n) (\<lambda>bs. preturn (b # bs)))"

section \<open>NetUnparser\<close>

fun unparse_int_loop :: "nat \<Rightarrow> nat list \<Rightarrow> bytes \<Rightarrow> 'a::len word \<Rightarrow> bytes" where
  "unparse_int_loop len [] s val = s"
| "unparse_int_loop len (i # is) s val =
     unparse_int_loop len is (s @ [ucast (drop_bit ((len - i - 1) * 8) val AND 0xff)]) val"

definition unparse_int :: "bytes \<Rightarrow> 'a::len word \<Rightarrow> bytes" where
  "unparse_int s val = (let len = LENGTH('a) div 8 in unparse_int_loop len [0..<len] s val)"

definition NetUnparser_u32 :: "bytes \<Rightarrow> 32 word \<Rightarrow> bytes" where
  "NetUnparser_u32 s val = unparse_int s val"

definition NetUnparser_u16 :: "bytes \<Rightarrow> 16 word \<Rightarrow> bytes" where
  "NetUnparser_u16 s val = unparse_int s val"

definition NetUnparser_u8 :: "bytes \<Rightarrow> 8 word \<Rightarrow> bytes" where
  "NetUnparser_u8 s val = unparse_int s val"

fun unparse_bytes :: "bytes \<Rightarrow> bytes \<Rightarrow> bytes" where
  "unparse_bytes s [] = s"
| "unparse_bytes s (b # bs) = unparse_bytes (NetUnparser_u8 s b) bs"

text \<open>\<open>std::string::resize\<close>\<close>

definition resize :: "nat \<Rightarrow> bytes \<Rightarrow> bytes" where
  "resize n s = take n s @ replicate (n - length s) 0"

section \<open>Total parsers\<close>

abbreviation np_bytes :: "NetParser \<Rightarrow> bytes" where
  "np_bytes p \<equiv> Buffer_str (np_buffer p)"

abbreviation np_wf :: "NetParser \<Rightarrow> bool" where
  "np_wf p \<equiv> Buffer_wf (np_buffer p)"

named_theorems total \<open>parsers that never throw on a well-formed buffer\<close>

definition parser_total :: "'a parser \<Rightarrow> bool" where
  "parser_total m \<longleftrightarrow> (\<forall>p. np_wf p \<longrightarrow> (\<exists>x p'. m p = Inr (x, p') \<and> np_wf p'))"

lemma pbind_Inr [simp]: "m p = Inr (x, p') \<Longrightarrow> pbind m f p = f x p'"
  by (simp add: pbind_def)

lemma preturn_apply [simp]: "preturn x p = Inr (x, p)"
  by (simp add: preturn_def)

lemma parser_totalD: "parser_total m \<Longrightarrow> np_wf p \<Longrightarrow> \<exists>x p'. m p = Inr (x, p') \<and> np_wf p'"
  by (simp add: parser_total_def)

lemma total_return [total]: "parser_total (preturn x)"
  by (simp add: parser_total_def)

lemma total_bind [total]:
  assumes "parser_total m" and "\<And>x. parser_total (f x)"
  shows "parser_total (pbind m f)"
  using assms unfolding parser_total_def pbind_def by fastforce

lemma total_if [total]: "parser_total m \<Longrightarrow> parser_total m' \<Longrightarrow> parser_total (if c then m else m')"
  by simp

lemma total_get [total]: "parser_total NetParser_get_error" "parser_total NetParser_buffer"
  by (simp_all add: parser_total_def NetParser_get_error_def NetParser_buffer_def)

lemma total_let [total]: "(\<And>x. parser_total (f x)) \<Longrightarrow> parser_total (Let a f)"
  by simp

text \<open>The state after \<open>n\<close> bytes have been consumed.\<close>

definition np_advance :: "nat \<Rightarrow> NetParser \<Rightarrow> NetParser" where
  "np_advance n p = (case Buffer_remove_prefix n (np_buffer p) of Inr b \<Rightarrow> p\<lparr>np_buffer := b\<rparr> | Inl _ \<Rightarrow> p)"

lemma np_advance:
  assumes "np_wf p" and "n \<le> length (np_bytes p)"
  shows "Buffer_remove_prefix n (np_buffer p) = Inr (np_buffer (np_advance n p))"
    "p\<lparr>np_buffer := np_buffer (np_advance n p)\<rparr> = np_advance n p"
    and np_advance_wf: "np_wf (np_advance n p)"
    and np_advance_bytes: "np_bytes (np_advance n p) = drop n (np_bytes p)"
  using buffer.remove_prefix_ok [OF assms] by (auto simp: np_advance_def)

lemma np_advance_error [simp]: "np_error (np_advance n p) = np_error p"
  by (simp add: np_advance_def split: sum.splits)

lemmas np_advance_simps = np_advance_wf np_advance_bytes

text \<open>What the loop of \<open>_parse_int\<close> computes: the big-endian value of the bytes, at the width of the word.\<close>

definition be_word :: "bytes \<Rightarrow> 'a::len word" where
  "be_word bs = foldl (\<lambda>ret x. push_bit 8 ret + ucast x) 0 bs"

lemma parse_int_loop_be:
  assumes "\<forall>i \<in> set is. i < length (Buffer_str b)"
  shows "parse_int_loop b is ret = Inr (foldl (\<lambda>ret x. push_bit 8 ret + ucast x) ret (map ((!) (Buffer_str b)) is))"
  using assms by (induction "is" arbitrary: ret) (simp_all add: Buffer_at_def)

lemma parse_int_ok:
  fixes p :: NetParser
  assumes "np_wf p" "LENGTH('a) div 8 \<le> length (np_bytes p)" "np_error p = NoError"
  shows "(parse_int :: 'a::len word parser) p =
     Inr (be_word (take (LENGTH('a) div 8) (np_bytes p)), np_advance (LENGTH('a) div 8) p)"
proof -
  let ?n = "LENGTH('a) div 8"
  have "map ((!) (np_bytes p)) [0..<?n] = take ?n (np_bytes p)"
    using assms(2) by (intro nth_equalityI) auto
  then have "parse_int_loop (np_buffer p) [0..<?n] (0 :: 'a word) = Inr (be_word (take ?n (np_bytes p)))"
    using assms(2) by (subst parse_int_loop_be) (auto simp: be_word_def)
  then show ?thesis
    using assms np_advance(1,2) [OF assms(1,2)]
    by (simp add: parse_int_def check_size_def np_has_error_def Buffer_size_def Let_def)
qed

lemma parse_int_short:
  assumes "length (np_bytes p) < LENGTH('a) div 8 \<or> np_error p \<noteq> NoError"
  shows "(parse_int :: 'a::len word parser) p = Inr (0, check_size (LENGTH('a) div 8) p)"
    "np_error (check_size (LENGTH('a) div 8) p) \<noteq> NoError"
  using assms by (auto simp: parse_int_def check_size_def np_has_error_def np_set_error_def Buffer_size_def Let_def)

lemma check_size_buffer [simp]: "np_buffer (check_size n p) = np_buffer p"
  by (simp add: check_size_def np_set_error_def)

lemma total_parse_int [total]: "parser_total (parse_int :: 'a::len word parser)"
  unfolding parser_total_def
proof (intro allI impI)
  fix p assume wf: "np_wf p"
  show "\<exists>x p'. (parse_int :: 'a word parser) p = Inr (x, p') \<and> np_wf p'"
  proof (cases "length (np_bytes p) < LENGTH('a) div 8 \<or> np_error p \<noteq> NoError")
    case True
    from parse_int_short(1) [OF True] wf show ?thesis by simp
  next
    case False
    with parse_int_ok [where 'a = 'a, OF wf] np_advance_wf [OF wf] show ?thesis by (simp add: not_less)
  qed
qed

lemma total_u [total]: "parser_total NetParser_u8" "parser_total NetParser_u16" "parser_total NetParser_u32"
  using total_parse_int [where 'a = 8] total_parse_int [where 'a = 16] total_parse_int [where 'a = 32]
  by (simp_all add: parser_total_def NetParser_u8_def NetParser_u16_def NetParser_u32_def)

lemma total_remove_prefix [total]: "parser_total (NetParser_remove_prefix n)"
  unfolding parser_total_def
proof (intro allI impI)
  fix p assume wf: "np_wf p"
  show "\<exists>x p'. NetParser_remove_prefix n p = Inr (x, p') \<and> np_wf p'"
    using np_advance(1) [OF wf, of n] np_advance_wf [OF wf, of n] wf
    by (cases "n \<le> length (np_bytes p)")
      (auto simp: NetParser_remove_prefix_def np_has_error_def check_size_def np_set_error_def Buffer_size_def)
qed

lemma total_parse_bytes [total]: "parser_total (parse_bytes n)"
proof (induction n)
  case (Suc n)
  then show ?case unfolding parse_bytes.simps by (intro total)
qed (unfold parse_bytes.simps, rule total_return)

section \<open>What a parser accepts\<close>

text \<open>
  \<open>feeds p bs\<close>: the parser \<open>p\<close> has no error and \<open>bs\<close> left to read. \<open>parses m bs v\<close>: run on input
  that starts with \<open>bs\<close>, the operation \<open>m\<close> consumes exactly \<open>bs\<close> and returns \<open>v\<close>.
\<close>

definition feeds :: "NetParser \<Rightarrow> bytes \<Rightarrow> bool" where
  "feeds p bs \<longleftrightarrow> np_wf p \<and> np_error p = NoError \<and> np_bytes p = bs"

definition parses :: "'a parser \<Rightarrow> bytes \<Rightarrow> 'a \<Rightarrow> bool" where
  "parses m bs v \<longleftrightarrow> (\<forall>p rest. feeds p (bs @ rest) \<longrightarrow> (\<exists>p'. m p = Inr (v, p') \<and> feeds p' rest))"

named_theorems parses_rules \<open>what the parsers accept\<close>

lemma parsesD: "parses m bs v \<Longrightarrow> feeds p (bs @ rest) \<Longrightarrow> \<exists>p'. m p = Inr (v, p') \<and> feeds p' rest"
  by (simp add: parses_def)

lemma feeds_new: "Buffer_wf b \<Longrightarrow> feeds (NetParser_new b) (Buffer_str b)"
  by (simp add: feeds_def NetParser_new_def)

lemma parses_bind:
  assumes "parses m bs v" and "parses (f v) bs' w"
  shows "parses (pbind m f) (bs @ bs') w"
  unfolding parses_def
proof (intro allI impI)
  fix p rest assume "feeds p ((bs @ bs') @ rest)"
  then obtain p1 where p1: "m p = Inr (v, p1)" "feeds p1 (bs' @ rest)"
    using parsesD [OF assms(1), of p "bs' @ rest"] by auto
  with parsesD [OF assms(2) p1(2)] show "\<exists>p'. pbind m f p = Inr (w, p') \<and> feeds p' rest" by simp
qed

lemma parses_return [parses_rules]: "parses (preturn v) [] v"
  by (simp add: parses_def)

lemma parses_get_error [parses_rules]: "parses NetParser_get_error [] NoError"
  by (simp add: parses_def NetParser_get_error_def feeds_def)

lemma parses_bind_silent:
  assumes "parses m [] v" and "parses (f v) bs w"
  shows "parses (pbind m f) bs w"
  using parses_bind [OF assms(1), of f bs w] assms(2) by simp

lemma parses_if_no_error [parses_rules]: "parses m bs v \<Longrightarrow> parses (if NoError \<noteq> NoError then m' else m) bs v"
  by simp

lemma parses_remove_prefix [parses_rules]:
  assumes "length bs = n"
  shows "parses (NetParser_remove_prefix n) bs ()"
  unfolding parses_def
proof (intro allI impI)
  fix p rest assume f: "feeds p (bs @ rest)"
  then have "n \<le> length (np_bytes p)" "np_wf p" "np_error p = NoError" using assms by (simp_all add: feeds_def)
  with np_advance [of p n] f assms
  show "\<exists>p'. NetParser_remove_prefix n p = Inr ((), p') \<and> feeds p' rest"
    by (intro exI [of _ "np_advance n p"])
      (simp add: NetParser_remove_prefix_def check_size_def np_has_error_def Buffer_size_def feeds_def)
qed

section \<open>Integers in network byte order\<close>

text \<open>The bytes \<open>_unparse_int\<close> appends.\<close>

definition be_bytes :: "'a::len word \<Rightarrow> bytes" where
  "be_bytes val =
     (let len = LENGTH('a) div 8 in map (\<lambda>i. ucast (drop_bit ((len - i - 1) * 8) val AND 0xff)) [0..<len])"

lemma unparse_int_be: "unparse_int s val = s @ be_bytes val"
proof -
  have "unparse_int_loop len is s val = s @ map (\<lambda>i. ucast (drop_bit ((len - i - 1) * 8) val AND 0xff)) is" for len "is" s
    by (induction "is" arbitrary: s) simp_all
  then show ?thesis by (simp add: unparse_int_def be_bytes_def Let_def)
qed

lemma ucast_and_255: "(ucast (w AND 0xff) :: 8 word) = ucast (w :: 'a::len word)"
proof -
  have "w AND 0xff = take_bit 8 w" by (simp add: take_bit_eq_mask mask_eq_exp_minus_1)
  moreover have "(ucast (take_bit 8 w) :: 8 word) = ucast w"
    by (rule bit_word_eqI) (auto simp: bit_simps dest: bit_imp_le_length)
  ultimately show ?thesis by simp
qed

lemma be_bytes_simps:
  "be_bytes (v8 :: 8 word) = [v8]"
  "be_bytes (v16 :: 16 word) = [ucast (drop_bit 8 v16), ucast v16]"
  "be_bytes (v32 :: 32 word) = [ucast (drop_bit 24 v32), ucast (drop_bit 16 v32), ucast (drop_bit 8 v32), ucast v32]"
  using ucast_and_255 [of v8] by (simp_all add: be_bytes_def Let_def upt_rec ucast_and_255)

lemma be_word_simps:
  "be_word [a] = a"
  "be_word [a, b] = (push_bit 8 (ucast a) + ucast b :: 16 word)"
  "be_word [a, b, c, d] =
     (push_bit 8 (push_bit 8 (push_bit 8 (ucast a) + ucast b) + ucast c) + ucast d :: 32 word)"
  by (simp_all add: be_word_def)

lemma unat_ucast_mod: "unat (ucast w :: 'b::len word) = unat (w :: 'a::len word) mod 2 ^ LENGTH('b)"
  by (simp add: unsigned_ucast_eq take_bit_eq_mod)

lemma unat_drop_bit_div: "unat (drop_bit n w) = unat (w :: 'a::len word) div 2 ^ n"
  by (simp only: unat_drop_bit_eq) (simp add: drop_bit_eq_div)

lemma unat_shift_in:
  "unat (push_bit 8 w + ucast (x :: 8 word) :: 'a::len word) = (unat w * 256 + unat x) mod 2 ^ LENGTH('a)"
  by (simp add: unat_word_ariths push_bit_eq_mult unat_ucast_mod take_bit_eq_mod mod_simps)

lemma be_word_be_bytes:
  "be_word (be_bytes v8) = (v8 :: 8 word)"
  "be_word (be_bytes v16) = (v16 :: 16 word)"
  "be_word (be_bytes v32) = (v32 :: 32 word)"
proof -
  show "be_word (be_bytes v8) = v8" by (simp add: be_bytes_simps be_word_simps)
  have v16: "unat v16 < 256 * 256" and v32: "unat v32 < 256 * 256 * 256 * 256"
    using unat_width_less(2) [of v16] unat_width_less(3) [of v32] by simp_all
  have d: "n div 256 mod 256 * 256 + n mod 256 = n" if "n < 256 * 256" for n :: nat
    using that by (simp add: less_mult_imp_div_less)
  have e: "((n div 2 ^ 24 mod 256 * 256 + n div 2 ^ 16 mod 256) * 256 + n div 256 mod 256) * 256 + n mod 256 = n"
    if n: "n < 256 * 256 * 256 * 256" for n :: nat
  proof -
    have "n div 2 ^ 24 = n div 2 ^ 16 div 256" "n div 2 ^ 16 = n div 256 div 256"
      by (simp_all flip: div_mult2_eq)
    moreover have "n div 2 ^ 16 < 256 * 256" using n by (simp add: less_mult_imp_div_less)
    ultimately have "n div 2 ^ 24 mod 256 * 256 + n div 2 ^ 16 mod 256 = n div 256 div 256"
      using d [of "n div 2 ^ 16"] by simp
    then show ?thesis by (simp only: div_mult_mod_eq)
  qed
  show "be_word (be_bytes v16) = v16"
    by (simp add: word_unat_eq_iff be_bytes_simps be_word_simps unat_shift_in unat_drop_bit_div unat_ucast_mod)
      (rule d [OF v16])
  let ?u = "unat v32"
  have "unat (be_word (be_bytes v32) :: 32 word) =
      (((?u div 2 ^ 24 mod 256 * 256 + ?u div 2 ^ 16 mod 256) * 256 + ?u div 256 mod 256) * 256 + ?u mod 256) mod 2 ^ 32"
    by (simp only: be_bytes_simps be_word_simps unat_shift_in unat_drop_bit_div unat_ucast_mod)
      (simp add: mod_simps)
  then have "unat (be_word (be_bytes v32) :: 32 word) = ?u mod 2 ^ 32" unfolding e [OF v32] .
  then show "be_word (be_bytes v32) = v32" by (simp add: word_unat_eq_iff)
qed

lemma length_be_bytes [simp]: "length (be_bytes (v :: 'a::len word)) = LENGTH('a) div 8"
  by (simp add: be_bytes_def Let_def)

lemma be_bytes_be_word:
  "length bs = 1 \<Longrightarrow> be_bytes (be_word bs :: 8 word) = bs"
  "length bs = 2 \<Longrightarrow> be_bytes (be_word bs :: 16 word) = bs"
  "length bs = 4 \<Longrightarrow> be_bytes (be_word bs :: 32 word) = bs"
proof -
  have low: "(n * 256 + unat (x :: 8 word)) div 256 = n" "(n * 256 + unat x) mod 256 = unat x" for n x
    using unat_width_less(1) [of x] by simp_all
  have len_byte: "(2 :: nat) ^ LENGTH(8) = 256" by simp
  have le255: "unat x \<le> 255" for x :: "8 word"
    using unat_width_less(1) [of x] by linarith
  show "be_bytes (be_word bs :: 8 word) = bs" if "length bs = 1"
    using that by (auto simp: length_Suc_conv be_bytes_simps be_word_simps)
  show "be_bytes (be_word bs :: 16 word) = bs" if len: "length bs = 2"
  proof -
    obtain a b where bs: "bs = [a, b]" using len by (auto simp: length_Suc_conv numeral_eq_Suc)
    have "unat a * 256 + unat b < 65536" using unat_width_less(1) [of a] unat_width_less(1) [of b] by linarith
    then have "unat (be_word bs :: 16 word) = unat a * 256 + unat b"
      by (simp only: bs be_word_simps unat_shift_in unat_ucast_mod) simp
    then show ?thesis
      by (simp add: bs be_bytes_simps word_unat_eq_iff unat_ucast_mod unat_drop_bit_div low)
  qed
  show "be_bytes (be_word bs :: 32 word) = bs" if len: "length bs = 4"
  proof -
    obtain a b c d where bs: "bs = [a, b, c, d]" using len by (auto simp: length_Suc_conv numeral_eq_Suc)
    let ?v = "((unat a * 256 + unat b) * 256 + unat c) * 256 + unat d"
    have step: "m * 256 + unat x \<le> M * 256 + 255" if "m \<le> M" for m M and x :: "8 word"
      using that le255 [of x] by (intro add_mono mult_le_mono) simp_all
    have "?v < 4294967296"
      using step [OF step [OF step [OF le255]], of a b c d] by simp
    then have v: "unat (be_word bs :: 32 word) = ?v"
      by (simp only: bs be_word_simps unat_shift_in unat_ucast_mod) (simp add: mod_simps)
    have "n div 2 ^ 24 = n div 256 div 256 div 256" "n div 2 ^ 16 = n div 256 div 256" "n div 2 ^ 8 = n div 256" for n :: nat
      by (simp_all flip: div_mult2_eq)
    then have "?v div 2 ^ 24 = unat a" "?v div 2 ^ 16 = unat a * 256 + unat b"
        "?v div 2 ^ 8 = (unat a * 256 + unat b) * 256 + unat c"
      by (simp_all only: low)
    then have "unat (ucast (drop_bit 24 (be_word bs :: 32 word)) :: 8 word) = unat a"
        "unat (ucast (drop_bit 16 (be_word bs :: 32 word)) :: 8 word) = unat b"
        "unat (ucast (drop_bit 8 (be_word bs :: 32 word)) :: 8 word) = unat c"
        "unat (ucast (be_word bs :: 32 word) :: 8 word) = unat d"
      by (simp_all only: unat_ucast_mod unat_drop_bit_div v len_byte low) simp
    then show ?thesis unfolding be_bytes_simps word_unat_eq_iff [symmetric] by (simp add: bs)
  qed
qed

text \<open>
  The contract of one width: what a header parser relies on when it reads a field, and a header
  serializer when it writes one.
\<close>

locale int_codec =
  fixes parse :: "'w parser" and unparse :: "bytes \<Rightarrow> 'w \<Rightarrow> bytes" and width :: nat and zero :: 'w
  assumes unparse_append: "unparse s v = s @ unparse [] v"
    and unparse_length: "length (unparse [] v) = width"
    and parse_ok: "np_wf p \<Longrightarrow> np_error p = NoError \<Longrightarrow> width \<le> length (np_bytes p) \<Longrightarrow>
      \<exists>v. parse p = Inr (v, np_advance width p) \<and> unparse [] v = take width (np_bytes p)"
    and unparse_inj: "unparse [] v = unparse [] w \<Longrightarrow> v = w"
    and parse_short: "length (np_bytes p) < width \<Longrightarrow> parse p = Inr (zero, np_set_error PacketTooShort p)"
    and parse_sticky: "np_error p \<noteq> NoError \<Longrightarrow> width \<le> length (np_bytes p) \<Longrightarrow> parse p = Inr (zero, p)"
begin

lemma parse_unparse:
  assumes "np_wf p" "np_error p = NoError" "np_bytes p = unparse [] v @ rest"
  shows "parse p = Inr (v, np_advance width p)" "np_bytes (np_advance width p) = rest" "np_wf (np_advance width p)"
proof -
  have len: "width \<le> length (np_bytes p)" using assms(3) by (simp add: unparse_length)
  from parse_ok [OF assms(1,2) len] obtain w where
    w: "parse p = Inr (w, np_advance width p)" "unparse [] w = take width (np_bytes p)" by blast
  then have "w = v" by (intro unparse_inj) (simp add: assms(3) unparse_length)
  with w show "parse p = Inr (v, np_advance width p)" by simp
  show "np_bytes (np_advance width p) = rest" "np_wf (np_advance width p)"
    using assms(1,3) len by (simp_all add: np_advance_simps unparse_length)
qed

lemma parses_unparse: "parses parse (unparse [] v) v"
  unfolding parses_def feeds_def using parse_unparse by fastforce

lemma parse_error_stays:
  assumes "np_wf p" "np_error p \<noteq> NoError"
  shows "\<exists>p'. parse p = Inr (zero, p') \<and> np_error p' \<noteq> NoError \<and> np_buffer p' = np_buffer p"
  using assms parse_short [of p] parse_sticky [of p]
  by (cases "length (np_bytes p) < width") (auto simp: np_set_error_def)

end

interpretation u8: int_codec NetParser_u8 NetUnparser_u8 1 0
proof unfold_locales
  show "\<exists>v. NetParser_u8 p = Inr (v, np_advance 1 p) \<and> NetUnparser_u8 [] v = take 1 (np_bytes p)"
    if "np_wf p" "np_error p = NoError" "1 \<le> length (np_bytes p)" for p
    using that parse_int_ok [where 'a = 8, of p]
    by (simp add: NetParser_u8_def NetUnparser_u8_def unparse_int_be be_bytes_be_word)
  show "v = w" if "NetUnparser_u8 [] v = NetUnparser_u8 [] w" for v w
    using that by (metis NetUnparser_u8_def unparse_int_be append_Nil be_word_be_bytes(1))
qed (auto simp: NetUnparser_u8_def NetParser_u8_def unparse_int_be parse_int_def check_size_def
      np_has_error_def np_set_error_def Buffer_size_def)

interpretation u16: int_codec NetParser_u16 NetUnparser_u16 2 0
proof unfold_locales
  show "\<exists>v. NetParser_u16 p = Inr (v, np_advance 2 p) \<and> NetUnparser_u16 [] v = take 2 (np_bytes p)"
    if "np_wf p" "np_error p = NoError" "2 \<le> length (np_bytes p)" for p
    using that parse_int_ok [where 'a = 16, of p]
    by (simp add: NetParser_u16_def NetUnparser_u16_def unparse_int_be be_bytes_be_word)
  show "v = w" if "NetUnparser_u16 [] v = NetUnparser_u16 [] w" for v w
    using that by (metis NetUnparser_u16_def unparse_int_be append_Nil be_word_be_bytes(2))
qed (auto simp: NetUnparser_u16_def NetParser_u16_def unparse_int_be parse_int_def check_size_def
      np_has_error_def np_set_error_def Buffer_size_def)

interpretation u32: int_codec NetParser_u32 NetUnparser_u32 4 0
proof unfold_locales
  show "\<exists>v. NetParser_u32 p = Inr (v, np_advance 4 p) \<and> NetUnparser_u32 [] v = take 4 (np_bytes p)"
    if "np_wf p" "np_error p = NoError" "4 \<le> length (np_bytes p)" for p
    using that parse_int_ok [where 'a = 32, of p]
    by (simp add: NetParser_u32_def NetUnparser_u32_def unparse_int_be be_bytes_be_word)
  show "v = w" if "NetUnparser_u32 [] v = NetUnparser_u32 [] w" for v w
    using that by (metis NetUnparser_u32_def unparse_int_be append_Nil be_word_be_bytes(3))
qed (auto simp: NetUnparser_u32_def NetParser_u32_def unparse_int_be parse_int_def check_size_def
      np_has_error_def np_set_error_def Buffer_size_def)

lemma unparse_simps [simp]:
  "NetUnparser_u8 s v8 = s @ be_bytes v8" "NetUnparser_u16 s v16 = s @ be_bytes v16"
  "NetUnparser_u32 s v32 = s @ be_bytes v32"
  by (simp_all add: NetUnparser_u8_def NetUnparser_u16_def NetUnparser_u32_def unparse_int_be)

lemma unparse_bytes_eq [simp]: "unparse_bytes s bs = s @ bs"
  by (induction bs arbitrary: s) (simp_all add: be_bytes_simps)

lemma parses_u [parses_rules]:
  "parses NetParser_u8 (be_bytes v8) v8" "parses NetParser_u16 (be_bytes v16) v16"
  "parses NetParser_u32 (be_bytes v32) v32"
  using u8.parses_unparse u16.parses_unparse u32.parses_unparse by simp_all

lemma parses_bytes [parses_rules]: "length bs = n \<Longrightarrow> parses (parse_bytes n) bs bs"
proof (induction bs arbitrary: n)
  case (Cons b bs)
  then obtain m where m: "n = Suc m" "parses (parse_bytes m) bs bs" by auto
  have "parses (pbind NetParser_u8 (\<lambda>b. pbind (parse_bytes m) (\<lambda>bs. preturn (b # bs))))
      (be_bytes b @ bs @ []) (b # bs)"
    by (rule parses_bind parses_rules m(2))+
  then show ?case by (simp add: m(1) be_bytes_simps)
qed (simp add: parses_return)

section \<open>Half bytes\<close>

lemma drop_push_4: "x < 16 \<Longrightarrow> drop_bit 4 (push_bit 4 x) = (x :: 8 word)"
  by (simp add: word_unat_eq_iff unat_drop_bit_div push_bit_eq_mult unat_word_ariths word_less_nat_alt)

lemma low_nibble: "x < 16 \<Longrightarrow> x AND 15 = (x :: 8 word)"
  using less_mask_eq [of x 4] by (simp add: mask_eq_exp_minus_1)

end
