(* ===== verification/Internet_Checksum.thy ===== *)
theory Internet_Checksum
  imports Net_Parser
begin

text \<open>
  The class InternetChecksum of libsponge/util/util.hh and util.cc: a 32-bit sum of 16-bit words
  that may be fed byte by byte, folded to 16 bits and complemented.

  The sum is kept at its width; \<open>word_sum\<close> is the same sum over the natural numbers, and folding
  is reduction modulo \<open>65535\<close> with the representatives \<open>1\<close> to \<open>65535\<close> (and \<open>0\<close> for \<open>0\<close>). The bound
  in the properties says that the 32-bit sum does not wrap: messages up to 128 KiB.
\<close>

unbundle bit_operations_syntax

section \<open>Operations\<close>

record InternetChecksum =
  ic_sum :: "32 word"
  ic_parity :: bool

definition InternetChecksum_new :: "32 word \<Rightarrow> InternetChecksum" where
  "InternetChecksum_new initial_sum = \<lparr>ic_sum = initial_sum, ic_parity = False\<rparr>"

fun ic_add :: "InternetChecksum \<Rightarrow> bytes \<Rightarrow> InternetChecksum" where
  "ic_add c [] = c"
| "ic_add c (b # data) =
     (let val = (ucast b :: 16 word);
          val' = (if \<not> ic_parity c then push_bit 8 val else val)
      in ic_add (c\<lparr>ic_sum := ic_sum c + ucast val', ic_parity := \<not> ic_parity c\<rparr>) data)"

lemma unat_fold_step: "unat (drop_bit 16 w + (w AND 0xffff)) = unat w div 65536 + unat (w :: 32 word) mod 65536"
proof -
  have "w AND 0xffff = take_bit 16 w" by (simp add: take_bit_eq_mask mask_eq_exp_minus_1)
  then have "unat (w AND 0xffff) = unat w mod 65536"
    by (simp only: unsigned_take_bit_eq) (simp add: take_bit_eq_mod)
  moreover have "unat (drop_bit 16 w) = unat w div 65536" by (simp add: unat_drop_bit_div)
  moreover have "unat w div 65536 < 65536" using unat_width_less(3) [of w] by (simp add: less_mult_imp_div_less)
  ultimately show ?thesis by (subst unat_add_lem [THEN iffD1]) auto
qed

function ic_fold :: "32 word \<Rightarrow> 32 word" where
  "ic_fold ret = (if ret > 0xffff then ic_fold (drop_bit 16 ret + (ret AND 0xffff)) else ret)"
  by auto

termination ic_fold
proof (relation "measure unat")
  show "(drop_bit 16 ret + (ret AND 0xffff), ret) \<in> measure unat" if "ret > 0xffff" for ret :: "32 word"
  proof -
    from that have "65535 < unat ret" by (simp add: word_less_nat_alt)
    then have "unat ret div 65536 * 65536 + unat ret mod 65536 = unat ret" "0 < unat ret div 65536" by simp_all
    then show ?thesis unfolding in_measure unat_fold_step by linarith
  qed
qed simp

declare ic_fold.simps [simp del]

definition ic_value :: "InternetChecksum \<Rightarrow> 16 word" where
  "ic_value c = ucast (NOT (ic_fold (ic_sum c)))"

section \<open>The sum over the natural numbers\<close>

fun word_sum :: "bool \<Rightarrow> bytes \<Rightarrow> nat" where
  "word_sum parity [] = 0"
| "word_sum parity (b # data) = (if parity then unat b else unat b * 256) + word_sum (\<not> parity) data"

lemma ic_add_append: "ic_add c (xs @ ys) = ic_add (ic_add c xs) ys"
  by (induction xs arbitrary: c) (simp_all add: Let_def)

lemma unat_lifted_byte: "unat (ucast (if \<not> p then push_bit 8 (ucast b :: 16 word) else ucast b) :: 32 word) =
    (if p then unat b else unat (b :: 8 word) * 256)"
proof -
  have "unat b \<le> 255" using unat_width_less(1) [of b] by linarith
  then show ?thesis by (simp add: unat_ucast_mod push_bit_eq_mult unat_word_ariths)
qed

lemma unat_ic_add: "unat (ic_sum (ic_add c data)) = (unat (ic_sum c) + word_sum (ic_parity c) data) mod 2 ^ 32"
proof (induction data arbitrary: c)
  case (Cons b data)
  show ?case
    unfolding ic_add.simps Let_def Cons.IH
    by (simp add: unat_word_ariths unat_lifted_byte [simplified] mod_simps add.assoc split del: if_split)
qed simp

lemma ic_parity_add: "ic_parity (ic_add c data) = (ic_parity c \<noteq> odd (length data))"
  by (induction data arbitrary: c) (auto simp: Let_def)

lemma word_sum_append:
  "word_sum p (xs @ ys) = word_sum p xs + word_sum (p \<noteq> odd (length xs)) ys"
proof (induction xs arbitrary: p)
  case (Cons b xs)
  then show ?case by (cases p; cases "even (length xs)") simp_all
qed simp

lemma word_sum_bound: "word_sum p data \<le> 65280 * length data"
proof (induction data arbitrary: p)
  case (Cons b data)
  have "unat b \<le> 255" using unat_width_less(1) [of b] by linarith
  with Cons [of "\<not> p"] show ?case by (cases p) simp_all
qed simp

lemma word_sum_be16: "word_sum False (be_bytes (v :: 16 word)) = unat v"
proof -
  have "unat v div 256 mod 256 * 256 + unat v mod 256 = unat v"
    using unat_width_less(2) [of v] by (simp add: less_mult_imp_div_less)
  then show ?thesis by (simp add: be_bytes_simps unat_ucast_mod unat_drop_bit_div)
qed

section \<open>Folding\<close>

lemma ic_fold_eq: "unat (ic_fold r) = (if r = 0 then 0 else (unat r - 1) mod 65535 + 1)"
proof (induction r rule: ic_fold.induct)
  case (1 r)
  show ?case
  proof (cases "r > 0xffff")
    case True
    let ?h = "unat r div 65536" and ?l = "unat r mod 65536" and ?r' = "drop_bit 16 r + (r AND 0xffff)"
    from True have "65535 < unat r" by (simp add: word_less_nat_alt)
    then have h: "0 < ?h" by simp
    have step: "unat ?r' = ?h + ?l" by (rule unat_fold_step)
    with h have "?r' \<noteq> 0" by (metis add_is_0 less_numeral_extra(3) unat_0)
    with 1 [OF True] step have "unat (ic_fold ?r') = (?h + ?l - 1) mod 65535 + 1" by simp
    moreover have "unat r - 1 = ?h * 65535 + (?h + ?l - 1)"
      using h div_mult_mod_eq [of "unat r" 65536] by linarith
    ultimately show ?thesis
      using True by (subst ic_fold.simps) auto
  next
    case False
    then have le: "unat r \<le> 65535" by (simp add: word_le_nat_alt not_less)
    have "r \<noteq> 0 \<longrightarrow> (unat r - 1) mod 65535 + 1 = unat r"
      using le by (auto simp: unat_gt_0)
    with False show ?thesis by (subst ic_fold.simps) simp
  qed
qed

lemma ic_fold_le: "unat (ic_fold r) \<le> 65535"
  unfolding ic_fold_eq using mod_less_divisor [of 65535 "unat r - 1"] by (simp add: Suc_le_eq)

lemma ic_value_eq: "unat (ic_value c) = 65535 - unat (ic_fold (ic_sum c))"
proof -
  let ?f = "ucast (ic_fold (ic_sum c)) :: 16 word"
  have "ic_value c = NOT ?f"
    unfolding ic_value_def by (rule bit_word_eqI) (auto simp: bit_simps)
  also have "\<dots> = 0xffff - ?f" by (simp add: not_eq_complement)
  finally have v: "ic_value c = 0xffff - ?f" .
  have "unat ?f \<le> 65535" using unat_width_less(2) [of ?f] by linarith
  then have "?f \<le> 0xffff" by (simp add: word_le_nat_alt)
  then have "unat (ic_value c) = 65535 - unat ?f" unfolding v by (simp add: unat_sub)
  then show ?thesis using ic_fold_le [of "ic_sum c"] by (simp add: unat_ucast_mod)
qed

lemma ic_value_0_iff: "ic_value c = 0 \<longleftrightarrow> ic_sum c \<noteq> 0 \<and> unat (ic_sum c) mod 65535 = 0"
proof -
  have "ic_value c = 0 \<longleftrightarrow> unat (ic_value c) = 0" by (simp add: unat_eq_zero)
  also have "\<dots> \<longleftrightarrow> unat (ic_fold (ic_sum c)) = 65535"
    unfolding ic_value_eq using ic_fold_le [of "ic_sum c"] by auto
  also have "\<dots> \<longleftrightarrow> ic_sum c \<noteq> 0 \<and> (unat (ic_sum c) - 1) mod 65535 = 65534"
    by (simp add: ic_fold_eq)
  also have "\<dots> \<longleftrightarrow> ic_sum c \<noteq> 0 \<and> unat (ic_sum c) mod 65535 = 0"
  proof (rule conj_cong [OF refl])
    assume "ic_sum c \<noteq> 0"
    then have "0 < unat (ic_sum c)" by (simp add: unat_gt_0)
    then obtain m where m: "unat (ic_sum c) = Suc m" by (cases "unat (ic_sum c)") auto
    show "(unat (ic_sum c) - 1) mod 65535 = 65534 \<longleftrightarrow> unat (ic_sum c) mod 65535 = 0"
      unfolding m by (simp add: mod_Suc)
  qed
  finally show ?thesis .
qed

text \<open>\<open>checksum init data\<close> is what \<open>value()\<close> returns after \<open>add(data)\<close>.\<close>

abbreviation checksum :: "32 word \<Rightarrow> bytes \<Rightarrow> 16 word" where
  "checksum init data \<equiv> ic_value (ic_add (InternetChecksum_new init) data)"

lemma ic_sum_no_wrap:
  assumes "unat init + 65280 * length data < 2 ^ 32"
  shows "unat (ic_sum (ic_add (InternetChecksum_new init) data)) = unat init + word_sum False data"
  using assms word_sum_bound [of False data] by (simp add: unat_ic_add InternetChecksum_new_def)

lemma checksum_0_iff:
  assumes "unat init + 65280 * length data < 2 ^ 32"
  shows "checksum init data = 0 \<longleftrightarrow>
    0 < unat init + word_sum False data \<and> (unat init + word_sum False data) mod 65535 = 0"
  using ic_sum_no_wrap [OF assms] by (metis bot_nat_0.not_eq_extremum ic_value_0_iff unat_eq_zero)

lemma fold_complement:
  fixes s c :: nat
  assumes "c = 65535 - (if s = 0 then 0 else (s - 1) mod 65535 + 1)"
  shows "(s + c) mod 65535 = 0 \<and> 0 < s + c"
proof (cases s)
  case (Suc m)
  define q r where "q = m div 65535" and "r = m mod 65535"
  then have m: "m = q * 65535 + r" "r < 65535" by simp_all
  have "c = 65534 - r" using assms Suc by (simp add: r_def)
  with m Suc have "s + c = (q + 1) * 65535" by simp
  then show ?thesis by simp
qed (simp add: assms)

lemma near_multiples_equal:
  fixes a b m :: nat
  assumes "a mod m = 0" "b mod m = 0" "a < b + m" "b < a + m"
  shows "a = b"
proof -
  have "m dvd a - b" "m dvd b - a" using assms(1,2) by (auto intro: dvd_diff_nat)
  then show ?thesis using assms(3,4) by (auto dest!: dvd_imp_le)
qed

lemma checksum_fill:
  assumes "even (length pre)" and "unat init + 65280 * (length pre + length post + 2) < 2 ^ 32"
  shows "checksum init (pre @ be_bytes (checksum init (pre @ [0, 0] @ post)) @ post) = 0"
proof -
  define zero where "zero = pre @ [0, 0] @ post"
  define s where "s = unat init + word_sum False zero"
  define c where "c = checksum init zero"
  have sum: "unat (ic_sum (ic_add (InternetChecksum_new init) zero)) = s"
    unfolding s_def by (rule ic_sum_no_wrap) (use assms(2) in \<open>simp add: zero_def\<close>)
  then have "ic_sum (ic_add (InternetChecksum_new init) zero) = 0 \<longleftrightarrow> s = 0"
    by (simp flip: unat_eq_zero)
  then have "unat c = 65535 - (if s = 0 then 0 else (s - 1) mod 65535 + 1)"
    by (simp only: c_def ic_value_eq ic_fold_eq sum)
  then have mod: "(s + unat c) mod 65535 = 0 \<and> 0 < s + unat c" by (rule fold_complement)
  have "unat init + word_sum False (pre @ be_bytes c @ post) = s + unat c"
    using assms(1) word_sum_be16 [of c] by (simp add: word_sum_append s_def zero_def)
  with mod have "checksum init (pre @ be_bytes c @ post) = 0"
    using assms(2) by (subst checksum_0_iff) (simp_all add: ac_simps)
  then show ?thesis by (simp only: c_def zero_def)
qed

lemma checksum_byte_change:
  assumes "x \<noteq> y" and "unat init + 65280 * (length pre + length post + 1) < 2 ^ 32"
    and "checksum init (pre @ [x] @ post) = 0"
  shows "checksum init (pre @ [y] @ post) \<noteq> 0"
proof
  assume y: "checksum init (pre @ [y] @ post) = 0"
  define weight where "weight = (if odd (length pre) then 1 else 256 :: nat)"
  let ?rest = "unat init + word_sum False pre + word_sum (even (length pre)) post"
  have sum: "unat init + word_sum False (pre @ [z] @ post) = ?rest + unat z * weight" for z
    by (simp add: word_sum_append weight_def)
  have bound: "unat init + 65280 * length (pre @ [z] @ post) < 2 ^ 32" for z using assms(2) by simp
  have z: "(?rest + unat x * weight) mod 65535 = 0" "(?rest + unat y * weight) mod 65535 = 0"
    using assms(3) y checksum_0_iff [OF bound] unfolding sum by blast+
  have small: "unat z * weight \<le> 65280" for z :: "8 word"
  proof -
    have "unat z \<le> 255" using unat_width_less(1) [of z] by linarith
    then show ?thesis by (auto simp: weight_def)
  qed
  have "?rest + unat x * weight < (?rest + unat y * weight) + 65535"
      "?rest + unat y * weight < (?rest + unat x * weight) + 65535"
    using small [of x] small [of y] by linarith+
  with z have "?rest + unat x * weight = ?rest + unat y * weight" by (rule near_multiples_equal)
  then show False using assms(1) by (auto simp: weight_def word_unat_eq_iff split: if_splits)
qed

end
