(* ===== verification/TCP_Segment.thy ===== *)
theory TCP_Segment
  imports Internet_Checksum Wrapping_Integers
begin

text \<open>
  libsponge/tcp\_helpers/tcp\_header.hh, tcp\_header.cc, tcp\_segment.hh and tcp\_segment.cc: the TCP
  header and the TCP segment, their parsers and serializers. How they are printed is in \<open>Printing\<close>.

  A parser of the code fills in the object it is called on and returns a \<open>ParseResult\<close>; here it
  returns both. \<open>TCPSegment::parse\<close> ignores the result of \<open>TCPHeader::parse\<close> and returns the error
  flag of the \<open>NetParser\<close>.
\<close>

unbundle bit_operations_syntax

section \<open>TCPHeader\<close>

record TCPHeader =
  th_sport :: "16 word"
  th_dport :: "16 word"
  th_seqno :: WrappingInt32
  th_ackno :: WrappingInt32
  th_doff :: "8 word"
  th_urg :: bool
  th_ack :: bool
  th_psh :: bool
  th_rst :: bool
  th_syn :: bool
  th_fin :: bool
  th_win :: "16 word"
  th_cksum :: "16 word"
  th_uptr :: "16 word"

definition TCPHeader_LENGTH :: nat where
  "TCPHeader_LENGTH = 20"

definition TCPHeader_default :: TCPHeader where
  "TCPHeader_default =
     \<lparr>th_sport = 0, th_dport = 0, th_seqno = 0, th_ackno = 0, th_doff = 5,
      th_urg = False, th_ack = False, th_psh = False, th_rst = False, th_syn = False, th_fin = False,
      th_win = 0, th_cksum = 0, th_uptr = 0\<rparr>"

definition TCPHeader_parse :: "(ParseResult \<times> TCPHeader) parser" where
  "TCPHeader_parse =
     pbind NetParser_u16 (\<lambda>sport.
     pbind NetParser_u16 (\<lambda>dport.
     pbind NetParser_u32 (\<lambda>seqno.
     pbind NetParser_u32 (\<lambda>ackno.
     pbind NetParser_u8 (\<lambda>off_b.
     pbind NetParser_u8 (\<lambda>fl_b.
     pbind NetParser_u16 (\<lambda>win.
     pbind NetParser_u16 (\<lambda>cksum.
     pbind NetParser_u16 (\<lambda>uptr.
       let h = \<lparr>th_sport = sport, th_dport = dport, th_seqno = seqno, th_ackno = ackno,
                th_doff = drop_bit 4 off_b,
                th_urg = (fl_b AND 0b00100000 \<noteq> 0), th_ack = (fl_b AND 0b00010000 \<noteq> 0),
                th_psh = (fl_b AND 0b00001000 \<noteq> 0), th_rst = (fl_b AND 0b00000100 \<noteq> 0),
                th_syn = (fl_b AND 0b00000010 \<noteq> 0), th_fin = (fl_b AND 0b00000001 \<noteq> 0),
                th_win = win, th_cksum = cksum, th_uptr = uptr\<rparr>
       in if th_doff h < 5 then preturn (HeaderTooShort, h)
          else pbind (NetParser_remove_prefix (unat (th_doff h) * 4 - TCPHeader_LENGTH)) (\<lambda>_.
               pbind NetParser_get_error (\<lambda>e.
                 if e \<noteq> NoError then preturn (e, h) else preturn (NoError, h))))))))))))"

definition flags_byte :: "TCPHeader \<Rightarrow> 8 word" where
  "flags_byte h =
     (if th_urg h then 0b00100000 else 0) OR (if th_ack h then 0b00010000 else 0) OR
     (if th_psh h then 0b00001000 else 0) OR (if th_rst h then 0b00000100 else 0) OR
     (if th_syn h then 0b00000010 else 0) OR (if th_fin h then 0b00000001 else 0)"

definition TCPHeader_serialize :: "TCPHeader \<Rightarrow> bytes result" where
  "TCPHeader_serialize h =
     (if th_doff h < 5 then Inl RuntimeError
      else
        let ret = [];
            ret = NetUnparser_u16 ret (th_sport h);
            ret = NetUnparser_u16 ret (th_dport h);
            ret = NetUnparser_u32 ret (th_seqno h);
            ret = NetUnparser_u32 ret (th_ackno h);
            ret = NetUnparser_u8 ret (push_bit 4 (th_doff h));
            fl_b = flags_byte h;
            ret = NetUnparser_u8 ret fl_b;
            ret = NetUnparser_u16 ret (th_win h);
            ret = NetUnparser_u16 ret (th_cksum h);
            ret = NetUnparser_u16 ret (th_uptr h)
        in Inr (resize (4 * unat (th_doff h)) ret))"

text \<open>The comparison operator leaves out the ports and the checksum.\<close>

definition TCPHeader_eq :: "TCPHeader \<Rightarrow> TCPHeader \<Rightarrow> bool" where
  "TCPHeader_eq h h' \<longleftrightarrow>
     th_seqno h = th_seqno h' \<and> th_ackno h = th_ackno h' \<and> th_doff h = th_doff h' \<and>
     th_urg h = th_urg h' \<and> th_ack h = th_ack h' \<and> th_psh h = th_psh h' \<and> th_rst h = th_rst h' \<and>
     th_syn h = th_syn h' \<and> th_fin h = th_fin h' \<and> th_win h = th_win h' \<and> th_uptr h = th_uptr h'"

section \<open>TCPSegment\<close>

record TCPSegment =
  ts_header :: TCPHeader
  ts_payload :: Buffer

definition TCPSegment_default :: TCPSegment where
  "TCPSegment_default = \<lparr>ts_header = TCPHeader_default, ts_payload = Buffer_default\<rparr>"

definition TCPSegment_parse :: "TCPSegment \<Rightarrow> Buffer \<Rightarrow> 32 word \<Rightarrow> (ParseResult \<times> TCPSegment) result" where
  "TCPSegment_parse seg buffer datagram_layer_checksum =
     (let check = ic_add (InternetChecksum_new datagram_layer_checksum) (Buffer_str buffer) in
      if ic_value check \<noteq> 0 then Inr (BadChecksum, seg)
      else result_bind (TCPHeader_parse (NetParser_new buffer)) (\<lambda>((_, h), p).
           Inr (np_error p, seg\<lparr>ts_header := h, ts_payload := np_buffer p\<rparr>)))"

definition length_in_sequence_space :: "TCPSegment \<Rightarrow> size_t" where
  "length_in_sequence_space seg =
     add64 (add64 (length (Buffer_str (ts_payload seg))) (if th_syn (ts_header seg) then 1 else 0))
       (if th_fin (ts_header seg) then 1 else 0)"

definition TCPSegment_serialize :: "TCPSegment \<Rightarrow> 32 word \<Rightarrow> BufferList result" where
  "TCPSegment_serialize seg datagram_layer_checksum =
     (let header_out = (ts_header seg)\<lparr>th_cksum := 0\<rparr>;
          check = InternetChecksum_new datagram_layer_checksum
      in result_bind (TCPHeader_serialize header_out) (\<lambda>hdr0.
         let check = ic_add (ic_add check hdr0) (Buffer_str (ts_payload seg));
             header_out = header_out\<lparr>th_cksum := ic_value check\<rparr>
         in result_bind (TCPHeader_serialize header_out) (\<lambda>hdr.
            Inr (BufferList_append (BufferList_append [] (BufferList_of_string hdr))
                   (BufferList_of_Buffer (ts_payload seg))))))"

section \<open>Header round trip\<close>

lemma flags_byte_bits:
  "flags_byte h AND 0b00100000 \<noteq> 0 \<longleftrightarrow> th_urg h" "flags_byte h AND 0b00010000 \<noteq> 0 \<longleftrightarrow> th_ack h"
  "flags_byte h AND 0b00001000 \<noteq> 0 \<longleftrightarrow> th_psh h" "flags_byte h AND 0b00000100 \<noteq> 0 \<longleftrightarrow> th_rst h"
  "flags_byte h AND 0b00000010 \<noteq> 0 \<longleftrightarrow> th_syn h" "flags_byte h AND 0b00000001 \<noteq> 0 \<longleftrightarrow> th_fin h"
  by (simp_all add: flags_byte_def)

text \<open>The fixed part of a serialized header, and the padding up to the advertised length.\<close>

definition TCPHeader_fields :: "TCPHeader \<Rightarrow> bytes" where
  "TCPHeader_fields h =
     be_bytes (th_sport h) @ be_bytes (th_dport h) @ be_bytes (th_seqno h) @ be_bytes (th_ackno h) @
     be_bytes (push_bit 4 (th_doff h)) @ be_bytes (flags_byte h) @ be_bytes (th_win h) @
     be_bytes (th_cksum h) @ be_bytes (th_uptr h)"

lemma length_TCPHeader_fields [simp]: "length (TCPHeader_fields h) = 20"
  by (simp add: TCPHeader_fields_def)

lemma TCPHeader_serialize_eq:
  assumes "5 \<le> th_doff h"
  shows "TCPHeader_serialize h = Inr (TCPHeader_fields h @ replicate (4 * unat (th_doff h) - 20) 0)"
proof -
  have doff: "5 \<le> unat (th_doff h)" using assms by (simp add: word_le_nat_alt)
  have "TCPHeader_serialize h = Inr (resize (4 * unat (th_doff h)) (TCPHeader_fields h))"
    using assms by (simp add: TCPHeader_serialize_def TCPHeader_fields_def Let_def not_less)
  then show ?thesis using doff by (simp add: resize_def)
qed

lemma TCPHeader_collapse:
  "\<lparr>th_sport = th_sport h, th_dport = th_dport h, th_seqno = th_seqno h, th_ackno = th_ackno h,
    th_doff = th_doff h, th_urg = th_urg h, th_ack = th_ack h, th_psh = th_psh h, th_rst = th_rst h,
    th_syn = th_syn h, th_fin = th_fin h, th_win = th_win h, th_cksum = th_cksum h, th_uptr = th_uptr h\<rparr> = h"
  by simp

lemma parses_TCPHeader:
  assumes "5 \<le> th_doff h" and "th_doff h < 16"
  shows "parses TCPHeader_parse (TCPHeader_fields h @ replicate (4 * unat (th_doff h) - 20) 0) (NoError, h)"
proof -
  have dp: "drop_bit 4 (push_bit 4 (th_doff h)) = th_doff h" by (rule drop_push_4 [OF assms(2)])
  let ?pad = "replicate (4 * unat (th_doff h) - 20) (0 :: byte)"
  have "parses (pbind (NetParser_remove_prefix (unat (th_doff h) * 4 - TCPHeader_LENGTH)) (\<lambda>_.
      pbind NetParser_get_error (\<lambda>e. if e \<noteq> NoError then preturn (e, h) else preturn (NoError, h))))
      (?pad @ [] @ []) (NoError, h)"
    by (rule parses_bind parses_rules | simp add: TCPHeader_LENGTH_def)+
  then have tail: "parses (if th_doff h < 5 then preturn (HeaderTooShort, h) else
      pbind (NetParser_remove_prefix (unat (th_doff h) * 4 - TCPHeader_LENGTH)) (\<lambda>_.
      pbind NetParser_get_error (\<lambda>e. if e \<noteq> NoError then preturn (e, h) else preturn (NoError, h))))
      ?pad (NoError, h)"
    using assms(1) by (simp add: not_less [symmetric])
  show ?thesis
    unfolding TCPHeader_parse_def TCPHeader_fields_def append_assoc
    by (rule parses_bind, rule parses_rules)+ (use tail in \<open>simp add: dp flags_byte_bits Let_def TCPHeader_collapse\<close>)
qed

lemma total_TCPHeader_parse [total]: "parser_total TCPHeader_parse"
  unfolding TCPHeader_parse_def by (intro total)

section \<open>Segments on the wire\<close>

text \<open>The bytes of a serialized segment.\<close>

definition wire_bytes :: "TCPHeader \<Rightarrow> bytes \<Rightarrow> bytes" where
  "wire_bytes h data = TCPHeader_fields h @ replicate (4 * unat (th_doff h) - 20) 0 @ data"

lemma length_wire_bytes: "5 \<le> th_doff h \<Longrightarrow> length (wire_bytes h data) = 4 * unat (th_doff h) + length data"
  by (simp add: wire_bytes_def word_le_nat_alt)

text \<open>The checksum field stands at an even position.\<close>

lemma wire_bytes_split:
  "wire_bytes h data =
     (be_bytes (th_sport h) @ be_bytes (th_dport h) @ be_bytes (th_seqno h) @ be_bytes (th_ackno h) @
      be_bytes (push_bit 4 (th_doff h)) @ be_bytes (flags_byte h) @ be_bytes (th_win h)) @
     be_bytes (th_cksum h) @
     (be_bytes (th_uptr h) @ replicate (4 * unat (th_doff h) - 20) 0 @ data)"
  by (simp add: wire_bytes_def TCPHeader_fields_def)

lemma checksum_wire_bytes:
  assumes "5 \<le> th_doff h" and "unat init + 65280 * length (wire_bytes h data) < 2 ^ 32"
  shows "checksum init (wire_bytes (h\<lparr>th_cksum := checksum init (wire_bytes (h\<lparr>th_cksum := 0\<rparr>) data)\<rparr>) data) = 0"
proof -
  let ?pre = "be_bytes (th_sport h) @ be_bytes (th_dport h) @ be_bytes (th_seqno h) @ be_bytes (th_ackno h) @
      be_bytes (push_bit 4 (th_doff h)) @ be_bytes (flags_byte h) @ be_bytes (th_win h)"
  let ?post = "be_bytes (th_uptr h) @ replicate (4 * unat (th_doff h) - 20) 0 @ data"
  have fl: "flags_byte (h\<lparr>th_cksum := c\<rparr>) = flags_byte h" for c by (simp add: flags_byte_def)
  have w: "wire_bytes (h\<lparr>th_cksum := c\<rparr>) data = ?pre @ be_bytes c @ ?post" for c
    unfolding wire_bytes_split by (simp add: fl)
  have "length (wire_bytes h data) = length ?pre + length ?post + 2"
    unfolding wire_bytes_split by simp
  with assms(2) have "unat init + 65280 * (length ?pre + length ?post + 2) < 2 ^ 32" by simp
  moreover have "even (length ?pre)" by simp
  moreover have "be_bytes (0 :: 16 word) = [0, 0]" by (simp add: be_bytes_simps)
  ultimately show ?thesis using checksum_fill [of ?pre init ?post] unfolding w by simp
qed

text \<open>The header a segment leaves with.\<close>

definition header_sent :: "TCPSegment \<Rightarrow> 32 word \<Rightarrow> TCPHeader" where
  "header_sent seg init =
     (ts_header seg)\<lparr>th_cksum := checksum init (wire_bytes ((ts_header seg)\<lparr>th_cksum := 0\<rparr>) (Buffer_str (ts_payload seg)))\<rparr>"

lemma TCPSegment_serialize_eq:
  assumes "5 \<le> th_doff (ts_header seg)" and "Buffer_wf (ts_payload seg)"
  shows "\<exists>bl. TCPSegment_serialize seg init = Inr bl \<and>
    BufferList_concatenate bl = wire_bytes (header_sent seg init) (Buffer_str (ts_payload seg))"
proof -
  let ?h = "ts_header seg" and ?data = "Buffer_str (ts_payload seg)"
  let ?hdr = "\<lambda>h. TCPHeader_fields h @ replicate (4 * unat (th_doff h) - 20) 0"
  have c: "ic_value (ic_add (ic_add (InternetChecksum_new init) (?hdr (?h\<lparr>th_cksum := 0\<rparr>))) ?data) =
      checksum init (wire_bytes (?h\<lparr>th_cksum := 0\<rparr>) ?data)"
    by (simp only: wire_bytes_def append_assoc [symmetric] ic_add_append)
  have "4 * unat (th_doff ?h) \<le> 1020" using unat_width_less(1) [of "th_doff ?h"] by linarith
  then have "length (?hdr (header_sent seg init)) < SIZE_MOD" by (simp add: header_sent_def SIZE_MOD_def)
  moreover have "TCPSegment_serialize seg init =
      Inr (BufferList_append (BufferList_append [] (BufferList_of_string (?hdr (header_sent seg init))))
             (BufferList_of_Buffer (ts_payload seg)))"
    using assms(1) c
    by (simp add: TCPSegment_serialize_def TCPHeader_serialize_eq header_sent_def Let_def)
  ultimately show ?thesis
    by (simp add: BufferList_append_def BufferList_of_Buffer_def wire_bytes_def)
qed

lemma checksum_sent:
  assumes "5 \<le> th_doff (ts_header seg)"
    and "unat init + 65280 * (4 * unat (th_doff (ts_header seg)) + length (Buffer_str (ts_payload seg))) < 2 ^ 32"
  shows "checksum init (wire_bytes (header_sent seg init) (Buffer_str (ts_payload seg))) = 0"
  unfolding header_sent_def
  by (rule checksum_wire_bytes) (use assms length_wire_bytes in simp_all)

lemma TCPSegment_parse_wire:
  assumes "5 \<le> th_doff h" and "th_doff h < 16" and "checksum init (wire_bytes h data) = 0"
    and "Buffer_wf b" and "Buffer_str b = wire_bytes h data"
  shows "\<exists>b'. TCPSegment_parse seg0 b init = Inr (NoError, seg0\<lparr>ts_header := h, ts_payload := b'\<rparr>) \<and>
    Buffer_str b' = data \<and> Buffer_wf b'"
proof -
  have "feeds (NetParser_new b) ((TCPHeader_fields h @ replicate (4 * unat (th_doff h) - 20) 0) @ data)"
    using feeds_new [OF assms(4)] assms(5) by (simp add: wire_bytes_def)
  from parsesD [OF parses_TCPHeader [OF assms(1,2)] this] obtain p' where
    "TCPHeader_parse (NetParser_new b) = Inr ((NoError, h), p')" "feeds p' data" by blast
  then show ?thesis
    using assms(3,5) by (intro exI [of _ "np_buffer p'"]) (simp add: TCPSegment_parse_def feeds_def)
qed

section \<open>Properties\<close>

text \<open>
  C32. Round trip of TCP segments: serializing a segment whose header length is legal and parsing
  the bytes again, with the same pseudo-header sum, gives the header (with the computed checksum)
  and the payload back. The bound keeps the 32-bit checksum from wrapping; every segment that fits
  an IPv4 datagram meets it.
\<close>

theorem tcp_segment_roundtrip:
  assumes "5 \<le> th_doff (ts_header seg)" and "th_doff (ts_header seg) < 16" and "Buffer_wf (ts_payload seg)"
    and "unat init + 65280 * (4 * unat (th_doff (ts_header seg)) + length (Buffer_str (ts_payload seg))) < 2 ^ 32"
  shows "\<exists>bl seg'. TCPSegment_serialize seg init = Inr bl \<and>
    TCPSegment_parse seg0 (Buffer_of_string (BufferList_concatenate bl)) init = Inr (NoError, seg') \<and>
    (ts_header seg')\<lparr>th_cksum := th_cksum (ts_header seg)\<rparr> = ts_header seg \<and>
    Buffer_str (ts_payload seg') = Buffer_str (ts_payload seg)"
proof -
  let ?h = "header_sent seg init" and ?data = "Buffer_str (ts_payload seg)"
  obtain bl where bl: "TCPSegment_serialize seg init = Inr bl" "BufferList_concatenate bl = wire_bytes ?h ?data"
    using TCPSegment_serialize_eq [OF assms(1,3), of init] by blast
  have h: "5 \<le> th_doff ?h" "th_doff ?h < 16" using assms(1,2) by (simp_all add: header_sent_def)
  from h(1) have "length (wire_bytes ?h ?data) < SIZE_MOD"
    using assms(4) by (simp add: length_wire_bytes header_sent_def SIZE_MOD_def)
  then have "Buffer_wf (Buffer_of_string (wire_bytes ?h ?data))"
    "Buffer_str (Buffer_of_string (wire_bytes ?h ?data)) = wire_bytes ?h ?data" by simp_all
  from TCPSegment_parse_wire [OF h checksum_sent [OF assms(1,4)] this] obtain b' where
    "TCPSegment_parse seg0 (Buffer_of_string (wire_bytes ?h ?data)) init =
       Inr (NoError, seg0\<lparr>ts_header := ?h, ts_payload := b'\<rparr>)" "Buffer_str b' = ?data" by blast
  with bl show ?thesis
    by (intro exI [of _ bl] exI [of _ "seg0\<lparr>ts_header := ?h, ts_payload := b'\<rparr>"]) (simp add: header_sent_def)
qed

theorem tcp_segment_roundtrip_witness:
  "\<exists>bl seg'. TCPSegment_serialize (TCPSegment_default\<lparr>ts_payload := Buffer_of_string [104, 105]\<rparr>) 7 = Inr bl \<and>
    TCPSegment_parse TCPSegment_default (Buffer_of_string (BufferList_concatenate bl)) 7 = Inr (NoError, seg') \<and>
    Buffer_str (ts_payload seg') = [104, 105]"
  using tcp_segment_roundtrip [of "TCPSegment_default\<lparr>ts_payload := Buffer_of_string [104, 105]\<rparr>" 7 TCPSegment_default]
  by (auto simp: TCPSegment_default_def TCPHeader_default_def SIZE_MOD_def)

text \<open>
  C33. The checksum protects every byte: if any one byte of a serialized segment arrives changed, the
  parser reports a bad checksum and leaves the segment object as it was.
\<close>

theorem tcp_segment_corruption_detected:
  assumes "5 \<le> th_doff (ts_header seg)" and "Buffer_wf (ts_payload seg)"
    and "unat init + 65280 * (4 * unat (th_doff (ts_header seg)) + length (Buffer_str (ts_payload seg))) < 2 ^ 32"
    and "TCPSegment_serialize seg init = Inr bl" and "i < length (BufferList_concatenate bl)"
    and "x \<noteq> BufferList_concatenate bl ! i"
  shows "TCPSegment_parse seg0 (Buffer_of_string ((BufferList_concatenate bl)[i := x])) init = Inr (BadChecksum, seg0)"
proof -
  define bs where "bs = BufferList_concatenate bl"
  have bs: "bs = wire_bytes (header_sent seg init) (Buffer_str (ts_payload seg))"
    using TCPSegment_serialize_eq [OF assms(1,2), of init] assms(4) by (auto simp: bs_def)
  have ok: "checksum init bs = 0" unfolding bs by (rule checksum_sent [OF assms(1,3)])
  have len: "length bs = 4 * unat (th_doff (ts_header seg)) + length (Buffer_str (ts_payload seg))"
    unfolding bs using assms(1) by (simp add: length_wire_bytes header_sent_def)
  have i: "i < length bs" "x \<noteq> bs ! i" using assms(5,6) by (simp_all add: bs_def)
  have split: "bs = take i bs @ [bs ! i] @ drop (Suc i) bs" "bs[i := x] = take i bs @ [x] @ drop (Suc i) bs"
    using i(1) by (simp_all add: id_take_nth_drop [symmetric] upd_conv_take_nth_drop)
  have "checksum init (take i bs @ [x] @ drop (Suc i) bs) \<noteq> 0"
  proof (rule checksum_byte_change)
    show "bs ! i \<noteq> x" using i(2) by simp
    show "checksum init (take i bs @ [bs ! i] @ drop (Suc i) bs) = 0" using ok split(1) by simp
    show "unat init + 65280 * (length (take i bs) + length (drop (Suc i) bs) + 1) < 2 ^ 32"
      using assms(3) i(1) len by simp
  qed
  then have "checksum init (bs[i := x]) \<noteq> 0" unfolding split(2) .
  moreover have "length (bs[i := x]) < SIZE_MOD" using assms(3) len by (simp add: SIZE_MOD_def)
  ultimately show ?thesis by (simp add: TCPSegment_parse_def bs_def)
qed

theorem tcp_segment_corruption_detected_witness:
  "\<exists>bl. TCPSegment_serialize (TCPSegment_default\<lparr>ts_payload := Buffer_of_string [104, 105]\<rparr>) 7 = Inr bl \<and>
    TCPSegment_parse TCPSegment_default (Buffer_of_string ((BufferList_concatenate bl)[21 := 9])) 7 =
      Inr (BadChecksum, TCPSegment_default)"
proof -
  let ?seg = "TCPSegment_default\<lparr>ts_payload := Buffer_of_string [104, 105]\<rparr>"
  have seg: "5 \<le> th_doff (ts_header ?seg)" "Buffer_wf (ts_payload ?seg)"
      "unat (7 :: 32 word) + 65280 * (4 * unat (th_doff (ts_header ?seg)) + length (Buffer_str (ts_payload ?seg))) < 2 ^ 32"
    by (simp_all add: TCPSegment_default_def TCPHeader_default_def SIZE_MOD_def)
  then obtain bl where bl: "TCPSegment_serialize ?seg 7 = Inr bl"
      "BufferList_concatenate bl = wire_bytes (header_sent ?seg 7) (Buffer_str (ts_payload ?seg))"
    using TCPSegment_serialize_eq [of ?seg 7] by blast
  have w: "wire_bytes (header_sent ?seg 7) (Buffer_str (ts_payload ?seg)) = TCPHeader_fields (header_sent ?seg 7) @ [104, 105]"
    by (simp add: wire_bytes_def header_sent_def TCPSegment_default_def TCPHeader_default_def SIZE_MOD_def)
  have "21 < length (BufferList_concatenate bl)" "9 \<noteq> BufferList_concatenate bl ! 21"
    unfolding bl(2) w by (simp_all add: nth_append)
  with tcp_segment_corruption_detected [OF seg bl(1), of 21 9 TCPSegment_default] bl(1) show ?thesis by blast
qed

text \<open>
  A data offset below the minimum is detected by \<open>TCPHeader::parse\<close> but not by
  \<open>TCPSegment::parse\<close>, which ignores that result: a segment with a valid checksum whose header
  claims fewer than five words is accepted without error.
\<close>

lemma tcp_short_doff_accepted:
  assumes "th_doff h < 5" and "checksum init (wire_bytes h data) = 0" and "length data + 20 < SIZE_MOD"
  shows "\<exists>b p. TCPHeader_parse (NetParser_new (Buffer_of_string (wire_bytes h data))) = Inr ((HeaderTooShort, h), p) \<and>
    TCPSegment_parse seg0 (Buffer_of_string (wire_bytes h data)) init =
      Inr (NoError, seg0\<lparr>ts_header := h, ts_payload := b\<rparr>) \<and> Buffer_str b = data"
proof -
  have doff: "unat (th_doff h) < 5" using assms(1) by (simp add: word_less_nat_alt)
  have dp: "drop_bit 4 (push_bit 4 (th_doff h)) = th_doff h"
    using doff by (intro drop_push_4) (simp add: word_less_nat_alt)
  have fields: "TCPHeader_fields h = be_bytes (th_sport h) @ be_bytes (th_dport h) @ be_bytes (th_seqno h) @
      be_bytes (th_ackno h) @ be_bytes (push_bit 4 (th_doff h)) @ be_bytes (flags_byte h) @ be_bytes (th_win h) @
      be_bytes (th_cksum h) @ be_bytes (th_uptr h) @ []"
    by (simp add: TCPHeader_fields_def)
  have "parses TCPHeader_parse (TCPHeader_fields h) (HeaderTooShort, h)"
    unfolding TCPHeader_parse_def fields
    by (rule parses_bind, rule parses_rules)+
      (use assms(1) parses_return in \<open>simp add: dp flags_byte_bits Let_def TCPHeader_collapse\<close>)
  moreover have wire: "wire_bytes h data = TCPHeader_fields h @ data" using doff by (simp add: wire_bytes_def)
  moreover have wf: "Buffer_wf (Buffer_of_string (wire_bytes h data))"
      "Buffer_str (Buffer_of_string (wire_bytes h data)) = wire_bytes h data"
    using assms(3) by (simp_all add: wire)
  moreover have "feeds (NetParser_new (Buffer_of_string (wire_bytes h data))) (wire_bytes h data)"
    using feeds_new [OF wf(1)] wf(2) by simp
  ultimately obtain p where p: "TCPHeader_parse (NetParser_new (Buffer_of_string (wire_bytes h data))) =
      Inr ((HeaderTooShort, h), p)" "feeds p data"
    using parsesD [of TCPHeader_parse "TCPHeader_fields h"] by metis
  then show ?thesis
    using assms(2) wf(2)
    by (intro exI [of _ "np_buffer p"] exI [of _ p]) (simp add: TCPSegment_parse_def feeds_def)
qed

lemma tcp_short_doff_accepted_witness:
  "\<exists>b p. TCPSegment_parse TCPSegment_default
      (Buffer_of_string (wire_bytes (TCPHeader_default\<lparr>th_doff := 0, th_cksum := 0xffff\<rparr>) [])) 0 =
    Inr (NoError, TCPSegment_default\<lparr>ts_header := TCPHeader_default\<lparr>th_doff := 0, th_cksum := 0xffff\<rparr>, ts_payload := b\<rparr>)"
proof -
  let ?h = "TCPHeader_default\<lparr>th_doff := 0, th_cksum := 0xffff\<rparr>"
  have "checksum 0 (wire_bytes ?h []) = 0"
    by (subst checksum_0_iff)
      (simp_all add: wire_bytes_def TCPHeader_fields_def TCPHeader_default_def flags_byte_def be_bytes_simps)
  with tcp_short_doff_accepted [of ?h 0 "[]" TCPSegment_default] show ?thesis
    by (auto simp: SIZE_MOD_def)
qed

text \<open>
  Parsing is total: on every buffer, whatever it contains, \<open>TCPSegment::parse\<close> returns a result
  and throws nothing.
\<close>

lemma tcp_segment_parse_total:
  assumes "Buffer_wf b"
  shows "\<exists>res seg'. TCPSegment_parse seg b init = Inr (res, seg')"
proof -
  have "np_wf (NetParser_new b)" using assms by (simp add: NetParser_new_def)
  from parser_totalD [OF total_TCPHeader_parse this] show ?thesis
    by (auto simp: TCPSegment_parse_def Let_def)
qed

lemma tcp_segment_parse_total_witness:
  "\<exists>res seg'. TCPSegment_parse TCPSegment_default (Buffer_of_string [1, 2, 3]) 0 = Inr (res, seg')"
  by (rule tcp_segment_parse_total) (simp add: SIZE_MOD_def)

end
