(* ===== verification/TCP_Receiver.thy ===== *)
theory TCP_Receiver
  imports TCP_Segment Reassembler_Contract
begin

text \<open>
  libsponge/tcp\_receiver.hh and tcp\_receiver.cc: the receiving half of a connection. It keeps the
  sender's initial sequence number once a SYN has arrived, translates sequence numbers to stream
  indices and feeds the reassembler (its Release build).

  \<open>segment_of S isn a seg\<close> says that \<open>seg\<close> is a segment a sender of the stream \<open>S\<close> with initial
  sequence number \<open>isn\<close> may emit for the absolute sequence number \<open>a\<close>. The runs bound the stream by
  \<open>2 ^ 31 - 3\<close> bytes, so that every such number is decoded from any checkpoint; single steps are
  stated for any position within half a cycle.
\<close>

section \<open>State and operations\<close>

record TCPReceiver =
  tr_reassembler :: StreamReassembler
  tr_capacity :: size_t
  tr_sender_isn :: "WrappingInt32 option"

definition TCPReceiver_new :: "size_t \<Rightarrow> TCPReceiver" where
  "TCPReceiver_new capacity =
     \<lparr>tr_reassembler = StreamReassembler_new capacity, tr_capacity = capacity, tr_sender_isn = None\<rparr>"

abbreviation tr_stream_out :: "TCPReceiver \<Rightarrow> ByteStream" where
  "tr_stream_out r \<equiv> sr_output (tr_reassembler r)"

definition ackno :: "TCPReceiver \<Rightarrow> WrappingInt32 option" where
  "ackno r =
     (case tr_sender_isn r of
        None \<Rightarrow> None
      | Some isn \<Rightarrow>
          let stream_index = bytes_written (tr_stream_out r);
              abs_seqno = add64 stream_index 1;
              abs_seqno = (if input_ended (tr_stream_out r) then add64 abs_seqno 1 else abs_seqno)
          in Some (wrap abs_seqno isn))"

definition window_size :: "TCPReceiver \<Rightarrow> size_t" where
  "window_size r = remaining_capacity (tr_stream_out r)"

definition tr_unassembled_bytes :: "TCPReceiver \<Rightarrow> size_t" where
  "tr_unassembled_bytes r = unassembled_bytes (tr_reassembler r)"

definition in_listen :: "TCPReceiver \<Rightarrow> bool" where
  "in_listen r \<longleftrightarrow> ackno r = None"

definition in_syn_recv :: "TCPReceiver \<Rightarrow> bool" where
  "in_syn_recv r \<longleftrightarrow> ackno r \<noteq> None \<and> \<not> input_ended (tr_stream_out r)"

definition in_fin_recv :: "TCPReceiver \<Rightarrow> bool" where
  "in_fin_recv r \<longleftrightarrow> input_ended (tr_stream_out r)"

definition tr_segment_received :: "TCPReceiver \<Rightarrow> TCPSegment \<Rightarrow> TCPReceiver result" where
  "tr_segment_received r seg =
     (let seqno = th_seqno (ts_header seg); syn = th_syn (ts_header seg); fin = th_fin (ts_header seg);
          payload = ts_payload seg;
          r1 = (if syn then r\<lparr>tr_sender_isn := Some seqno\<rparr> else r)
      in if in_syn_recv r1 then
           let abs_seqno = unwrap seqno (the (tr_sender_isn r1)) (bytes_written (tr_stream_out r1)) in
           if abs_seqno = 0 \<and> \<not> syn then Inr r1
           else
             let abs_seqno = (if abs_seqno = 0 then 1 else abs_seqno);
                 stream_index = sub64 abs_seqno 1
             in result_bind (push_substring True (tr_reassembler r1) (Buffer_copy payload) stream_index fin)
                  (\<lambda>re. Inr (r1\<lparr>tr_reassembler := re\<rparr>))
         else Inr r1)"

section \<open>Segments of a stream\<close>

definition segment_of :: "bytes \<Rightarrow> WrappingInt32 \<Rightarrow> nat \<Rightarrow> TCPSegment \<Rightarrow> bool" where
  "segment_of S isn a seg \<longleftrightarrow>
     th_seqno (ts_header seg) = wrap a isn \<and> (th_syn (ts_header seg) \<longleftrightarrow> a = 0) \<and>
     op_of_stream S (Push (Buffer_str (ts_payload seg)) (a - 1) (th_fin (ts_header seg)))"

lemma segment_of_range: "segment_of S isn a seg \<Longrightarrow> a \<le> length S + 2"
  by (auto simp: segment_of_def)

text \<open>A listening receiver drops what is not a SYN.\<close>

lemma listen_drops:
  assumes "tr_sender_isn r = None" and "\<not> th_syn (ts_header seg)"
  shows "tr_segment_received r seg = Inr r"
  using assms by (simp add: tr_segment_received_def in_syn_recv_def ackno_def Let_def)

text \<open>Otherwise a segment of the stream becomes one push at its index.\<close>

lemma receive_is_push:
  assumes seg: "th_seqno (ts_header seg) = wrap a isn" "th_syn (ts_header seg) \<longleftrightarrow> a = 0"
    and isn: "a = 0 \<or> tr_sender_isn r = Some isn"
    and dec: "unwrap (wrap a isn) isn (bs_bytes_written (tr_stream_out r)) = a" and a: "a < SIZE_MOD"
  shows "tr_segment_received r seg =
    result_bind (push_substring True (tr_reassembler r) (Buffer_str (ts_payload seg)) (a - 1) (th_fin (ts_header seg)))
      (\<lambda>re. Inr (r\<lparr>tr_sender_isn := Some isn, tr_reassembler := re\<rparr>))"
proof -
  have w0: "wrap 0 isn = isn" by (simp add: wrap_eq)
  have r1: "(if th_syn (ts_header seg) then r\<lparr>tr_sender_isn := Some (th_seqno (ts_header seg))\<rparr> else r) =
      r\<lparr>tr_sender_isn := Some isn\<rparr>"
    using seg isn w0 by auto
  show ?thesis
  proof (cases "bs_input_ended (tr_stream_out r)")
    case True
    then show ?thesis
      unfolding tr_segment_received_def Let_def r1
      by (simp add: in_syn_recv_def input_ended_def push_ended)
  next
    case False
    have "in_syn_recv (r\<lparr>tr_sender_isn := Some isn\<rparr>)"
      using False by (simp add: in_syn_recv_def ackno_def input_ended_def)
    moreover have "sub64 (if a = 0 then 1 else a) 1 = a - 1"
      using a by (auto simp: size_arith SIZE_MOD_def)
    ultimately show ?thesis
      unfolding tr_segment_received_def Let_def r1
      using dec seg by (auto simp: bytes_written_def Buffer_copy_def)
  qed
qed

section \<open>Runs\<close>

datatype tr_op = Receive TCPSegment | Read_out size_t

fun tr_run :: "tr_op list \<Rightarrow> bytes \<Rightarrow> TCPReceiver \<Rightarrow> (bytes \<times> TCPReceiver) result" where
  "tr_run [] del r = Inr (del, r)"
| "tr_run (Receive seg # ops) del r = result_bind (tr_segment_received r seg) (\<lambda>r'. tr_run ops del r')"
| "tr_run (Read_out n # ops) del r =
     result_bind (sr_consume (tr_reassembler r) n) (\<lambda>(x, re). tr_run ops (del @ x) (r\<lparr>tr_reassembler := re\<rparr>))"

fun tr_op_of :: "bytes \<Rightarrow> WrappingInt32 \<Rightarrow> tr_op \<Rightarrow> bool" where
  "tr_op_of S isn (Receive seg) \<longleftrightarrow> (\<exists>a. segment_of S isn a seg)"
| "tr_op_of S isn (Read_out n) \<longleftrightarrow> True"

definition tr_run_inv :: "bytes \<Rightarrow> WrappingInt32 \<Rightarrow> TCPReceiver \<Rightarrow> bool" where
  "tr_run_inv S isn r \<longleftrightarrow> run_inv S (tr_reassembler r) \<and> (tr_sender_isn r = None \<or> tr_sender_isn r = Some isn)"

lemma decode_near:
  assumes "length S + 3 \<le> 2 ^ 31" "segment_of S isn a seg" "run_inv S re"
  shows "unwrap (wrap a isn) isn (bs_bytes_written (sr_output re)) = a" "a < SIZE_MOD"
proof -
  have bw: "bs_bytes_written (sr_output re) \<le> length S" using assms(3) by (simp add: run_inv_def sr_agrees_def)
  have a: "a \<le> length S + 2" using assms(2) by (rule segment_of_range)
  show "unwrap (wrap a isn) isn (bs_bytes_written (sr_output re)) = a"
    using assms(1) bw a by (intro seqno.dec_enc) (simp_all add: SIZE_MOD_def)
  show "a < SIZE_MOD" using a assms(1) by (simp add: SIZE_MOD_def)
qed

lemma receive_cases:
  assumes "length S + 3 \<le> 2 ^ 31" "segment_of S isn a seg" "tr_run_inv S isn r"
  obtains (dropped) "tr_sender_isn r = None" "a \<noteq> 0" "tr_segment_received r seg = Inr r"
    | (pushed) "tr_segment_received r seg =
        result_bind (push_substring True (tr_reassembler r) (Buffer_str (ts_payload seg)) (a - 1) (th_fin (ts_header seg)))
          (\<lambda>re. Inr (r\<lparr>tr_sender_isn := Some isn, tr_reassembler := re\<rparr>))"
proof -
  have inv: "run_inv S (tr_reassembler r)" using assms(3) by (simp add: tr_run_inv_def)
  note dec = decode_near [OF assms(1,2) inv]
  have seg: "th_seqno (ts_header seg) = wrap a isn" "th_syn (ts_header seg) \<longleftrightarrow> a = 0"
    using assms(2) by (simp_all add: segment_of_def)
  show thesis
  proof (cases "a = 0 \<or> tr_sender_isn r = Some isn")
    case True
    from pushed [OF receive_is_push [OF seg True dec]] show thesis .
  next
    case False
    with assms(3) have none: "tr_sender_isn r = None" by (simp add: tr_run_inv_def)
    from dropped [OF none _ listen_drops [OF none]] False seg(2) show thesis by blast
  qed
qed

lemma tr_run_invariant:
  assumes "length S + 3 \<le> 2 ^ 31" "tr_run_inv S isn r" "list_all (tr_op_of S isn) ops"
    "del = take (bs_bytes_read (tr_stream_out r)) S" "tr_run ops del r = Inr (del', r')"
  shows "tr_run_inv S isn r' \<and> del' = take (bs_bytes_read (tr_stream_out r')) S \<and>
    sr_capacity (tr_reassembler r') = sr_capacity (tr_reassembler r)"
  using assms(2-5)
proof (induction ops del r rule: tr_run.induct)
  case (2 seg ops del r)
  from 2(5) obtain r1 where r1: "tr_segment_received r seg = Inr r1" "tr_run ops del r1 = Inr (del', r')"
    by (auto simp: result_bind_Inr_iff)
  from 2(3) obtain a where a: "segment_of S isn a seg" and ops: "list_all (tr_op_of S isn) ops" by auto
  have "tr_run_inv S isn r1 \<and> bs_bytes_read (tr_stream_out r1) = bs_bytes_read (tr_stream_out r) \<and>
      sr_capacity (tr_reassembler r1) = sr_capacity (tr_reassembler r)"
    using assms(1) a 2(2)
  proof (cases rule: receive_cases)
    case dropped
    with r1(1) 2(2) show ?thesis by simp
  next
    case pushed
    then obtain re where re: "push_substring True (tr_reassembler r) (Buffer_str (ts_payload seg)) (a - 1)
        (th_fin (ts_header seg)) = Inr re" "r1 = r\<lparr>tr_sender_isn := Some isn, tr_reassembler := re\<rparr>"
      using r1(1) [unfolded pushed] by (auto simp: result_bind_Inr_iff)
    have op: "op_of_stream S (Push (Buffer_str (ts_payload seg)) (a - 1) (th_fin (ts_header seg)))"
      using a by (simp add: segment_of_def)
    have "run_inv S (tr_reassembler r)" using 2(2) by (simp add: tr_run_inv_def)
    from run_push_step [OF this op re(1)] show ?thesis by (simp add: re(2) tr_run_inv_def)
  qed
  with 2(1) [OF r1(1) _ ops _ r1(2)] 2(4) show ?case by simp
next
  case (3 n ops del r)
  from 3(5) obtain x re where re: "sr_consume (tr_reassembler r) n = Inr (x, re)"
      "tr_run ops (del @ x) (r\<lparr>tr_reassembler := re\<rparr>) = Inr (del', r')"
    by (auto simp: result_bind_Inr_iff)
  have inv: "run_inv S (tr_reassembler r)" using 3(2) by (simp add: tr_run_inv_def)
  note st = run_consume_step [OF inv re(1)]
  from 3(1) [OF re(1) refl _ _ _ re(2)] 3(2-4) st show ?case by (simp add: tr_run_inv_def)
qed simp

text \<open>Segments on the stream positions they carry.\<close>

fun tr_positions :: "WrappingInt32 \<Rightarrow> bytes \<Rightarrow> tr_op \<Rightarrow> nat set" where
  "tr_positions isn S (Receive seg) =
     {i. \<exists>a. segment_of S isn a seg \<and> i \<in> {a - 1..<a - 1 + length (Buffer_str (ts_payload seg))}}"
| "tr_positions isn S (Read_out n) = {}"

fun tr_fin :: "tr_op \<Rightarrow> bool" where
  "tr_fin (Receive seg) = th_fin (ts_header seg)"
| "tr_fin (Read_out n) = False"

lemma segment_of_unique:
  assumes "length S + 3 \<le> 2 ^ 31" "segment_of S isn a seg" "segment_of S isn b seg"
  shows "a = b"
proof -
  have "wrap a isn = wrap b isn" using assms(2,3) by (simp add: segment_of_def)
  moreover have "a \<le> length S + 2" "b \<le> length S + 2" using assms(2,3) by (auto dest: segment_of_range)
  ultimately show ?thesis
    using assms(1) seqno.enc_distinguishes [of 0 a b isn] by (auto simp: SIZE_MOD_def)
qed

lemma tr_run_complete:
  assumes "length S + 3 \<le> 2 ^ 31" "caught_up S (tr_reassembler r)" "tr_sender_isn r = Some isn"
    "list_all (tr_op_of S isn) ops"
  shows "\<exists>del' r'. tr_run ops del r = Inr (del', r') \<and> caught_up S (tr_reassembler r') \<and> tr_sender_isn r' = Some isn \<and>
     held (tr_reassembler r) \<union> \<Union> (tr_positions isn S ` set ops) \<subseteq> held (tr_reassembler r') \<and>
     (sr_got_eof (tr_reassembler r) \<or> list_ex tr_fin ops \<longrightarrow> sr_got_eof (tr_reassembler r'))"
  using assms(2-4)
proof (induction ops del r rule: tr_run.induct)
  case (2 seg ops del r)
  from 2(4) obtain a where a: "segment_of S isn a seg" and ops: "list_all (tr_op_of S isn) ops" by auto
  have inv: "tr_run_inv S isn r" using 2(2,3) by (simp add: tr_run_inv_def caught_up_def)
  let ?bs = "Buffer_str (ts_payload seg)"
  have op: "op_of_stream S (Push ?bs (a - 1) (th_fin (ts_header seg)))" using a by (simp add: segment_of_def)
  from caught_up_push [OF 2(2) op] obtain re where
    re: "push_substring True (tr_reassembler r) ?bs (a - 1) (th_fin (ts_header seg)) = Inr re" "caught_up S re"
      "held (tr_reassembler r) \<union> {a - 1..<a - 1 + length ?bs} \<subseteq> held re"
      "sr_got_eof (tr_reassembler r) \<or> th_fin (ts_header seg) \<longrightarrow> sr_got_eof re" by blast
  let ?r1 = "r\<lparr>tr_sender_isn := Some isn, tr_reassembler := re\<rparr>"
  have step: "tr_segment_received r seg = Inr ?r1"
    using assms(1) a inv by (cases rule: receive_cases) (use 2(3) re(1) in simp_all)
  from 2(1) [OF step _ _ ops] re(2) obtain del' r' where
    IH: "tr_run ops del ?r1 = Inr (del', r')" "caught_up S (tr_reassembler r')" "tr_sender_isn r' = Some isn"
      "held re \<union> \<Union> (tr_positions isn S ` set ops) \<subseteq> held (tr_reassembler r')"
      "sr_got_eof re \<or> list_ex tr_fin ops \<longrightarrow> sr_got_eof (tr_reassembler r')" by auto
  have "tr_positions isn S (Receive seg) \<subseteq> {a - 1..<a - 1 + length ?bs}"
    using segment_of_unique [OF assms(1) a] by auto
  then have "held (tr_reassembler r) \<union> \<Union> (tr_positions isn S ` set (Receive seg # ops)) \<subseteq> held (tr_reassembler r')"
    using re(3) IH(4) by auto
  moreover have "tr_run (Receive seg # ops) del r = Inr (del', r')" using step IH(1) by simp
  ultimately show ?case using IH(2,3,5) re(4) by auto
next
  case (3 n ops del r)
  then have i: "run_inv S (tr_reassembler r)" "sr_inv (length S + 1) (tr_reassembler r)"
    by (simp_all add: caught_up_def run_inv_def)
  from sr_consume_spec [OF i(2), of n] obtain x re where c: "sr_consume (tr_reassembler r) n = Inr (x, re)" by blast
  note st = run_consume_step [OF i(1) c]
  have "caught_up S re" using 3(2) st by (simp add: caught_up_def)
  with 3(1) [OF c refl] 3(3,4) obtain del' r' where
    IH: "tr_run ops (del @ x) (r\<lparr>tr_reassembler := re\<rparr>) = Inr (del', r')" "caught_up S (tr_reassembler r')"
      "tr_sender_isn r' = Some isn" "held re \<union> \<Union> (tr_positions isn S ` set ops) \<subseteq> held (tr_reassembler r')"
      "sr_got_eof re \<or> list_ex tr_fin ops \<longrightarrow> sr_got_eof (tr_reassembler r')" by auto
  have "tr_run (Read_out n # ops) del r = Inr (del', r')" using c IH(1) by simp
  with IH(2-5) st(3,4) show ?case by auto
qed simp

lemma tr_run_inv_new: "length S + capacity + 1 < SIZE_MOD \<Longrightarrow> tr_run_inv S isn (TCPReceiver_new capacity)"
  by (simp add: tr_run_inv_def TCPReceiver_new_def)

lemma TCPReceiver_new_simps:
  "sr_capacity (tr_reassembler (TCPReceiver_new capacity)) = capacity"
  "bs_bytes_read (tr_stream_out (TCPReceiver_new capacity)) = 0"
  by (simp_all add: TCPReceiver_new_def StreamReassembler_new_def ByteStream_new_def)

lemma ackno_value:
  assumes "tr_sender_isn r = Some isn" "run_inv S (tr_reassembler r)" "length S + 2 < SIZE_MOD"
  shows "ackno r = Some (wrap (bs_bytes_written (tr_stream_out r) + (if input_ended (tr_stream_out r) then 2 else 1)) isn)"
proof -
  have "bs_bytes_written (tr_stream_out r) \<le> length S" using assms(2) by (simp add: run_inv_def sr_agrees_def)
  with assms(3) have "add64 (add64 (bs_bytes_written (tr_stream_out r)) 1) 1 = bs_bytes_written (tr_stream_out r) + 2"
      "add64 (bs_bytes_written (tr_stream_out r)) 1 = bs_bytes_written (tr_stream_out r) + 1"
    by (simp_all add: add64_exact)
  with assms(1) show ?thesis by (simp add: ackno_def bytes_written_def)
qed

lemma tcp_receiver_prefix:
  assumes "length S + 3 \<le> 2 ^ 31" and "length S + capacity + 1 < SIZE_MOD" and "list_all (tr_op_of S isn) ops"
    and "tr_run ops [] (TCPReceiver_new capacity) = Inr (del, r)"
  shows "del @ bs_contents (tr_stream_out r) = take (bs_bytes_written (tr_stream_out r)) S"
    "tr_run_inv S isn r" "sr_capacity (tr_reassembler r) = capacity"
proof -
  show r: "tr_run_inv S isn r" "sr_capacity (tr_reassembler r) = capacity"
    using tr_run_invariant [OF assms(1) tr_run_inv_new [OF assms(2)] assms(3) _ assms(4)]
    by (simp_all add: TCPReceiver_new_simps)
  have del: "del = take (bs_bytes_read (tr_stream_out r)) S"
    using tr_run_invariant [OF assms(1) tr_run_inv_new [OF assms(2)] assms(3) _ assms(4)]
    by (simp add: TCPReceiver_new_simps)
  have "run_inv S (tr_reassembler r)" using r(1) by (simp add: tr_run_inv_def)
  from run_inv_prefix [OF this] del show "del @ bs_contents (tr_stream_out r) = take (bs_bytes_written (tr_stream_out r)) S"
    by simp
qed

text \<open>A segment for the examples, and what evaluating a run on it unfolds.\<close>

definition seg_example :: "WrappingInt32 \<Rightarrow> bool \<Rightarrow> bool \<Rightarrow> bytes \<Rightarrow> TCPSegment" where
  "seg_example seqno syn fin data =
     \<lparr>ts_header = TCPHeader_default\<lparr>th_seqno := seqno, th_syn := syn, th_fin := fin\<rparr>,
      ts_payload = Buffer_of_string data\<rparr>"

lemmas tr_eval =
  TCPReceiver_new_def tr_segment_received_def in_syn_recv_def ackno_def unwrap_def wi_diff_def
  int32_to_uint64_def seg_example_def TCPHeader_default_def Buffer_copy_def

section \<open>Properties\<close>

text \<open>
  C30. End to end on the receiving side: whatever segments of one stream \<open>S\<close> arrive, in whatever
  order, duplicated, overlapping or missing, and whatever the application reads in between, the
  bytes handed to it followed by those that wait are the prefix of \<open>S\<close> received so far; the ackno is
  the sequence number of the next byte (one more after the end of the stream); the window is the
  free room of the output.
\<close>

theorem tcp_receiver_delivers:
  assumes "length S + 3 \<le> 2 ^ 31" and "length S + capacity + 1 < SIZE_MOD" and "list_all (tr_op_of S isn) ops"
    and "tr_run ops [] (TCPReceiver_new capacity) = Inr (del, r)"
  shows "del @ bs_contents (tr_stream_out r) = take (bytes_written (tr_stream_out r)) S \<and>
    (in_fin_recv r \<longrightarrow> bytes_written (tr_stream_out r) = length S) \<and>
    (ackno r = None \<or>
     ackno r = Some (wrap (bytes_written (tr_stream_out r) + (if in_fin_recv r then 2 else 1)) isn)) \<and>
    window_size r = capacity - length (bs_contents (tr_stream_out r))"
proof -
  note r = tcp_receiver_prefix [OF assms]
  let ?re = "tr_reassembler r"
  have inv: "run_inv S ?re" "sr_inv (length S + 1) ?re" using r(2) by (simp_all add: tr_run_inv_def run_inv_def)
  have "del @ bs_contents (sr_output ?re) = take (bytes_written (sr_output ?re)) S"
    using r(1) by (simp add: bytes_written_def)
  moreover have "ackno r = None \<or>
      ackno r = Some (wrap (bytes_written (sr_output ?re) + (if in_fin_recv r then 2 else 1)) isn)"
  proof (cases "tr_sender_isn r")
    case None
    then show ?thesis by (simp add: ackno_def)
  next
    case (Some i)
    with r(2) have "tr_sender_isn r = Some isn" by (simp add: tr_run_inv_def)
    from ackno_value [OF this inv(1)] assms(1) show ?thesis
      by (simp add: bytes_written_def in_fin_recv_def SIZE_MOD_def)
  qed
  moreover have "window_size r = capacity - length (bs_contents (sr_output ?re))"
    using inv(2) r(3) ByteStream_invD(7) by (simp add: window_size_def sr_inv_def)
  ultimately show ?thesis
    using inv(1) by (simp add: run_inv_def in_fin_recv_def input_ended_def bytes_written_def)
qed

theorem tcp_receiver_delivers_witness:
  "\<exists>del r. tr_run [Receive (seg_example 100 True False []), Receive (seg_example 103 False True [3]),
      Receive (seg_example 101 False False [1, 2]), Read_out 2] [] (TCPReceiver_new 10) = Inr (del, r) \<and>
    del @ bs_contents (tr_stream_out r) = take (bytes_written (tr_stream_out r)) [1, 2, 3]"
proof -
  let ?ops = "[Receive (seg_example 100 True False []), Receive (seg_example 103 False True [3]),
      Receive (seg_example 101 False False [1, 2]), Read_out 2]"
  have "segment_of [1, 2, 3] 100 0 (seg_example 100 True False [])"
      "segment_of [1, 2, 3] 100 3 (seg_example 103 False True [3])"
      "segment_of [1, 2, 3] 100 1 (seg_example 101 False False [1, 2])"
    by (simp_all add: segment_of_def seg_example_def wrap_eq extent_def SIZE_MOD_def)
  then have ops: "list_all (tr_op_of [1, 2, 3] 100) ?ops" by auto
  have "\<exists>del r. tr_run ?ops [] (TCPReceiver_new 10) = Inr (del, r)"
    by (simp add: tr_eval sr_eval)
  then obtain del r where "tr_run ?ops [] (TCPReceiver_new 10) = Inr (del, r)" by blast
  with tcp_receiver_delivers [OF _ _ ops this] show ?thesis by (auto simp: SIZE_MOD_def)
qed

text \<open>
  C31. When the segments that arrive start with the SYN and together carry the whole stream and its
  end, and the stream is shorter than the capacity, the receiver accepts all of them, the stream is complete,
  the receiver is in its final state and acknowledges everything, the SYN and the FIN included.
\<close>

theorem tcp_receiver_complete:
  assumes "length S + 3 \<le> 2 ^ 31" and "length S < capacity" and "length S + capacity + 1 < SIZE_MOD"
    and "segment_of S isn 0 syn" and "list_all (tr_op_of S isn) ops"
    and "{..<length S} \<subseteq> \<Union> (tr_positions isn S ` set (Receive syn # ops))"
    and "list_ex tr_fin (Receive syn # ops)"
  shows "\<exists>del r. tr_run (Receive syn # ops) [] (TCPReceiver_new capacity) = Inr (del, r) \<and>
    del @ bs_contents (tr_stream_out r) = S \<and> in_fin_recv r \<and> ackno r = Some (wrap (length S + 2) isn)"
proof -
  let ?r0 = "TCPReceiver_new capacity" and ?ops = "Receive syn # ops"
  let ?r1 = "?r0\<lparr>tr_sender_isn := Some isn\<rparr>"
  have re0: "caught_up S (tr_reassembler ?r1)"
    using assms(2) run_inv_new [OF assms(3)]
    by (auto simp: caught_up_def held_def TCPReceiver_new_def)
      (simp_all add: StreamReassembler_new_def ByteStream_new_def)
  have syn: "tr_segment_received ?r1 syn = tr_segment_received ?r0 syn"
  proof -
    have s: "th_seqno (ts_header syn) = wrap 0 isn" "th_syn (ts_header syn) \<longleftrightarrow> (0 :: nat) = 0"
      using assms(4) by (simp_all add: segment_of_def)
    have "run_inv S (tr_reassembler ?r1)" using re0 by (simp add: caught_up_def)
    from decode_near [OF assms(1,4) this] have
      "unwrap (wrap 0 isn) isn (bs_bytes_written (tr_stream_out ?r1)) = 0" "(0 :: nat) < SIZE_MOD" .
    with receive_is_push [OF s, of ?r1] receive_is_push [OF s, of ?r0] show ?thesis by simp
  qed
  then have run_eq: "tr_run ?ops [] ?r1 = tr_run ?ops [] ?r0" by simp
  have ops: "list_all (tr_op_of S isn) ?ops" using assms(4,5) by auto
  from tr_run_complete [OF assms(1) re0 _ ops, of "[]"] obtain del r where
    run: "tr_run ?ops [] ?r0 = Inr (del, r)" and r: "caught_up S (tr_reassembler r)" "tr_sender_isn r = Some isn"
      "\<Union> (tr_positions isn S ` set ?ops) \<subseteq> held (tr_reassembler r)" "sr_got_eof (tr_reassembler r)"
    using run_eq assms(7) by auto
  let ?re = "tr_reassembler r"
  have inv: "run_inv S ?re" "sr_agrees S ?re" using r(1) by (simp_all add: caught_up_def run_inv_def)
  have bw: "bs_bytes_written (sr_output ?re) = length S"
    by (rule caught_up_all [OF r(1) subset_trans [OF assms(6) r(3)]])
  have "input_ended (sr_output ?re)" using inv(1) r(4) bw by (simp add: run_inv_def input_ended_def)
  moreover have "del @ bs_contents (sr_output ?re) = S"
    using tcp_receiver_prefix [OF assms(1,3) ops run] bw by simp
  ultimately show ?thesis
    using run ackno_value [OF r(2) inv(1)] assms(1) bw by (simp add: in_fin_recv_def SIZE_MOD_def)
qed

theorem tcp_receiver_complete_witness:
  "\<exists>del r. tr_run [Receive (seg_example 100 True False []), Receive (seg_example 103 False True [3]),
      Receive (seg_example 101 False False [1, 2])] [] (TCPReceiver_new 10) = Inr (del, r) \<and>
    del @ bs_contents (tr_stream_out r) = [1, 2, 3] \<and> in_fin_recv r \<and> ackno r = Some (wrap 5 100)"
proof -
  let ?S = "[1, 2, 3] :: bytes" and ?ops = "[Receive (seg_example 103 False True [3]), Receive (seg_example 101 False False [1, 2])]"
  have s: "segment_of ?S 100 0 (seg_example 100 True False [])"
      "segment_of ?S 100 3 (seg_example 103 False True [3])"
      "segment_of ?S 100 1 (seg_example 101 False False [1, 2])"
    by (simp_all add: segment_of_def seg_example_def wrap_eq extent_def SIZE_MOD_def)
  have d: "Buffer_str (ts_payload (seg_example n syn fin xs)) = xs" if "length xs \<le> 3" for n syn fin xs
    using that by (simp add: seg_example_def SIZE_MOD_def)
  have cover: "{..<length ?S} \<subseteq> \<Union> (tr_positions 100 ?S ` set (Receive (seg_example 100 True False []) # ?ops))"
  proof
    fix i assume "i \<in> {..<length ?S}"
    then have "i \<in> {0..<2} \<or> i \<in> {2..<3}" by auto
    then have "i \<in> tr_positions 100 ?S (Receive (seg_example 101 False False [1, 2])) \<or>
        i \<in> tr_positions 100 ?S (Receive (seg_example 103 False True [3]))"
      using s(2,3) by (fastforce simp: d)
    then show "i \<in> \<Union> (tr_positions 100 ?S ` set (Receive (seg_example 100 True False []) # ?ops))" by auto
  qed
  have ops: "list_all (tr_op_of ?S 100) ?ops" using s(2,3) by auto
  have fin: "list_ex tr_fin (Receive (seg_example 100 True False []) # ?ops)" by (simp add: seg_example_def)
  have "length ?S + 2 = 5" by simp
  moreover have "\<exists>del r. tr_run (Receive (seg_example 100 True False []) # ?ops) [] (TCPReceiver_new 10) = Inr (del, r) \<and>
      del @ bs_contents (tr_stream_out r) = ?S \<and> in_fin_recv r \<and> ackno r = Some (wrap (length ?S + 2) 100)"
    by (rule tcp_receiver_complete [OF _ _ _ s(1) ops cover fin]) (simp_all add: SIZE_MOD_def)
  ultimately show ?thesis by (simp only:)
qed

text \<open>
  A segment whose sequence number decodes to a position beyond the receiver's window is not
  dropped: it makes \<open>segment_received\<close> fail, whatever it carries. The peer chooses that number.
\<close>

lemma tcp_receiver_out_of_window_fails:
  assumes "length S + 3 \<le> 2 ^ 31" and "length S + capacity + 1 < SIZE_MOD" and "list_all (tr_op_of S isn) ops"
    and "tr_run ops [] (TCPReceiver_new capacity) = Inr (del, r)" and "in_syn_recv r"
    and "\<not> th_syn (ts_header seg)"
    and "unwrap (th_seqno (ts_header seg)) isn (bytes_written (tr_stream_out r)) = a"
    and "bytes_written (tr_stream_out r) + capacity + 1 < a"
    and "a + length (Buffer_str (ts_payload seg)) + capacity < SIZE_MOD"
  shows "tr_segment_received r seg = Inl OutOfBounds"
proof -
  let ?re = "tr_reassembler r" and ?n = "length (Buffer_str (ts_payload seg))"
  note run = tcp_receiver_prefix [OF assms(1-4)]
  have isn: "tr_sender_isn r = Some isn"
    using run(2) assms(5) by (auto simp: tr_run_inv_def in_syn_recv_def ackno_def)
  have inv: "sr_inv (length S + 1) ?re" using run(2) by (simp add: tr_run_inv_def run_inv_def)
  define B where "B = max (length S + 1) (a - 1 + ?n)"
  have "B + sr_capacity ?re < SIZE_MOD" using assms(2,9) run(3) unfolding B_def by linarith
  then have "sr_inv B ?re" by (intro sr_inv_mono [OF inv]) (simp_all add: B_def)
  moreover have "a - 1 + ?n \<le> B" by (simp add: B_def)
  moreover have "\<not> bs_input_ended (sr_output ?re)" using assms(5) by (simp add: in_syn_recv_def input_ended_def)
  ultimately have "push_substring True ?re (Buffer_str (ts_payload seg)) (a - 1) (th_fin (ts_header seg)) = Inl OutOfBounds"
    using assms(8) run(3) by (intro push_beyond [of B]) (simp_all add: bytes_written_def)
  moreover have "sub64 a 1 = a - 1" using assms(8,9) by (simp add: sub64_exact)
  ultimately show ?thesis
    using assms(5-8) isn by (simp add: tr_segment_received_def Let_def Buffer_copy_def)
qed

lemma tcp_receiver_out_of_window_fails_witness:
  "\<exists>r. tr_run [Receive (seg_example 100 True False [])] [] (TCPReceiver_new 4) = Inr ([], r) \<and>
    tr_segment_received r (seg_example 200 False False []) = Inl OutOfBounds"
proof -
  have s: "segment_of [] 100 0 (seg_example 100 True False [])"
    by (simp add: segment_of_def seg_example_def wrap_eq extent_def SIZE_MOD_def)
  let ?r = "(TCPReceiver_new 4)\<lparr>tr_sender_isn := Some 100\<rparr>"
  have run: "tr_run [Receive (seg_example 100 True False [])] [] (TCPReceiver_new 4) = Inr ([], ?r)"
    by (simp add: tr_eval sr_eval)
  have bw: "bytes_written (tr_stream_out ?r) = 0"
    by (simp add: TCPReceiver_new_def StreamReassembler_new_def ByteStream_new_def bytes_written_def)
  have "unwrap (th_seqno (ts_header (seg_example 200 False False []))) 100 (bytes_written (tr_stream_out ?r)) = 100"
    unfolding bw by (simp add: tr_eval sr_eval)
  moreover have "in_syn_recv ?r"
    by (simp add: in_syn_recv_def ackno_def TCPReceiver_new_def StreamReassembler_new_def ByteStream_new_def input_ended_def)
  ultimately have "tr_segment_received ?r (seg_example 200 False False []) = Inl OutOfBounds"
    using tcp_receiver_out_of_window_fails [of "[]" 4 100 _ _ ?r "seg_example 200 False False []" 100, OF _ _ _ run] s bw
    by (auto simp: SIZE_MOD_def seg_example_def)
  with run show ?thesis by blast
qed

end
