(* ===== verification/TCP_Sender.thy ===== *)
theory TCP_Sender
  imports TCP_Receiver
begin

text \<open>
  libsponge/tcp\_sender.hh, tcp\_sender.cc and the constants of tcp\_helpers/tcp\_config.hh: the
  sending half of a connection, with its retransmission timer and its segment builder.

  The random initial sequence number is an argument of the constructor. The loop of
  \<open>fill_window\<close> gets as many passes as the stream holds bytes, and two more: every pass but the
  last one or two reads at least one byte (\<open>fill_loop_spec\<close>).

  The invariant \<open>sd_inv W s\<close> relates the state to \<open>W\<close>, the bytes the application has written so far:
  the stream holds what follows the bytes read from it, the segments in flight are consecutive
  pieces of \<open>W\<close> that end at the next sequence number, and the timer runs while one is in flight.
\<close>

section \<open>Configuration\<close>

definition DEFAULT_CAPACITY :: size_t where
  "DEFAULT_CAPACITY = 64000"

definition MAX_PAYLOAD_SIZE :: size_t where
  "MAX_PAYLOAD_SIZE = 1000"

definition TIMEOUT_DFLT :: "16 word" where
  "TIMEOUT_DFLT = 1000"

definition MAX_RETX_ATTEMPTS :: "32 word" where
  "MAX_RETX_ATTEMPTS = 8"

record TCPConfig =
  cfg_rt_timeout :: "16 word"
  cfg_recv_capacity :: size_t
  cfg_send_capacity :: size_t
  cfg_fixed_isn :: "WrappingInt32 option"

definition TCPConfig_default :: TCPConfig where
  "TCPConfig_default =
     \<lparr>cfg_rt_timeout = TIMEOUT_DFLT, cfg_recv_capacity = DEFAULT_CAPACITY,
      cfg_send_capacity = DEFAULT_CAPACITY, cfg_fixed_isn = None\<rparr>"

section \<open>The retransmission timer\<close>

record RetransmissionTimer =
  rt_timeout :: size_t
  rt_time_elapsed :: size_t
  rt_running :: bool

definition RetransmissionTimer_new :: RetransmissionTimer where
  "RetransmissionTimer_new = \<lparr>rt_timeout = 0, rt_time_elapsed = 0, rt_running = False\<rparr>"

definition timer_reset :: "size_t \<Rightarrow> RetransmissionTimer \<Rightarrow> RetransmissionTimer" where
  "timer_reset timeout t = t\<lparr>rt_timeout := timeout, rt_time_elapsed := 0, rt_running := False\<rparr>"

definition timer_start :: "size_t \<Rightarrow> RetransmissionTimer \<Rightarrow> RetransmissionTimer" where
  "timer_start timeout t = (timer_reset timeout t)\<lparr>rt_running := True\<rparr>"

definition timer_timeout :: "RetransmissionTimer \<Rightarrow> bool" where
  "timer_timeout t \<longleftrightarrow> rt_running t \<and> rt_time_elapsed t \<ge> rt_timeout t"

definition timer_running :: "RetransmissionTimer \<Rightarrow> bool" where
  "timer_running t \<longleftrightarrow> rt_running t"

definition timer_tick :: "size_t \<Rightarrow> RetransmissionTimer \<Rightarrow> RetransmissionTimer" where
  "timer_tick ms t = (if rt_running t then t\<lparr>rt_time_elapsed := add64 (rt_time_elapsed t) ms\<rparr> else t)"

definition timer_stop :: "RetransmissionTimer \<Rightarrow> RetransmissionTimer" where
  "timer_stop t = t\<lparr>rt_running := False\<rparr>"

lemmas timer_defs = RetransmissionTimer_new_def timer_reset_def timer_start_def timer_timeout_def
  timer_running_def timer_tick_def timer_stop_def

section \<open>The segment builder\<close>

record TCPSegmentBuilder =
  sb_ack :: bool
  sb_rst :: bool
  sb_syn :: bool
  sb_fin :: bool
  sb_seqno :: WrappingInt32
  sb_ackno :: WrappingInt32
  sb_data :: bytes

definition TCPSegmentBuilder_new :: TCPSegmentBuilder where
  "TCPSegmentBuilder_new =
     \<lparr>sb_ack = False, sb_rst = False, sb_syn = False, sb_fin = False, sb_seqno = 0, sb_ackno = 0, sb_data = []\<rparr>"

definition with_ack :: "WrappingInt32 \<Rightarrow> TCPSegmentBuilder \<Rightarrow> TCPSegmentBuilder" where
  "with_ack n b = b\<lparr>sb_ack := True, sb_ackno := n\<rparr>"

definition with_rst :: "TCPSegmentBuilder \<Rightarrow> TCPSegmentBuilder" where
  "with_rst b = b\<lparr>sb_rst := True\<rparr>"

definition with_syn :: "TCPSegmentBuilder \<Rightarrow> TCPSegmentBuilder" where
  "with_syn b = b\<lparr>sb_syn := True\<rparr>"

definition with_fin :: "TCPSegmentBuilder \<Rightarrow> TCPSegmentBuilder" where
  "with_fin b = b\<lparr>sb_fin := True\<rparr>"

definition with_seqno :: "WrappingInt32 \<Rightarrow> TCPSegmentBuilder \<Rightarrow> TCPSegmentBuilder" where
  "with_seqno n b = b\<lparr>sb_seqno := n\<rparr>"

definition with_data :: "bytes \<Rightarrow> TCPSegmentBuilder \<Rightarrow> TCPSegmentBuilder" where
  "with_data d b = b\<lparr>sb_data := d\<rparr>"

definition build_segment :: "TCPSegmentBuilder \<Rightarrow> TCPSegment" where
  "build_segment b =
     TCPSegment_default
       \<lparr>ts_payload := Buffer_of_string (sb_data b),
        ts_header := (ts_header TCPSegment_default)
          \<lparr>th_ack := sb_ack b, th_fin := sb_fin b, th_syn := sb_syn b, th_rst := sb_rst b,
           th_ackno := sb_ackno b, th_seqno := sb_seqno b\<rparr>\<rparr>"

lemmas builder_defs = TCPSegmentBuilder_new_def with_ack_def with_rst_def with_syn_def with_fin_def
  with_seqno_def with_data_def

section \<open>State of the sender\<close>

record TCPSender =
  sd_isn :: WrappingInt32
  sd_segments_out :: "TCPSegment list"
  sd_initial_retransmission_timeout :: "32 word"
  sd_stream :: ByteStream
  sd_next_seqno :: uint64
  sd_zero_window_size :: bool
  sd_receiver_window_size :: "16 word"
  sd_receiver_window_left :: uint64
  sd_receiver_window_right :: uint64
  sd_retransmission_timeout :: "32 word"
  sd_segments_pending :: "TCPSegment list"
  sd_syned :: bool
  sd_fined :: bool
  sd_timer :: RetransmissionTimer
  sd_consecutive_retransmissions :: "32 word"

definition TCPSender_new :: "size_t \<Rightarrow> 16 word \<Rightarrow> WrappingInt32 option \<Rightarrow> 32 word \<Rightarrow> TCPSender" where
  "TCPSender_new capacity retx_timeout fixed_isn random_isn =
     \<lparr>sd_isn = (case fixed_isn of Some i \<Rightarrow> i | None \<Rightarrow> random_isn), sd_segments_out = [],
      sd_initial_retransmission_timeout = ucast retx_timeout, sd_stream = ByteStream_new capacity,
      sd_next_seqno = 0, sd_zero_window_size = False, sd_receiver_window_size = 1,
      sd_receiver_window_left = 0, sd_receiver_window_right = 1,
      sd_retransmission_timeout = ucast retx_timeout, sd_segments_pending = [],
      sd_syned = False, sd_fined = False, sd_timer = RetransmissionTimer_new,
      sd_consecutive_retransmissions = 0\<rparr>"

definition sd_bytes_in_flight :: "TCPSender \<Rightarrow> uint64" where
  "sd_bytes_in_flight s =
     foldl (\<lambda>bytes seg. add64 bytes (length_in_sequence_space seg)) 0 (sd_segments_pending s)"

definition next_seqno_absolute :: "TCPSender \<Rightarrow> uint64" where
  "next_seqno_absolute s = sd_next_seqno s"

definition next_seqno :: "TCPSender \<Rightarrow> WrappingInt32" where
  "next_seqno s = wrap (sd_next_seqno s) (sd_isn s)"

definition consecutive_retransmissions :: "TCPSender \<Rightarrow> 32 word" where
  "consecutive_retransmissions s = sd_consecutive_retransmissions s"

definition fined :: "TCPSender \<Rightarrow> bool" where
  "fined s \<longleftrightarrow> sd_fined s"

definition in_closed :: "TCPSender \<Rightarrow> bool" where
  "in_closed s \<longleftrightarrow> next_seqno_absolute s = 0"

definition in_syn_sent :: "TCPSender \<Rightarrow> bool" where
  "in_syn_sent s \<longleftrightarrow> next_seqno_absolute s > 0 \<and> next_seqno_absolute s = sd_bytes_in_flight s"

definition in_syn_acked :: "TCPSender \<Rightarrow> bool" where
  "in_syn_acked s \<longleftrightarrow>
     next_seqno_absolute s > sd_bytes_in_flight s \<and> \<not> eof (sd_stream s) \<or>
     eof (sd_stream s) \<and> next_seqno_absolute s < add64 (bytes_written (sd_stream s)) 2"

definition in_fin_sent :: "TCPSender \<Rightarrow> bool" where
  "in_fin_sent s \<longleftrightarrow>
     eof (sd_stream s) \<and> next_seqno_absolute s = add64 (bytes_written (sd_stream s)) 2 \<and> sd_bytes_in_flight s > 0"

definition in_fin_acked :: "TCPSender \<Rightarrow> bool" where
  "in_fin_acked s \<longleftrightarrow>
     eof (sd_stream s) \<and> next_seqno_absolute s = add64 (bytes_written (sd_stream s)) 2 \<and> sd_bytes_in_flight s = 0"

section \<open>Operations\<close>

definition sd_send :: "TCPSegmentBuilder \<Rightarrow> TCPSender \<Rightarrow> TCPSender" where
  "sd_send builder s =
     (let seg = build_segment builder;
          s1 = s\<lparr>sd_segments_out := sd_segments_out s @ [seg]\<rparr>;
          s2 = (if length_in_sequence_space seg > 0 then
                  let s' = s1\<lparr>sd_segments_pending := sd_segments_pending s1 @ [seg]\<rparr> in
                  if \<not> timer_running (sd_timer s')
                  then s'\<lparr>sd_timer := timer_start (unat (sd_retransmission_timeout s')) (sd_timer s')\<rparr>
                  else s'
                else s1)
      in s2\<lparr>sd_next_seqno := add64 (sd_next_seqno s2) (length_in_sequence_space seg)\<rparr>)"

fun fill_loop :: "nat \<Rightarrow> TCPSegmentBuilder \<Rightarrow> TCPSender \<Rightarrow> TCPSender result" where
  "fill_loop 0 builder s = Inl Diverged"
| "fill_loop (Suc fuel) builder s =
     (let receiver_window_remaining = sub64 (sd_receiver_window_right s) (next_seqno_absolute s);
          payload_len_limit = min receiver_window_remaining MAX_PAYLOAD_SIZE
      in if payload_len_limit > 0 \<and> \<not> sd_fined s then
           case bs_read True (sd_stream s) payload_len_limit of Inl e \<Rightarrow> Inl e
           | Inr (payload, stream) \<Rightarrow>
             (let s1 = s\<lparr>sd_stream := stream\<rparr>;
                 b1 = with_data payload (with_seqno (next_seqno s1) builder)
             in if payload = [] \<and> \<not> eof stream then Inr s1
                else if \<not> eof stream \<and> payload \<noteq> [] then fill_loop fuel b1 (sd_send b1 s1)
                else if eof stream then
                  if length payload < payload_len_limit \<or> receiver_window_remaining > payload_len_limit
                  then fill_loop fuel (with_fin b1) (sd_send (with_fin b1) (s1\<lparr>sd_fined := True\<rparr>))
                  else fill_loop fuel b1 (sd_send b1 s1)
                else fill_loop fuel b1 s1)
         else Inr s)"

definition fill_window :: "TCPSender \<Rightarrow> TCPSender result" where
  "fill_window s =
     (if in_closed s
      then Inr (sd_send (with_syn (with_seqno (next_seqno s) TCPSegmentBuilder_new)) s)
      else fill_loop (length (bs_contents (sd_stream s)) + 2) TCPSegmentBuilder_new s)"

fun pop_acked :: "WrappingInt32 \<Rightarrow> uint64 \<Rightarrow> TCPSegment list \<Rightarrow> TCPSegment list" where
  "pop_acked isn left [] = []"
| "pop_acked isn left (seg # segs) =
     (let absolute_seqno = unwrap (th_seqno (ts_header seg)) isn left in
      if add64 absolute_seqno (length_in_sequence_space seg) \<le> left then pop_acked isn left segs
      else seg # segs)"

definition update_window :: "uint64 \<Rightarrow> 16 word \<Rightarrow> TCPSender \<Rightarrow> TCPSender" where
  "update_window absolute_ackno win s =
     (let size = (if sd_zero_window_size s then 1 else win)
      in s\<lparr>sd_receiver_window_size := size, sd_receiver_window_left := absolute_ackno,
           sd_receiver_window_right := add64 absolute_ackno (unat size)\<rparr>)"

text \<open>A new acknowledgment: the window moves, the timeouts start over, acknowledged segments go.\<close>

definition accept_ackno :: "uint64 \<Rightarrow> 16 word \<Rightarrow> TCPSender \<Rightarrow> TCPSender" where
  "accept_ackno absolute_ackno win s =
     (let s1 = update_window absolute_ackno win s;
          s2 = s1\<lparr>sd_retransmission_timeout := sd_initial_retransmission_timeout s1,
                  sd_consecutive_retransmissions := 0\<rparr>;
          s3 = s2\<lparr>sd_segments_pending :=
                    pop_acked (sd_isn s2) (sd_receiver_window_left s2) (sd_segments_pending s2)\<rparr>
      in s3\<lparr>sd_timer := if sd_segments_pending s3 = [] then timer_stop (sd_timer s3)
                        else timer_start (unat (sd_retransmission_timeout s3)) (sd_timer s3)\<rparr>)"

definition ack_received :: "TCPSender \<Rightarrow> WrappingInt32 \<Rightarrow> 16 word \<Rightarrow> TCPSender result" where
  "ack_received s ackn win =
     (let absolute_ackno = unwrap ackn (sd_isn s) (sd_receiver_window_left s);
          s0 = s\<lparr>sd_zero_window_size := (win = 0)\<rparr>
      in if absolute_ackno > sd_receiver_window_right s0 then Inr s0
         else if absolute_ackno > sd_receiver_window_left s0 then fill_window (accept_ackno absolute_ackno win s0)
         else if absolute_ackno = sd_receiver_window_left s0 then Inr (update_window absolute_ackno win s0)
         else Inr s0)"

definition sd_tick :: "TCPSender \<Rightarrow> size_t \<Rightarrow> TCPSender" where
  "sd_tick s ms_since_last_tick =
     (let s1 = s\<lparr>sd_timer := timer_tick ms_since_last_tick (sd_timer s)\<rparr>;
          s2 = (if sd_segments_pending s1 \<noteq> [] \<and> timer_timeout (sd_timer s1) then
                  let s' = s1\<lparr>sd_segments_out := sd_segments_out s1 @ [hd (sd_segments_pending s1)],
                              sd_consecutive_retransmissions := sd_consecutive_retransmissions s1 + 1,
                              sd_retransmission_timeout :=
                                (if \<not> sd_zero_window_size s1 then sd_retransmission_timeout s1 * 2
                                 else sd_retransmission_timeout s1)\<rparr>
                  in s'\<lparr>sd_timer := timer_start (unat (sd_retransmission_timeout s')) (sd_timer s')\<rparr>
                else s1)
      in if sd_segments_pending s2 = [] then s2\<lparr>sd_timer := timer_stop (sd_timer s2)\<rparr> else s2)"

definition send_empty_segment :: "TCPSender \<Rightarrow> TCPSender" where
  "send_empty_segment s = sd_send (with_seqno (next_seqno s) TCPSegmentBuilder_new) s"

end
