(* ===== verification/Sender_Contract.thy ===== *)
theory Sender_Contract
  imports TCP_Sender
begin

text \<open>
  What the TCP sender promises: everything it emits is a piece of what the application wrote, it
  covers all it took from its stream, it stays in the window it was told of and fills it, and it
  keeps exactly the segments that are not fully acknowledged.
\<close>

declare fill_loop.simps(2) [simp del]

section \<open>Built segments\<close>

lemma build_segment_simps [simp]:
  "ts_payload (build_segment b) = Buffer_of_string (sb_data b)"
  "th_seqno (ts_header (build_segment b)) = sb_seqno b" "th_syn (ts_header (build_segment b)) = sb_syn b"
  "th_fin (ts_header (build_segment b)) = sb_fin b" "th_rst (ts_header (build_segment b)) = sb_rst b"
  by (simp_all add: build_segment_def)

lemma builder_simps [simp]:
  "sb_data (with_data d b) = d" "sb_data (with_seqno n b) = sb_data b" "sb_data (with_fin b) = sb_data b"
  "sb_data (with_syn b) = sb_data b" "sb_data TCPSegmentBuilder_new = []"
  "sb_seqno (with_data d b) = sb_seqno b" "sb_seqno (with_seqno n b) = n" "sb_seqno (with_fin b) = sb_seqno b"
  "sb_seqno (with_syn b) = sb_seqno b"
  "sb_syn (with_data d b) = sb_syn b" "sb_syn (with_seqno n b) = sb_syn b" "sb_syn (with_fin b) = sb_syn b"
  "sb_syn (with_syn b)" "\<not> sb_syn TCPSegmentBuilder_new"
  "sb_fin (with_data d b) = sb_fin b" "sb_fin (with_seqno n b) = sb_fin b" "sb_fin (with_fin b)"
  "sb_fin (with_syn b) = sb_fin b" "\<not> sb_fin TCPSegmentBuilder_new"
  "sb_rst (with_data d b) = sb_rst b" "sb_rst (with_seqno n b) = sb_rst b" "sb_rst (with_fin b) = sb_rst b"
  "sb_rst (with_syn b) = sb_rst b" "\<not> sb_rst TCPSegmentBuilder_new"
  by (simp_all add: builder_defs)

text \<open>The length in sequence space, without the wrap-around that no payload reaches.\<close>

lemma seq_length:
  "length (Buffer_str (ts_payload seg)) + 2 < SIZE_MOD \<Longrightarrow>
   length_in_sequence_space seg = length (Buffer_str (ts_payload seg)) +
     (if th_syn (ts_header seg) then 1 else 0) + (if th_fin (ts_header seg) then 1 else 0)"
  by (simp add: length_in_sequence_space_def add64_exact)

definition built_length :: "TCPSegmentBuilder \<Rightarrow> nat" where
  "built_length b = length (sb_data b) + (if sb_syn b then 1 else 0) + (if sb_fin b then 1 else 0)"

lemma seq_length_build: "length (sb_data b) \<le> MAX_PAYLOAD_SIZE \<Longrightarrow> length_in_sequence_space (build_segment b) = built_length b"
  by (subst seq_length) (simp_all add: built_length_def MAX_PAYLOAD_SIZE_def SIZE_MOD_def)

lemma sd_send_eq:
  assumes "length (sb_data b) \<le> MAX_PAYLOAD_SIZE"
  shows "sd_send b s = s\<lparr>sd_segments_out := sd_segments_out s @ [build_segment b],
     sd_segments_pending := sd_segments_pending s @ (if 0 < built_length b then [build_segment b] else []),
     sd_timer := (if 0 < built_length b \<and> \<not> rt_running (sd_timer s)
                  then timer_start (unat (sd_retransmission_timeout s)) (sd_timer s) else sd_timer s),
     sd_next_seqno := add64 (sd_next_seqno s) (built_length b)\<rparr>"
  using seq_length_build [OF assms] by (simp add: sd_send_def Let_def timer_running_def)

section \<open>Segments in flight\<close>

fun chain :: "bytes \<Rightarrow> WrappingInt32 \<Rightarrow> nat \<Rightarrow> TCPSegment list \<Rightarrow> nat \<Rightarrow> bool" where
  "chain W isn a [] b \<longleftrightarrow> a = b"
| "chain W isn a (seg # segs) b \<longleftrightarrow>
     segment_of W isn a seg \<and> length (Buffer_str (ts_payload seg)) \<le> MAX_PAYLOAD_SIZE \<and>
     0 < length_in_sequence_space seg \<and> chain W isn (a + length_in_sequence_space seg) segs b"

lemma chain_append: "chain W isn a (xs @ ys) c \<longleftrightarrow> (\<exists>b. chain W isn a xs b \<and> chain W isn b ys c)"
  by (induction xs arbitrary: a) auto

lemma chain_le: "chain W isn a segs b \<Longrightarrow> a \<le> b"
  by (induction segs arbitrary: a) force+

lemma chain_segment: "chain W isn a segs b \<Longrightarrow> seg \<in> set segs \<Longrightarrow> \<exists>a. segment_of W isn a seg"
  by (induction segs arbitrary: a) auto

lemma segment_of_append:
  assumes "segment_of W isn a seg" "\<not> th_fin (ts_header seg)"
  shows "segment_of (W @ X) isn a seg"
  using assms by (auto simp: segment_of_def extent_append_left)

lemma chain_extend:
  "chain W isn a segs b \<Longrightarrow> \<forall>seg\<in>set segs. \<not> th_fin (ts_header seg) \<Longrightarrow> chain (W @ X) isn a segs b"
  by (induction segs arbitrary: a) (auto intro: segment_of_append)

lemma chain_flight:
  assumes "chain W isn a segs b" "b < SIZE_MOD"
  shows "foldl (\<lambda>bytes seg. add64 bytes (length_in_sequence_space seg)) n segs =
    (if segs = [] then n else (n + (b - a)) mod SIZE_MOD)"
  using assms
proof (induction segs arbitrary: a n)
  case (Cons seg segs)
  from Cons.prems have c: "chain W isn (a + length_in_sequence_space seg) segs b" by simp
  from chain_le [OF this] have le: "a + length_in_sequence_space seg \<le> b" .
  show ?case
  proof (cases "segs = []")
    case True
    with c have "b = a + length_in_sequence_space seg" by simp
    with True show ?thesis by (simp add: add64_def)
  next
    case False
    let ?l = "length_in_sequence_space seg"
    from le obtain d where d: "b = a + ?l + d" by (auto simp: le_iff_add)
    with Cons.IH [OF c Cons.prems(2), of "add64 n ?l"] False
    have "foldl (\<lambda>bytes seg. add64 bytes (length_in_sequence_space seg)) n (seg # segs) = (add64 n ?l + d) mod SIZE_MOD"
      by simp
    also have "\<dots> = (n + ?l + d) mod SIZE_MOD" by (simp only: add64_def mod_add_left_eq)
    finally show ?thesis using d by (simp add: add.assoc)
  qed
qed simp

section \<open>The invariant\<close>

definition stream_of :: "bytes \<Rightarrow> ByteStream \<Rightarrow> bool" where
  "stream_of W st \<longleftrightarrow> ByteStream_inv st \<and> bs_bytes_written st = length W \<and> bs_bytes_read st \<le> length W \<and>
     bs_contents st = drop (bs_bytes_read st) W \<and> length W + 2 < SIZE_MOD"

definition sent_ok :: "bytes \<Rightarrow> TCPSender \<Rightarrow> TCPSegment \<Rightarrow> bool" where
  "sent_ok W s seg \<longleftrightarrow> (\<exists>a. segment_of W (sd_isn s) a seg) \<and> (th_fin (ts_header seg) \<longrightarrow> sd_fined s)"

abbreviation sd_taken :: "TCPSender \<Rightarrow> nat" where
  "sd_taken s \<equiv> bs_bytes_read (sd_stream s)"

definition sd_inv :: "bytes \<Rightarrow> TCPSender \<Rightarrow> bool" where
  "sd_inv W s \<longleftrightarrow> stream_of W (sd_stream s) \<and>
     (sd_fined s \<longrightarrow> bs_input_ended (sd_stream s) \<and> sd_taken s = length W \<and> 0 < sd_next_seqno s) \<and>
     (sd_next_seqno s = 0 \<and> sd_taken s = 0 \<or> sd_next_seqno s = 1 + sd_taken s + (if sd_fined s then 1 else 0)) \<and>
     (\<exists>a. chain W (sd_isn s) a (sd_segments_pending s) (sd_next_seqno s)) \<and>
     list_all (sent_ok W s) (sd_segments_pending s @ sd_segments_out s) \<and>
     (rt_running (sd_timer s) \<longleftrightarrow> sd_segments_pending s \<noteq> []) \<and>
     sd_receiver_window_left s < SIZE_MOD \<and> sd_receiver_window_right s < SIZE_MOD"

lemma sent_ok_restream [simp]: "sent_ok W (s\<lparr>sd_stream := st\<rparr>) = sent_ok W s"
  by (simp add: fun_eq_iff sent_ok_def)

lemma stream_of_new: "capacity < SIZE_MOD \<Longrightarrow> stream_of [] (ByteStream_new capacity)"
  using ByteStream_inv_new [of capacity] by (simp add: stream_of_def) (simp add: ByteStream_new_def SIZE_MOD_def)

lemma sd_inv_new:
  assumes "capacity < SIZE_MOD"
  shows "sd_inv [] (TCPSender_new capacity retx fixed rnd)"
  using stream_of_new [OF assms]
  by (simp add: sd_inv_def TCPSender_new_def RetransmissionTimer_new_def SIZE_MOD_def)
    (simp add: ByteStream_new_def)

lemma stream_of_eof: "stream_of W st \<Longrightarrow> eof st \<longleftrightarrow> bs_input_ended st \<and> bs_bytes_read st = length W"
  using eof_iff [of st] by (auto simp: stream_of_def)

lemma stream_of_read:
  assumes "stream_of W st"
  obtains st' where "bs_read True st n = Inr (extent W (bs_bytes_read st) (bs_bytes_read st'), st')" "stream_of W st'"
    "bs_bytes_read st' = bs_bytes_read st + min n (length W - bs_bytes_read st)"
    "bs_input_ended st' = bs_input_ended st" "bs_error st' = bs_error st" "bs_capacity st' = bs_capacity st"
proof -
  note s = assms [unfolded stream_of_def]
  from s have inv: "ByteStream_inv st" by simp
  from bs_read_spec [OF inv, of n] obtain st' where st': "bs_read True st n = Inr (take n (bs_contents st), st')"
    "ByteStream_inv st'" "bs_contents st' = drop n (bs_contents st)" "pop_output st n = Inr st'" by blast
  from pop_output_spec [OF inv, of n] st'(4) have
    p: "bs_bytes_read st' = add64 (bs_bytes_read st) (min n (length (bs_contents st)))"
      "bs_bytes_written st' = bs_bytes_written st" "bs_capacity st' = bs_capacity st"
      "bs_input_ended st' = bs_input_ended st" "bs_error st' = bs_error st" by auto
  have r: "bs_bytes_read st' = bs_bytes_read st + min n (length W - bs_bytes_read st)"
  proof -
    have "bs_bytes_read st + min n (length W - bs_bytes_read st) < SIZE_MOD" using s by linarith
    with p(1) s show ?thesis by (simp add: add64_exact)
  qed
  have data: "take n (bs_contents st) = extent W (bs_bytes_read st) (bs_bytes_read st')"
    using s r by (auto simp: extent_def take_drop_extent min_def)
  have "bs_contents st' = drop (bs_bytes_read st') W"
    using st'(3) s r by (auto simp: min_def add.commute)
  moreover have "bs_bytes_read st' \<le> length W" using r s by linarith
  ultimately have "stream_of W st'" using st'(2) p(2) s unfolding stream_of_def by simp
  with that [OF st'(1) [unfolded data] _ r p(4,5,3)] show thesis by blast
qed

section \<open>Sending a piece\<close>

text \<open>
  \<open>sd_advance W s s'\<close>: the sender went from \<open>s\<close> to \<open>s'\<close> and emitted segments that carry all it took
  from its stream on the way, the SYN if it started and the FIN if it finished.
\<close>

definition seg_positions :: "bytes \<Rightarrow> WrappingInt32 \<Rightarrow> TCPSegment \<Rightarrow> nat set" where
  "seg_positions W isn seg = tr_positions isn W (Receive seg)"

definition emits :: "bytes \<Rightarrow> TCPSender \<Rightarrow> TCPSegment list \<Rightarrow> TCPSender \<Rightarrow> bool" where
  "emits W s new s' \<longleftrightarrow> sd_segments_out s' = sd_segments_out s @ new \<and>
     {sd_taken s..<sd_taken s'} \<subseteq> \<Union> (seg_positions W (sd_isn s) ` set new) \<and>
     (sd_fined s' \<longrightarrow> sd_fined s \<or> (\<exists>seg\<in>set new. th_fin (ts_header seg))) \<and>
     (0 < sd_next_seqno s' \<longrightarrow> 0 < sd_next_seqno s \<or> (\<exists>seg\<in>set new. segment_of W (sd_isn s) 0 seg))"

definition sd_kept :: "TCPSender \<Rightarrow> TCPSender \<Rightarrow> bool" where
  "sd_kept s s' \<longleftrightarrow> sd_isn s' = sd_isn s \<and> bs_input_ended (sd_stream s') = bs_input_ended (sd_stream s) \<and>
     bs_error (sd_stream s') = bs_error (sd_stream s) \<and> bs_capacity (sd_stream s') = bs_capacity (sd_stream s) \<and>
     sd_initial_retransmission_timeout s' = sd_initial_retransmission_timeout s \<and>
     sd_taken s \<le> sd_taken s' \<and> (sd_fined s \<longrightarrow> sd_fined s') \<and> sd_next_seqno s \<le> sd_next_seqno s'"

definition same_window :: "TCPSender \<Rightarrow> TCPSender \<Rightarrow> bool" where
  "same_window s s' \<longleftrightarrow> sd_receiver_window_left s' = sd_receiver_window_left s \<and>
     sd_receiver_window_right s' = sd_receiver_window_right s \<and>
     sd_receiver_window_size s' = sd_receiver_window_size s \<and> sd_zero_window_size s' = sd_zero_window_size s \<and>
     sd_retransmission_timeout s' = sd_retransmission_timeout s \<and>
     sd_consecutive_retransmissions s' = sd_consecutive_retransmissions s"

definition sd_advance :: "bytes \<Rightarrow> TCPSender \<Rightarrow> TCPSender \<Rightarrow> bool" where
  "sd_advance W s s' \<longleftrightarrow> sd_inv W s' \<and> sd_kept s s' \<and> (\<exists>new. emits W s new s')"

lemma sd_advance_refl: "sd_inv W s \<Longrightarrow> sd_advance W s s"
  by (auto simp: sd_advance_def sd_kept_def emits_def)

lemma sd_advance_trans:
  assumes "sd_advance W s s'" "sd_advance W s' s''"
  shows "sd_advance W s s''"
proof -
  from assms obtain n1 n2 where e: "emits W s n1 s'" "emits W s' n2 s''" and k: "sd_kept s s'" "sd_kept s' s''"
    by (auto simp: sd_advance_def)
  have "{sd_taken s..<sd_taken s''} \<subseteq> {sd_taken s..<sd_taken s'} \<union> {sd_taken s'..<sd_taken s''}" by auto
  also have "\<dots> \<subseteq> \<Union> (seg_positions W (sd_isn s) ` set (n1 @ n2))"
    unfolding set_append image_Un Union_Un_distrib
    using e k(1) by (intro Un_mono) (simp_all add: emits_def sd_kept_def)
  finally have cover: "{sd_taken s..<sd_taken s''} \<subseteq> \<Union> (seg_positions W (sd_isn s) ` set (n1 @ n2))" .
  have isn: "sd_isn s' = sd_isn s" using k(1) by (simp add: sd_kept_def)
  have "sd_fined s'' \<longrightarrow> sd_fined s \<or> (\<exists>seg\<in>set (n1 @ n2). th_fin (ts_header seg))"
    using e unfolding emits_def set_append bex_Un by blast
  moreover have "0 < sd_next_seqno s'' \<longrightarrow> 0 < sd_next_seqno s \<or> (\<exists>seg\<in>set (n1 @ n2). segment_of W (sd_isn s) 0 seg)"
    using e isn unfolding emits_def set_append bex_Un by metis
  ultimately have "emits W s (n1 @ n2) s''" using cover e by (simp add: emits_def)
  moreover have "sd_kept s s''" using k by (auto simp: sd_kept_def)
  ultimately show ?thesis using assms(2) by (auto simp: sd_advance_def)
qed

lemma same_window_trans: "same_window s s' \<Longrightarrow> same_window s' s'' \<Longrightarrow> same_window s s''"
  by (simp add: same_window_def)

lemma sd_next_bound: "sd_inv W s \<Longrightarrow> sd_next_seqno s \<le> length W + 2 \<and> sd_next_seqno s < SIZE_MOD"
  by (auto simp: sd_inv_def stream_of_def split: if_splits)

lemma chain_snoc:
  assumes "chain W isn a segs b" "segment_of W isn b seg" "length (Buffer_str (ts_payload seg)) \<le> MAX_PAYLOAD_SIZE"
    "length_in_sequence_space seg = n"
  shows "chain W isn a (segs @ (if 0 < n then [seg] else [])) (b + n)"
  using assms by (auto simp: chain_append)

text \<open>Sending what was just read from the stream.\<close>

lemma send_piece:
  assumes inv: "sd_inv W s" and st: "stream_of W st" "sd_taken s \<le> bs_bytes_read st"
      "bs_bytes_read st \<le> sd_taken s + MAX_PAYLOAD_SIZE"
      "bs_input_ended st = bs_input_ended (sd_stream s)" "bs_error st = bs_error (sd_stream s)"
      "bs_capacity st = bs_capacity (sd_stream s)"
    and nf: "\<not> sd_fined s" and b: "sb_data b = extent W (sd_taken s) (bs_bytes_read st)" "sb_seqno b = next_seqno s"
      "sb_syn b \<longleftrightarrow> sd_next_seqno s = 0" "sb_syn b \<longrightarrow> \<not> sb_fin b \<and> bs_bytes_read st = 0" "sb_fin b \<longrightarrow> eof st"
  shows "sd_advance W s (sd_send b (s\<lparr>sd_stream := st, sd_fined := sb_fin b\<rparr>))"
    "same_window s (sd_send b (s\<lparr>sd_stream := st, sd_fined := sb_fin b\<rparr>))"
    "sd_stream (sd_send b (s\<lparr>sd_stream := st, sd_fined := sb_fin b\<rparr>)) = st"
    "sd_fined (sd_send b (s\<lparr>sd_stream := st, sd_fined := sb_fin b\<rparr>)) = sb_fin b"
    "sd_next_seqno (sd_send b (s\<lparr>sd_stream := st, sd_fined := sb_fin b\<rparr>)) =
       sd_next_seqno s + (bs_bytes_read st - sd_taken s) + (if sb_syn b then 1 else 0) + (if sb_fin b then 1 else 0)"
proof -
  let ?seg = "build_segment b" and ?s' = "sd_send b (s\<lparr>sd_stream := st, sd_fined := sb_fin b\<rparr>)"
  let ?n = "built_length b" and ?a = "sd_next_seqno s"
  note s = inv [unfolded sd_inv_def]
  have rd: "bs_bytes_read st \<le> length W" "length W + 2 < SIZE_MOD" using st(1) by (simp_all add: stream_of_def)
  have len: "length (sb_data b) = bs_bytes_read st - sd_taken s" using b(1) rd by simp
  then have short: "length (sb_data b) \<le> MAX_PAYLOAD_SIZE" using st(3) by simp
  have n: "?n = (bs_bytes_read st - sd_taken s) + (if sb_syn b then 1 else 0) + (if sb_fin b then 1 else 0)"
    by (simp add: built_length_def len)
  have a: "?a = 0 \<and> sd_taken s = 0 \<or> ?a = 1 + sd_taken s" using s nf by simp
  have "?a + ?n \<le> length W + 2" using a n b(3,4) rd st(2) by (auto split: if_splits)
  then have nxt: "add64 ?a ?n = ?a + ?n" using rd by (simp add: add64_exact)
  note eq = sd_send_eq [OF short, of "s\<lparr>sd_stream := st, sd_fined := sb_fin b\<rparr>"]
  show "same_window s ?s'" and st': "sd_stream ?s' = st" and fn': "sd_fined ?s' = sb_fin b"
    by (simp_all add: eq same_window_def)
  show nxt': "sd_next_seqno ?s' = ?a + (bs_bytes_read st - sd_taken s) + (if sb_syn b then 1 else 0) + (if sb_fin b then 1 else 0)"
    using nxt n by (simp add: eq)
  have str: "Buffer_str (ts_payload ?seg) = sb_data b"
    using short by (simp add: MAX_PAYLOAD_SIZE_def SIZE_MOD_def)
  have fin: "sb_fin b \<Longrightarrow> bs_input_ended st \<and> bs_bytes_read st = length W" using b(5) stream_of_eof [OF st(1)] by simp
  have idx: "?a - 1 = sd_taken s" using a by auto
  have "op_of_stream W (Push (sb_data b) (?a - 1) (sb_fin b))"
    unfolding idx using b(1) len st(2) rd fin by simp
  then have seg: "segment_of W (sd_isn s) ?a ?seg"
    using b(2,3) unfolding segment_of_def str next_seqno_def by simp
  have out: "sd_segments_out ?s' = sd_segments_out s @ [?seg]" "sd_isn ?s' = sd_isn s"
    "sd_segments_pending ?s' = sd_segments_pending s @ (if 0 < ?n then [?seg] else [])"
    "rt_running (sd_timer ?s') \<longleftrightarrow> rt_running (sd_timer s) \<or> 0 < ?n"
    "sd_receiver_window_left ?s' = sd_receiver_window_left s" "sd_receiver_window_right ?s' = sd_receiver_window_right s"
    by (simp_all add: eq timer_start_def)
  from s obtain c where c: "chain W (sd_isn s) c (sd_segments_pending s) ?a" by blast
  have "sent_ok W ?s' seg'" if "sent_ok W s seg'" for seg'
    using that nf unfolding sent_ok_def out by blast
  moreover have "sent_ok W ?s' ?seg" using seg unfolding sent_ok_def out fn' by auto
  ultimately have sent: "list_all (sent_ok W ?s') (sd_segments_pending ?s' @ sd_segments_out ?s')"
    using s unfolding out by (auto simp: list_all_iff)
  have "sd_inv W ?s'"
    unfolding sd_inv_def
  proof (intro conjI exI)
    show "stream_of W (sd_stream ?s')" unfolding st' by (rule st(1))
    show "sd_fined ?s' \<longrightarrow> bs_input_ended (sd_stream ?s') \<and> sd_taken ?s' = length W \<and> 0 < sd_next_seqno ?s'"
      unfolding nxt' fn' st' using fin by simp
    show "sd_next_seqno ?s' = 0 \<and> sd_taken ?s' = 0 \<or> sd_next_seqno ?s' = 1 + sd_taken ?s' + (if sd_fined ?s' then 1 else 0)"
      unfolding nxt' st' fn' using a st(2) b(3,4) by auto
    show "chain W (sd_isn ?s') c (sd_segments_pending ?s') (sd_next_seqno ?s')"
      unfolding nxt' out using chain_snoc [OF c seg _ seq_length_build [OF short]] short n
      unfolding str by (simp add: add.assoc)
    show "rt_running (sd_timer ?s') \<longleftrightarrow> sd_segments_pending ?s' \<noteq> []" using s unfolding out by simp
  qed (use s sent out in simp_all)
  moreover have "sd_kept s ?s'"
    unfolding sd_kept_def st' fn' out nxt' using st nf by (simp add: eq)
  moreover have "emits W s [?seg] ?s'"
  proof -
    have "{sd_taken s..<bs_bytes_read st} \<subseteq> seg_positions W (sd_isn s) ?seg"
      unfolding seg_positions_def tr_positions.simps str len
      using seg idx st(2) by (auto intro!: exI [of _ ?a])
    with seg b(3) nf show ?thesis unfolding emits_def out st' fn' by (auto simp del: One_nat_def)
  qed
  ultimately show "sd_advance W s ?s'" by (auto simp: sd_advance_def)
qed

section \<open>Filling the window\<close>

text \<open>
  What a pass of \<open>fill_window\<close> leaves: the FIN is out, or the window is used up to its right edge, or
  there is nothing to send. A sender inside its window stays inside.
\<close>

definition queued :: "TCPSender \<Rightarrow> TCPSegment list \<Rightarrow> TCPSender \<Rightarrow> bool" where
  "queued s new s' \<longleftrightarrow> sd_segments_out s' = sd_segments_out s @ new \<and>
     sd_segments_pending s' = sd_segments_pending s @ new \<and>
     sd_timer s' = (if new = [] \<or> rt_running (sd_timer s) then sd_timer s
                    else timer_start (unat (sd_retransmission_timeout s)) (sd_timer s))"

definition window_filled :: "bytes \<Rightarrow> TCPSender \<Rightarrow> TCPSender \<Rightarrow> bool" where
  "window_filled W s s' \<longleftrightarrow> sd_advance W s s' \<and> same_window s s' \<and>
     (sd_next_seqno s \<le> sd_receiver_window_right s \<longrightarrow> sd_next_seqno s' \<le> sd_receiver_window_right s) \<and>
     (sd_fined s' \<or> sd_next_seqno s' = sd_receiver_window_right s \<or>
      sd_taken s' = length W \<and> \<not> bs_input_ended (sd_stream s')) \<and> (\<exists>new. queued s new s')"

lemma queued_trans:
  assumes "queued s n1 s'" "queued s' n2 s''" "same_window s s'"
  shows "queued s (n1 @ n2) s''"
  using assms by (auto simp: queued_def same_window_def timer_start_def timer_reset_def)

lemma queued_refl: "queued s [] s"
  by (simp add: queued_def)

lemma queued_send:
  "length (sb_data b) \<le> MAX_PAYLOAD_SIZE \<Longrightarrow> 0 < built_length b \<Longrightarrow>
   queued s [build_segment b] (sd_send b (s\<lparr>sd_stream := st, sd_fined := f\<rparr>))"
  by (simp add: sd_send_eq queued_def)

lemma window_filled_step:
  assumes "sd_advance W s s'" "same_window s s'" "queued s n s'" "window_filled W s' s''"
    "sd_next_seqno s \<le> sd_receiver_window_right s \<longrightarrow> sd_next_seqno s' \<le> sd_receiver_window_right s"
  shows "window_filled W s s''"
proof -
  from assms(4) obtain n' where "queued s' n' s''" by (auto simp: window_filled_def)
  with queued_trans [OF assms(3) _ assms(2)] have "queued s (n @ n') s''" by blast
  moreover have "sd_receiver_window_right s' = sd_receiver_window_right s" using assms(2) by (simp add: same_window_def)
  ultimately show ?thesis
    using assms(4,5) sd_advance_trans [OF assms(1)] same_window_trans [OF assms(2)]
    unfolding window_filled_def by auto
qed

lemma sub64_0_iff: "a < SIZE_MOD \<Longrightarrow> b < SIZE_MOD \<Longrightarrow> sub64 a b = 0 \<longleftrightarrow> a = b"
  by (cases "b \<le> a") (auto simp: size_arith)

lemma sd_restream:
  assumes "sd_inv W s" "stream_of W st" "bs_bytes_read st = sd_taken s" "bs_input_ended st = bs_input_ended (sd_stream s)"
    "bs_error st = bs_error (sd_stream s)" "bs_capacity st = bs_capacity (sd_stream s)"
  shows "sd_advance W s (s\<lparr>sd_stream := st\<rparr>) \<and> same_window s (s\<lparr>sd_stream := st\<rparr>)"
proof -
  from assms have "sd_inv W (s\<lparr>sd_stream := st\<rparr>)" by (simp add: sd_inv_def)
  with assms show ?thesis by (auto simp: sd_advance_def sd_kept_def same_window_def emits_def)
qed

lemma next_seqno_restream [simp]: "next_seqno (s\<lparr>sd_stream := st\<rparr>) = next_seqno s"
  by (simp add: next_seqno_def)

text \<open>One pass of the loop: with nothing to do, with nothing to read, and with a segment to send.\<close>

abbreviation window_remaining :: "TCPSender \<Rightarrow> nat" where
  "window_remaining s \<equiv> sub64 (sd_receiver_window_right s) (next_seqno_absolute s)"

lemma fill_pass_done:
  assumes inv: "sd_inv W s" and stop: "\<not> (0 < min (window_remaining s) MAX_PAYLOAD_SIZE \<and> \<not> sd_fined s)"
  shows "fill_loop (Suc fuel) b s = Inr s" "window_filled W s s"
proof -
  show "fill_loop (Suc fuel) b s = Inr s" using stop by (auto simp: fill_loop.simps(2))
  have "sd_fined s \<or> sd_next_seqno s = sd_receiver_window_right s"
    using stop sub64_0_iff [of "sd_receiver_window_right s" "sd_next_seqno s"] inv sd_next_bound [OF inv]
    by (auto simp: sd_inv_def next_seqno_absolute_def MAX_PAYLOAD_SIZE_def)
  then show "window_filled W s s" using sd_advance_refl [OF inv] by (auto simp: window_filled_def same_window_def intro: queued_refl)
qed

lemma fill_pass_empty:
  assumes inv: "sd_inv W s" and limit: "limit = min (window_remaining s) MAX_PAYLOAD_SIZE" "0 < limit" "\<not> sd_fined s"
    and rd: "bs_read True (sd_stream s) limit = Inr ([], st)" and st: "stream_of W st"
      "bs_bytes_read st = sd_taken s + min limit (length W - sd_taken s)"
      "bs_input_ended st = bs_input_ended (sd_stream s)" "bs_error st = bs_error (sd_stream s)"
      "bs_capacity st = bs_capacity (sd_stream s)"
    and none: "extent W (sd_taken s) (bs_bytes_read st) = []" "\<not> eof st"
  shows "fill_loop (Suc fuel) b s = Inr (s\<lparr>sd_stream := st\<rparr>)" "window_filled W s (s\<lparr>sd_stream := st\<rparr>)"
proof -
  have "length (extent W (sd_taken s) (bs_bytes_read st)) = bs_bytes_read st - sd_taken s"
    using st(1) by (simp add: stream_of_def)
  with none(1) have "min limit (length W - sd_taken s) = 0" by (simp add: st(2))
  with limit(2) st(2) have same: "bs_bytes_read st = sd_taken s" "length W \<le> sd_taken s"
    by (auto simp: min_def split: if_splits)
  then have full: "sd_taken s = length W" using st(1) by (simp add: stream_of_def)
  have "\<not> bs_input_ended st" using none(2) stream_of_eof [OF st(1)] same full by simp
  with sd_restream [OF inv st(1) same(1) st(3-5)] full same
  show "window_filled W s (s\<lparr>sd_stream := st\<rparr>)"
    by (auto simp: window_filled_def queued_def intro!: exI [of _ "[]"])
  show "fill_loop (Suc fuel) b s = Inr (s\<lparr>sd_stream := st\<rparr>)"
    using limit(2,3) rd none(2) unfolding fill_loop.simps(2) Let_def limit(1) [symmetric] by simp
qed

lemma fill_pass_send:
  assumes inv: "sd_inv W s" "0 < sd_next_seqno s" and b: "\<not> sb_syn b" "\<not> sb_fin b"
    and limit: "limit = min (window_remaining s) MAX_PAYLOAD_SIZE" "0 < limit" "\<not> sd_fined s"
    and rd: "bs_read True (sd_stream s) limit = Inr (extent W (sd_taken s) (bs_bytes_read st), st)"
    and st: "stream_of W st" "bs_bytes_read st = sd_taken s + min limit (length W - sd_taken s)"
      "bs_input_ended st = bs_input_ended (sd_stream s)" "bs_error st = bs_error (sd_stream s)"
      "bs_capacity st = bs_capacity (sd_stream s)"
    and go: "extent W (sd_taken s) (bs_bytes_read st) \<noteq> [] \<or> eof st"
  obtains b' s' n where "fill_loop (Suc fuel) b s = fill_loop fuel b' s'" "sd_advance W s s'" "same_window s s'"
    "queued s n s'" "sd_fined s' = sb_fin b'" "\<not> sb_syn b'"
    "length W - sd_taken s' + (if sd_fined s' then 0 else 1) < length W - sd_taken s + 1"
    "sd_next_seqno s \<le> sd_receiver_window_right s \<longrightarrow> sd_next_seqno s' \<le> sd_receiver_window_right s"
proof -
  let ?p = "extent W (sd_taken s) (bs_bytes_read st)" and ?k = "min limit (length W - sd_taken s)"
  have len: "length ?p = ?k" using st(1,2) by (simp add: stream_of_def)
  define fin where "fin \<longleftrightarrow> eof st \<and> (length ?p < limit \<or> window_remaining s > limit)"
  define b1 where "b1 = with_data ?p (with_seqno (next_seqno s) b)"
  define b' where "b' = (if fin then with_fin b1 else b1)"
  let ?s' = "sd_send b' (s\<lparr>sd_stream := st, sd_fined := sb_fin b'\<rparr>)"
  have b': "sb_fin b' = fin" "\<not> sb_syn b'" "sb_data b' = ?p" "sb_seqno b' = next_seqno s"
    using b by (simp_all add: b'_def b1_def)
  have keep: "s\<lparr>sd_stream := st, sd_fined := False\<rparr> = s\<lparr>sd_stream := st\<rparr>" using limit(3) by simp
  have loop: "fill_loop (Suc fuel) b s = fill_loop fuel b' ?s'"
    using go limit(2,3) rd b(2) unfolding fill_loop.simps(2) Let_def limit(1) [symmetric]
    by (auto simp: fin_def b'_def b1_def keep)
  have pre: "sd_taken s \<le> bs_bytes_read st" "bs_bytes_read st \<le> sd_taken s + MAX_PAYLOAD_SIZE"
    unfolding st(2) limit(1) by auto
  have c: "sb_syn b' \<longleftrightarrow> sd_next_seqno s = 0" "sb_syn b' \<longrightarrow> \<not> sb_fin b' \<and> bs_bytes_read st = 0" "sb_fin b' \<longrightarrow> eof st"
    using b'(1,2) inv(2) by (simp_all add: fin_def)
  note sp = send_piece [OF inv(1) st(1) pre st(3-5) limit(3) b'(3,4) c]
  have more: "0 < ?k \<or> fin"
    using go limit(2) len unfolding fin_def length_greater_0_conv [symmetric] by auto
  have "sd_next_seqno ?s' \<le> sd_receiver_window_right s" if le: "sd_next_seqno s \<le> sd_receiver_window_right s"
  proof -
    have "sd_next_seqno s + window_remaining s = sd_receiver_window_right s"
      using le inv(1) by (simp add: sd_inv_def next_seqno_absolute_def sub64_exact)
    moreover have "?k + (if fin then 1 else 0) \<le> window_remaining s" unfolding fin_def len limit(1) by auto
    ultimately show ?thesis using b'(1,2) st(2) unfolding sp(5) by simp
  qed
  moreover have "length W - sd_taken ?s' + (if sd_fined ?s' then 0 else 1) < length W - sd_taken s + 1"
    using more b'(1) st(2) unfolding sp(3,4) by auto
  moreover have "queued s [build_segment b'] ?s'"
    using more len b' by (intro queued_send) (auto simp: built_length_def limit(1))
  ultimately show thesis using that [OF loop sp(1,2) _ sp(4) b'(2)] by blast
qed

lemma fill_loop_spec:
  assumes "sd_inv W s" "0 < sd_next_seqno s" "\<not> sb_syn b" "sb_fin b \<longrightarrow> sd_fined s"
    "length W - sd_taken s + (if sd_fined s then 0 else 1) < fuel"
  shows "\<exists>s'. fill_loop fuel b s = Inr s' \<and> window_filled W s s'"
  using assms
proof (induction fuel arbitrary: b s)
  case (Suc fuel)
  let ?limit = "min (window_remaining s) MAX_PAYLOAD_SIZE"
  show ?case
  proof (cases "0 < ?limit \<and> \<not> sd_fined s")
    case False
    then show ?thesis using fill_pass_done [OF Suc.prems(1)] by blast
  next
    case True
    from Suc.prems(1) have "stream_of W (sd_stream s)" by (simp add: sd_inv_def)
    from stream_of_read [OF this, of ?limit] obtain st where
      rd: "bs_read True (sd_stream s) ?limit = Inr (extent W (sd_taken s) (bs_bytes_read st), st)" and st: "stream_of W st"
        "bs_bytes_read st = sd_taken s + min ?limit (length W - sd_taken s)"
        "bs_input_ended st = bs_input_ended (sd_stream s)" "bs_error st = bs_error (sd_stream s)"
        "bs_capacity st = bs_capacity (sd_stream s)" by blast
    show ?thesis
    proof (cases "extent W (sd_taken s) (bs_bytes_read st) = [] \<and> \<not> eof st")
      case none: True
      with fill_pass_empty [OF Suc.prems(1) refl conjunct1 [OF True] conjunct2 [OF True] _ st] rd
      show ?thesis by simp
    next
      case False
      then have go: "extent W (sd_taken s) (bs_bytes_read st) \<noteq> [] \<or> eof st" by blast
      have nofin: "\<not> sb_fin b" using True Suc.prems(4) by blast
      obtain b' s' n where s': "fill_loop (Suc fuel) b s = fill_loop fuel b' s'" "sd_advance W s s'" "same_window s s'"
        "queued s n s'" "sd_fined s' = sb_fin b'" "\<not> sb_syn b'"
        "length W - sd_taken s' + (if sd_fined s' then 0 else 1) < length W - sd_taken s + 1"
        "sd_next_seqno s \<le> sd_receiver_window_right s \<longrightarrow> sd_next_seqno s' \<le> sd_receiver_window_right s"
        by (rule fill_pass_send [where fuel = fuel, OF Suc.prems(1,2,3) nofin refl conjunct1 [OF True] conjunct2 [OF True] rd st go])
      have "\<exists>s''. fill_loop fuel b' s' = Inr s'' \<and> window_filled W s' s''"
        using s' Suc.prems(2,5) True by (intro Suc.IH) (auto simp: sd_advance_def sd_kept_def)
      then show ?thesis using window_filled_step [OF s'(2-4)] s'(8) unfolding s'(1) by blast
    qed
  qed
qed simp

text \<open>\<open>fill_window\<close> returns, in every state.\<close>

lemma fill_window_spec:
  assumes inv: "sd_inv W s"
  shows "\<exists>s'. fill_window s = Inr s' \<and> sd_advance W s s' \<and> same_window s s' \<and> 0 < sd_next_seqno s' \<and>
    (\<exists>new. queued s new s') \<and>
    (if sd_next_seqno s = 0 then sd_next_seqno s' = 1 \<and> sd_stream s' = sd_stream s \<and> \<not> sd_fined s'
     else window_filled W s s')"
proof (cases "sd_next_seqno s = 0")
  case True
  let ?b = "with_syn (with_seqno (next_seqno s) TCPSegmentBuilder_new)"
  have st: "stream_of W (sd_stream s)" and zero: "sd_taken s = 0" "\<not> sd_fined s"
    using inv True by (auto simp: sd_inv_def)
  have "s\<lparr>sd_stream := sd_stream s, sd_fined := sb_fin ?b\<rparr> = s" using zero(2) by simp
  with send_piece [OF inv st _ _ refl refl refl zero(2), of ?b]
    queued_send [where b = ?b and s = s and st = "sd_stream s" and f = "sb_fin ?b"] True zero(1) show ?thesis
    by (auto simp: fill_window_def in_closed_def next_seqno_absolute_def built_length_def)
next
  case False
  have "length W - sd_taken s = length (bs_contents (sd_stream s))" using inv by (simp add: sd_inv_def stream_of_def)
  with fill_loop_spec [OF inv, of TCPSegmentBuilder_new "length (bs_contents (sd_stream s)) + 2"] False
  obtain s' where s': "fill_loop (length (bs_contents (sd_stream s)) + 2) TCPSegmentBuilder_new s = Inr s'" "window_filled W s s'"
    by (cases "sd_fined s") auto
  then have "fill_window s = Inr s'" using False by (simp add: fill_window_def in_closed_def next_seqno_absolute_def)
  with s'(2) False show ?thesis by (auto simp: window_filled_def sd_advance_def sd_kept_def)
qed

section \<open>The other operations\<close>

lemma pop_acked_suffix: "\<exists>k. pop_acked isn left segs = drop k segs"
proof (induction segs)
  case (Cons seg segs)
  then obtain k where k: "pop_acked isn left segs = drop k segs" by blast
  show ?case
  proof (cases "add64 (unwrap (th_seqno (ts_header seg)) isn left) (length_in_sequence_space seg) \<le> left")
    case True
    then have "pop_acked isn left (seg # segs) = drop (Suc k) (seg # segs)" using k by (simp add: Let_def)
    then show ?thesis by blast
  next
    case False
    then have "pop_acked isn left (seg # segs) = drop 0 (seg # segs)" by (simp add: Let_def)
    then show ?thesis by blast
  qed
qed simp

lemma chain_drop: "chain W isn a segs b \<Longrightarrow> \<exists>a'. chain W isn a' (drop k segs) b"
  using chain_append [of W isn a "take k segs" "drop k segs" b] by auto

text \<open>
  Steps that read nothing from the stream: they may change the window, the timer and the timeouts,
  drop segments in flight and repeat what may be sent.
\<close>

lemma sd_advance_acked:
  assumes inv: "sd_inv W s"
    and s': "sd_stream s' = sd_stream s" "sd_isn s' = sd_isn s" "sd_fined s' = sd_fined s" "sd_next_seqno s' = sd_next_seqno s"
      "sd_segments_out s' = sd_segments_out s @ new" "list_all (sent_ok W s) new" "sd_initial_retransmission_timeout s' = sd_initial_retransmission_timeout s"
      "sd_segments_pending s' = drop k (sd_segments_pending s)"
      "rt_running (sd_timer s') \<longleftrightarrow> sd_segments_pending s' \<noteq> []"
      "sd_receiver_window_left s' < SIZE_MOD" "sd_receiver_window_right s' < SIZE_MOD"
  shows "sd_advance W s s'"
proof -
  have ok: "sent_ok W s' = sent_ok W s" by (simp add: fun_eq_iff sent_ok_def s')
  from inv obtain a where "chain W (sd_isn s) a (sd_segments_pending s) (sd_next_seqno s)" by (auto simp: sd_inv_def)
  then have "\<exists>a. chain W (sd_isn s') a (sd_segments_pending s') (sd_next_seqno s')" unfolding s' by (rule chain_drop)
  moreover have "list_all (sent_ok W s') (sd_segments_pending s' @ sd_segments_out s')"
  proof -
    have "list_all (sent_ok W s) (sd_segments_pending s @ sd_segments_out s)" using inv by (simp add: sd_inv_def)
    with s'(6) show ?thesis unfolding ok s'(5,8) by (auto simp: list_all_iff dest: in_set_dropD)
  qed
  ultimately have "sd_inv W s'" using inv s'(9-11) unfolding sd_inv_def s'(1-4) by blast
  then show ?thesis unfolding sd_advance_def sd_kept_def emits_def by (auto simp: s')
qed

lemma unwrap_less: "unwrap n isn c < SIZE_MOD"
  by (auto simp: unwrap_def Let_def)

lemma accept_ackno_fields:
  "sd_stream (accept_ackno A win s) = sd_stream s" "sd_isn (accept_ackno A win s) = sd_isn s"
  "sd_fined (accept_ackno A win s) = sd_fined s" "sd_next_seqno (accept_ackno A win s) = sd_next_seqno s"
  "sd_segments_out (accept_ackno A win s) = sd_segments_out s"
  "sd_initial_retransmission_timeout (accept_ackno A win s) = sd_initial_retransmission_timeout s"
  "sd_segments_pending (accept_ackno A win s) = pop_acked (sd_isn s) A (sd_segments_pending s)"
  "sd_receiver_window_left (accept_ackno A win s) = A"
  "sd_receiver_window_right (accept_ackno A win s) = add64 A (if sd_zero_window_size s then 1 else unat win)"
  "sd_retransmission_timeout (accept_ackno A win s) = sd_initial_retransmission_timeout s"
  "sd_consecutive_retransmissions (accept_ackno A win s) = 0"
  "sd_timer (accept_ackno A win s) =
     (if sd_segments_pending (accept_ackno A win s) = [] then timer_stop (sd_timer s)
      else timer_start (unat (sd_initial_retransmission_timeout s)) (sd_timer s))"
  by (simp_all add: accept_ackno_def update_window_def Let_def)

lemma ack_received_spec:
  assumes inv: "sd_inv W s"
  shows "\<exists>s'. ack_received s ackn win = Inr s' \<and> sd_advance W s s'"
proof -
  let ?A = "unwrap ackn (sd_isn s) (sd_receiver_window_left s)"
  let ?s0 = "s\<lparr>sd_zero_window_size := (win = 0)\<rparr>"
  obtain k where k: "pop_acked (sd_isn s) ?A (sd_segments_pending s) = drop k (sd_segments_pending s)"
    using pop_acked_suffix by blast
  have w: "sd_receiver_window_left s < SIZE_MOD" "sd_receiver_window_right s < SIZE_MOD"
    and run: "rt_running (sd_timer s) \<longleftrightarrow> sd_segments_pending s \<noteq> []"
    using inv by (simp_all add: sd_inv_def)
  have same: "sd_advance W s ?s0" "sd_advance W s (update_window ?A win ?s0)"
    using run w by (auto intro!: sd_advance_acked [OF inv, where k = 0 and new = "[]"] simp: update_window_def Let_def unwrap_less)
  let ?s4 = "accept_ackno ?A win ?s0"
  have adv: "sd_advance W s ?s4"
    using k by (intro sd_advance_acked [OF inv, where k = k and new = "[]"])
      (simp_all add: accept_ackno_fields unwrap_less timer_stop_def timer_start_def)
  then have "sd_inv W ?s4" by (simp add: sd_advance_def)
  from fill_window_spec [OF this] obtain s' where "fill_window ?s4 = Inr s'" "sd_advance W ?s4 s'" by blast
  then show ?thesis
    using same sd_advance_trans [OF adv] unfolding ack_received_def Let_def by auto
qed

lemma sd_tick_fields:
  "sd_stream (sd_tick s ms) = sd_stream s" "sd_isn (sd_tick s ms) = sd_isn s" "sd_fined (sd_tick s ms) = sd_fined s"
  "sd_next_seqno (sd_tick s ms) = sd_next_seqno s" "sd_segments_pending (sd_tick s ms) = sd_segments_pending s"
  "sd_initial_retransmission_timeout (sd_tick s ms) = sd_initial_retransmission_timeout s"
  "sd_receiver_window_left (sd_tick s ms) = sd_receiver_window_left s"
  "sd_receiver_window_right (sd_tick s ms) = sd_receiver_window_right s"
  "sd_zero_window_size (sd_tick s ms) = sd_zero_window_size s"
  by (simp_all add: sd_tick_def Let_def)

lemma sd_tick_spec:
  assumes inv: "sd_inv W s"
  shows "sd_advance W s (sd_tick s ms)"
proof (rule sd_advance_acked [OF inv, where k = 0])
  let ?new = "if sd_segments_pending s \<noteq> [] \<and> timer_timeout (timer_tick ms (sd_timer s)) then [hd (sd_segments_pending s)] else []"
  show "sd_segments_out (sd_tick s ms) = sd_segments_out s @ ?new" by (auto simp: sd_tick_def Let_def)
  show "list_all (sent_ok W s) ?new"
    using inv by (cases "sd_segments_pending s") (simp_all add: sd_inv_def)
  show "rt_running (sd_timer (sd_tick s ms)) \<longleftrightarrow> sd_segments_pending (sd_tick s ms) \<noteq> []"
    using inv unfolding sd_tick_fields
    by (auto simp: sd_inv_def sd_tick_def Let_def timer_start_def timer_stop_def timer_tick_def)
qed (use inv in \<open>simp_all add: sd_tick_fields sd_inv_def\<close>)

lemma send_empty_eq:
  assumes "sd_next_seqno s < SIZE_MOD"
  shows "send_empty_segment s =
    s\<lparr>sd_segments_out := sd_segments_out s @ [build_segment (with_seqno (next_seqno s) TCPSegmentBuilder_new)]\<rparr>"
  using assms unfolding send_empty_segment_def by (subst sd_send_eq) (simp_all add: built_length_def)

lemma send_empty_spec:
  assumes inv: "sd_inv W s" and started: "0 < sd_next_seqno s"
  shows "sd_advance W s (send_empty_segment s)"
proof -
  let ?seg = "build_segment (with_seqno (next_seqno s) TCPSegmentBuilder_new)"
  note bound = sd_next_bound [OF inv]
  have "sent_ok W s ?seg"
    using started bound by (auto simp: sent_ok_def segment_of_def next_seqno_def intro!: exI [of _ "sd_next_seqno s"])
  then show ?thesis
    using inv bound by (intro sd_advance_acked [OF inv, where k = 0 and new = "[?seg]"])
      (auto simp: send_empty_eq sd_inv_def)
qed

text \<open>Writing and closing the stream.\<close>

lemma stream_of_write:
  assumes st: "stream_of W st" and w: "bs_write st data = (st', wc)" and bound: "length (W @ take wc data) + 2 < SIZE_MOD"
  shows "stream_of (W @ take wc data) st'" "bs_bytes_read st' = bs_bytes_read st"
    "bs_input_ended st' = bs_input_ended st" "bs_capacity st' = bs_capacity st" "wc \<le> length data"
proof -
  have inv: "ByteStream_inv st" using st by (simp add: stream_of_def)
  note sp = bs_write_spec [OF inv w]
  show "bs_bytes_read st' = bs_bytes_read st" "bs_input_ended st' = bs_input_ended st" "bs_capacity st' = bs_capacity st"
    by (rule sp)+
  show wc: "wc \<le> length data" using sp(2) by simp
  have "bs_bytes_written st' = length (W @ take wc data)"
    using sp(4) st bound wc by (simp add: stream_of_def add64_exact)
  then show "stream_of (W @ take wc data) st'"
    using st sp(1,3,5) bound by (simp add: stream_of_def)
qed

lemma sent_ok_extend:
  "sent_ok W s seg \<Longrightarrow> \<not> sd_fined s \<Longrightarrow> sd_isn s' = sd_isn s \<Longrightarrow> sent_ok (W @ X) s' seg"
  by (auto simp: sent_ok_def intro: segment_of_append)

lemma sd_inv_write:
  assumes inv: "sd_inv W s" and open_in: "\<not> bs_input_ended (sd_stream s)"
    and w: "bs_write (sd_stream s) data = (st', wc)" and bound: "length (W @ take wc data) + 2 < SIZE_MOD"
  shows "sd_inv (W @ take wc data) (s\<lparr>sd_stream := st'\<rparr>)"
proof -
  have st: "stream_of W (sd_stream s)" using inv by (simp add: sd_inv_def)
  note sw = stream_of_write [OF st w bound]
  have nf: "\<not> sd_fined s" using inv open_in by (auto simp: sd_inv_def)
  then have nofin: "\<forall>seg\<in>set (sd_segments_pending s @ sd_segments_out s). \<not> th_fin (ts_header seg)"
    using inv by (auto simp: sd_inv_def list_all_iff sent_ok_def)
  obtain a where "chain W (sd_isn s) a (sd_segments_pending s) (sd_next_seqno s)" using inv by (auto simp: sd_inv_def)
  then have "chain (W @ take wc data) (sd_isn s) a (sd_segments_pending s) (sd_next_seqno s)"
    using nofin by (intro chain_extend) auto
  moreover have "list_all (sent_ok (W @ take wc data) (s\<lparr>sd_stream := st'\<rparr>)) (sd_segments_pending s @ sd_segments_out s)"
  proof -
    have "list_all (sent_ok W s) (sd_segments_pending s @ sd_segments_out s)" using inv by (simp add: sd_inv_def)
    then show ?thesis by (rule list.pred_mono_strong) (auto intro: sent_ok_extend simp: nf)
  qed
  ultimately show ?thesis using inv sw nf unfolding sd_inv_def by auto
qed

lemma sd_inv_flags:
  assumes "sd_inv W s" "stream_of W st" "bs_bytes_read st = sd_taken s" "bs_input_ended (sd_stream s) \<longrightarrow> bs_input_ended st"
  shows "sd_inv W (s\<lparr>sd_stream := st\<rparr>)"
  using assms by (auto simp: sd_inv_def)

lemma stream_of_flags [simp]: "stream_of W (end_input st) = stream_of W st" "stream_of W (set_error st) = stream_of W st"
  by (simp_all add: stream_of_def)

text \<open>The owner takes the queued segments away.\<close>

lemma sent_ok_flush [simp]: "sent_ok W (s\<lparr>sd_segments_out := o'\<rparr>) = sent_ok W s"
  by (simp add: fun_eq_iff sent_ok_def)

lemma sd_inv_flush: "sd_inv W s \<Longrightarrow> sd_inv W (s\<lparr>sd_segments_out := []\<rparr>)"
  by (auto simp: sd_inv_def)

lemma sent_ok_advance: "sent_ok W s seg \<Longrightarrow> sd_kept s s' \<Longrightarrow> sent_ok W s' seg"
  by (auto simp: sent_ok_def sd_kept_def)

end
