(* ===== verification/Sender_Properties.thy ===== *)
theory Sender_Properties
  imports Sender_Contract
begin

text \<open>
  Runs of the TCP sender and its properties. A run interleaves the application (writing and closing
  the stream), the network (arbitrary acknowledgments, honest or not), the clock and the owner that
  asks for empty segments; the segments the sender queues are moved to a log after every call.
\<close>

section \<open>Runs\<close>

datatype sd_op = App_write bytes | App_close | Fill | Ack_in WrappingInt32 "16 word" | Tick_in size_t | Empty_out

text \<open>
  The application stops writing once it has closed the stream, and the owner sends empty segments
  only after the SYN, as \<open>TCPConnection\<close> does.
\<close>

fun sd_exec :: "sd_op \<Rightarrow> bytes \<Rightarrow> TCPSender \<Rightarrow> (bytes \<times> TCPSender) result" where
  "sd_exec (App_write d) W s =
     (if input_ended (sd_stream s) then Inr (W, s)
      else case bs_write (sd_stream s) d of (st, wc) \<Rightarrow> Inr (W @ take wc d, s\<lparr>sd_stream := st\<rparr>))"
| "sd_exec App_close W s = Inr (W, s\<lparr>sd_stream := end_input (sd_stream s)\<rparr>)"
| "sd_exec Fill W s = result_bind (fill_window s) (\<lambda>s'. Inr (W, s'))"
| "sd_exec (Ack_in n win) W s = result_bind (ack_received s n win) (\<lambda>s'. Inr (W, s'))"
| "sd_exec (Tick_in ms) W s = Inr (W, sd_tick s ms)"
| "sd_exec Empty_out W s = Inr (W, if next_seqno_absolute s > 0 then send_empty_segment s else s)"

fun sd_run :: "sd_op list \<Rightarrow> bytes \<Rightarrow> TCPSegment list \<Rightarrow> TCPSender \<Rightarrow> (bytes \<times> TCPSegment list \<times> TCPSender) result" where
  "sd_run [] W log s = Inr (W, log, s)"
| "sd_run (opn # ops) W log s =
     (case sd_exec opn W s of Inl e \<Rightarrow> Inl e
      | Inr (W', s') \<Rightarrow> sd_run ops W' (log @ sd_segments_out s') (s'\<lparr>sd_segments_out := []\<rparr>))"

fun op_bytes :: "sd_op \<Rightarrow> nat" where
  "op_bytes (App_write d) = length d"
| "op_bytes _ = 0"

text \<open>What the log of a sender contains: pieces of the stream, and all the sender took from it.\<close>

definition log_inv :: "bytes \<Rightarrow> TCPSegment list \<Rightarrow> TCPSender \<Rightarrow> bool" where
  "log_inv W log s \<longleftrightarrow> list_all (sent_ok W s) log \<and>
     {..<sd_taken s} \<subseteq> \<Union> (seg_positions W (sd_isn s) ` set log) \<and>
     (sd_fined s \<longrightarrow> (\<exists>seg\<in>set log. th_fin (ts_header seg))) \<and>
     (0 < sd_next_seqno s \<longrightarrow> (\<exists>seg\<in>set log. segment_of W (sd_isn s) 0 seg))"

lemma log_inv_advance:
  assumes adv: "sd_advance W s s'" and log: "log_inv W log s" and out: "sd_segments_out s = []"
  shows "log_inv W (log @ sd_segments_out s') s'"
proof -
  from adv obtain new where new: "emits W s new s'" and k: "sd_kept s s'" and inv: "sd_inv W s'"
    by (auto simp: sd_advance_def)
  have isn: "sd_isn s' = sd_isn s" "sd_taken s \<le> sd_taken s'" using k by (simp_all add: sd_kept_def)
  have o': "sd_segments_out s' = new" using new out by (simp add: emits_def)
  have "{..<sd_taken s'} \<subseteq> {..<sd_taken s} \<union> {sd_taken s..<sd_taken s'}" by auto
  also have "\<dots> \<subseteq> \<Union> (seg_positions W (sd_isn s) ` set (log @ new))"
    unfolding set_append image_Un Union_Un_distrib
    using log new by (intro Un_mono) (simp_all add: log_inv_def emits_def)
  finally have cover: "{..<sd_taken s'} \<subseteq> \<Union> (seg_positions W (sd_isn s') ` set (log @ new))" by (simp only: isn)
  have "list_all (sent_ok W s') log"
    using log sent_ok_advance [OF _ k] by (auto simp: log_inv_def list_all_iff)
  moreover have "list_all (sent_ok W s') new" using inv o' by (simp add: sd_inv_def)
  moreover have "sd_fined s' \<longrightarrow> (\<exists>seg\<in>set (log @ new). th_fin (ts_header seg))"
    using new log unfolding emits_def log_inv_def set_append bex_Un by blast
  moreover have "0 < sd_next_seqno s' \<longrightarrow> (\<exists>seg\<in>set (log @ new). segment_of W (sd_isn s') 0 seg)"
    using new log unfolding emits_def log_inv_def set_append bex_Un isn by blast
  ultimately show ?thesis using cover unfolding log_inv_def o' by simp
qed

lemma log_inv_flush [simp]: "log_inv W log (s\<lparr>sd_segments_out := o'\<rparr>) = log_inv W log s"
  by (simp add: log_inv_def)

lemma log_inv_write:
  assumes log: "log_inv W log s" and nf: "\<not> sd_fined s" and st: "bs_bytes_read st = sd_taken s"
  shows "log_inv (W @ X) log (s\<lparr>sd_stream := st\<rparr>)"
proof -
  have nofin: "\<not> th_fin (ts_header seg)" if "seg \<in> set log" for seg
    using log nf that by (auto simp: log_inv_def list_all_iff sent_ok_def)
  have "seg_positions W (sd_isn s) seg \<subseteq> seg_positions (W @ X) (sd_isn s) seg" if "seg \<in> set log" for seg
    unfolding seg_positions_def tr_positions.simps using segment_of_append [OF _ nofin [OF that]] by blast
  then have "\<Union> (seg_positions W (sd_isn s) ` set log) \<subseteq> \<Union> (seg_positions (W @ X) (sd_isn s) ` set log)" by blast
  then have "{..<sd_taken s} \<subseteq> \<Union> (seg_positions (W @ X) (sd_isn s) ` set log)"
    using log unfolding log_inv_def by (meson subset_trans)
  moreover have "list_all (sent_ok (W @ X) (s\<lparr>sd_stream := st\<rparr>)) log"
    using log by (auto simp: log_inv_def list_all_iff intro: sent_ok_extend [OF _ nf])
  moreover have "\<exists>seg\<in>set log. segment_of (W @ X) (sd_isn s) 0 seg" if "0 < sd_next_seqno s"
    using log that nofin by (auto simp: log_inv_def intro: segment_of_append)
  ultimately show ?thesis using log nf st unfolding log_inv_def by simp
qed

definition run_state :: "bytes \<Rightarrow> TCPSegment list \<Rightarrow> TCPSender \<Rightarrow> bool" where
  "run_state W log s \<longleftrightarrow> sd_inv W s \<and> log_inv W log s \<and> sd_segments_out s = []"

lemma run_state_advance:
  "run_state W log s \<Longrightarrow> sd_advance W s s' \<Longrightarrow> run_state W (log @ sd_segments_out s') (s'\<lparr>sd_segments_out := []\<rparr>)"
  using log_inv_advance [of W s s' log] sd_inv_flush [of W s'] by (simp add: run_state_def sd_advance_def)

lemma run_state_flush: "run_state W log s \<Longrightarrow> run_state W log (s\<lparr>sd_segments_out := []\<rparr>)"
  by (simp add: run_state_def sd_inv_flush)

lemma sd_exec_spec:
  assumes st: "run_state W log s" and bound: "length W + op_bytes opn + 2 < SIZE_MOD"
  shows "\<exists>W' s'. sd_exec opn W s = Inr (W', s') \<and> length W' \<le> length W + op_bytes opn \<and> sd_isn s' = sd_isn s \<and>
    run_state W' (log @ sd_segments_out s') (s'\<lparr>sd_segments_out := []\<rparr>)"
proof -
  have inv: "sd_inv W s" and log: "log_inv W log s" and out: "sd_segments_out s = []"
    using st by (simp_all add: run_state_def)
  have adv: ?thesis if "sd_exec opn W s = Inr (W, s')" "sd_advance W s s'" for s'
    using that run_state_advance [OF st that(2)] by (auto simp: sd_advance_def sd_kept_def)
  show ?thesis
  proof (cases opn)
    case (App_write d)
    show ?thesis
    proof (cases "bs_input_ended (sd_stream s)")
      case True
      with App_write adv sd_advance_refl [OF inv] show ?thesis by (simp add: input_ended_def)
    next
      case False
      obtain st' wc where w: "bs_write (sd_stream s) d = (st', wc)" by (cases "bs_write (sd_stream s) d")
      have so: "stream_of W (sd_stream s)" using inv by (simp add: sd_inv_def)
      have b: "length (W @ take wc d) + 2 < SIZE_MOD" using bound App_write by simp
      note sw = stream_of_write [OF so w b]
      have "\<not> sd_fined s" using inv False by (auto simp: sd_inv_def)
      from log_inv_write [OF log this sw(2)] sd_inv_write [OF inv False w b] out
      have "run_state (W @ take wc d) log (s\<lparr>sd_stream := st'\<rparr>)" by (simp add: run_state_def)
      from run_state_flush [OF this] show ?thesis using App_write False w out by (simp add: input_ended_def)
    qed
  next
    case App_close
    have so: "stream_of W (sd_stream s)" using inv by (simp add: sd_inv_def)
    have "sd_inv W (s\<lparr>sd_stream := end_input (sd_stream s)\<rparr>)" by (rule sd_inv_flags [OF inv]) (simp_all add: so)
    moreover have "log_inv W log (s\<lparr>sd_stream := end_input (sd_stream s)\<rparr>)"
      using log by (simp add: log_inv_def)
    ultimately have "run_state W log (s\<lparr>sd_stream := end_input (sd_stream s)\<rparr>)" using out by (simp add: run_state_def)
    from run_state_flush [OF this] show ?thesis using App_close out by simp
  next
    case Fill
    with fill_window_spec [OF inv] adv show ?thesis by auto
  next
    case (Ack_in n win)
    with ack_received_spec [OF inv] adv show ?thesis by (metis result_bind_simps(2) sd_exec.simps(4))
  next
    case (Tick_in ms)
    with sd_tick_spec [OF inv] adv show ?thesis by simp
  next
    case Empty_out
    with send_empty_spec [OF inv] sd_advance_refl [OF inv] adv show ?thesis by (simp add: next_seqno_absolute_def)
  qed
qed

lemma sd_run_spec:
  assumes "run_state W log s" "length W + sum_list (map op_bytes ops) + 2 < SIZE_MOD"
  shows "\<exists>W' log' s'. sd_run ops W log s = Inr (W', log', s') \<and> run_state W' log' s' \<and> sd_isn s' = sd_isn s \<and>
    length W' \<le> length W + sum_list (map op_bytes ops)"
  using assms
proof (induction ops arbitrary: W log s)
  case (Cons opn ops)
  from sd_exec_spec [OF Cons.prems(1), of opn] Cons.prems(2) obtain W1 s1 where
    s1: "sd_exec opn W s = Inr (W1, s1)" "length W1 \<le> length W + op_bytes opn" "sd_isn s1 = sd_isn s"
      "run_state W1 (log @ sd_segments_out s1) (s1\<lparr>sd_segments_out := []\<rparr>)" by auto
  with Cons.IH [OF s1(4)] Cons.prems(2) show ?case by fastforce
qed simp

lemma run_state_new: "capacity < SIZE_MOD \<Longrightarrow> run_state [] [] (TCPSender_new capacity retx fixed rnd)"
  using sd_inv_new [of capacity retx fixed rnd] stream_of_new [of capacity]
  by (auto simp: run_state_def log_inv_def TCPSender_new_def) (simp_all add: ByteStream_new_def)

lemma sd_run_reaches:
  assumes "capacity < SIZE_MOD" "sum_list (map op_bytes ops) + 2 < SIZE_MOD"
    and "sd_run ops [] [] (TCPSender_new capacity retx fixed rnd) = Inr (W, log, s)"
  shows "run_state W log s"
  using sd_run_spec [OF run_state_new [OF assms(1), of retx fixed rnd], of ops] assms(2,3) by auto

section \<open>Acknowledged segments\<close>

text \<open>The segments of a chain from \<open>a\<close> that reach beyond the absolute sequence number \<open>A\<close>.\<close>

fun unacked :: "nat \<Rightarrow> nat \<Rightarrow> TCPSegment list \<Rightarrow> TCPSegment list" where
  "unacked A a [] = []"
| "unacked A a (seg # segs) =
     (if a + length_in_sequence_space seg \<le> A then unacked A (a + length_in_sequence_space seg) segs else seg # segs)"

lemma pop_acked_unacked:
  assumes "chain W isn a segs b" "A + 2 ^ 32 < SIZE_MOD" "A < a + 2 ^ 31" "b \<le> A + 2 ^ 31"
  shows "pop_acked isn A segs = unacked A a segs"
  using assms
proof (induction segs arbitrary: a)
  case (Cons seg segs)
  let ?n = "length_in_sequence_space seg"
  from Cons.prems(1) have seg: "segment_of W isn a seg" and c: "chain W isn (a + ?n) segs b" by simp_all
  from chain_le [OF c] Cons.prems(2,4) have le: "a + ?n \<le> b" "a + ?n < SIZE_MOD" by (simp_all add: SIZE_MOD_def)
  have "unwrap (th_seqno (ts_header seg)) isn A = a"
    using seg Cons.prems(2-4) le(1) unwrap_wrap_near [of A a isn] by (simp add: segment_of_def)
  then show ?case
    using Cons.IH [OF c Cons.prems(2) _ Cons.prems(4)] Cons.prems(3) le(2) by (simp add: Let_def add64_exact)
qed simp

lemma unacked_all: "chain W isn a segs b \<Longrightarrow> b \<le> A \<Longrightarrow> unacked A a segs = []"
  using chain_le by (induction segs arbitrary: a) fastforce+

lemma chain_first_less: "chain W isn a segs b \<Longrightarrow> segs \<noteq> [] \<Longrightarrow> a < b"
  by (cases segs) (auto dest: chain_le)

text \<open>A new acknowledgment within the window, with the decoding of \<open>A\<close> done.\<close>

lemma ack_new:
  assumes inv: "sd_inv W s" and c: "chain W (sd_isn s) a (sd_segments_pending s) (sd_next_seqno s)"
    and A: "sd_receiver_window_left s < A" "A \<le> sd_receiver_window_right s"
    and small: "A + 65536 \<le> 2 ^ 31" "length W + 3 \<le> 2 ^ 31"
  shows "\<exists>s' new. ack_received s (wrap A (sd_isn s)) win = Inr s' \<and> sd_advance W s s' \<and>
    sd_segments_out s' = sd_segments_out s @ new \<and>
    sd_segments_pending s' = unacked A a (sd_segments_pending s) @ new \<and>
    sd_receiver_window_left s' = A \<and> sd_receiver_window_right s' = A + max 1 (unat win) \<and>
    sd_retransmission_timeout s' = sd_initial_retransmission_timeout s \<and> sd_consecutive_retransmissions s' = 0 \<and>
    (sd_segments_pending s' \<noteq> [] \<longrightarrow>
       sd_timer s' = \<lparr>rt_timeout = unat (sd_initial_retransmission_timeout s), rt_time_elapsed = 0, rt_running = True\<rparr>)"
proof -
  let ?s4 = "accept_ackno A win (s\<lparr>sd_zero_window_size := (win = 0)\<rparr>)"
  have Asz: "A < SIZE_MOD" using small(1) by (simp add: SIZE_MOD_def)
  have A': "unwrap (wrap A (sd_isn s)) (sd_isn s) (sd_receiver_window_left s) = A"
    using A(1) small by (intro unwrap_wrap_near) (simp_all add: SIZE_MOD_def)
  have pop: "pop_acked (sd_isn s) A (sd_segments_pending s) = unacked A a (sd_segments_pending s)"
    using small sd_next_bound [OF inv] by (intro pop_acked_unacked [OF c]) (simp_all add: SIZE_MOD_def)
  obtain k where k: "pop_acked (sd_isn s) A (sd_segments_pending s) = drop k (sd_segments_pending s)"
    using pop_acked_suffix by blast
  have adv: "sd_advance W s ?s4"
    using k Asz by (intro sd_advance_acked [OF inv, where k = k and new = "[]"])
      (simp_all add: accept_ackno_fields timer_stop_def timer_start_def)
  then have "sd_inv W ?s4" by (simp add: sd_advance_def)
  from fill_window_spec [OF this] obtain s' new where
    s': "fill_window ?s4 = Inr s'" "sd_advance W ?s4 s'" "same_window ?s4 s'" "queued ?s4 new s'" by blast
  have "ack_received s (wrap A (sd_isn s)) win = Inr s'" using A s'(1) by (simp add: ack_received_def A')
  moreover have "add64 A (if win = 0 then 1 else unat win) = A + max 1 (unat win)"
  proof -
    have "max 1 (unat win) \<le> 65536" using unat_width_less(2) [of win] by linarith
    with small(1) have "A + max 1 (unat win) \<le> 2 ^ 31" by linarith
    then have "A + max 1 (unat win) < SIZE_MOD" by (simp add: SIZE_MOD_def)
    moreover have "(if win = 0 then 1 else unat win) = max 1 (unat win)"
      by (cases "win = 0") (simp_all add: Suc_le_eq unat_gt_0 max_def)
    ultimately show ?thesis by (simp only: add64_exact)
  qed
  ultimately show ?thesis
    using sd_advance_trans [OF adv s'(2)] s'(3,4)
    by (intro exI [of _ s'] exI [of _ new])
      (auto simp: same_window_def queued_def accept_ackno_fields pop timer_start_def timer_reset_def timer_stop_def)
qed

section \<open>Time\<close>






section \<open>An example\<close>

text \<open>
  A sender with the initial sequence number 100 that has taken two of five bytes; they are in
  flight, the SYN is acknowledged.
\<close>

definition example_sender :: "uint64 \<Rightarrow> TCPSender" where
  "example_sender right =
     (TCPSender_new 10 1000 (Some 100) 0)
       \<lparr>sd_stream := (ByteStream_new 10)\<lparr>bs_bytes_written := 5, bs_bytes_read := 2,
                                         bs_buffer := [Buffer_of_string [3, 4, 5]]\<rparr>,
        sd_next_seqno := 3, sd_receiver_window_left := 1, sd_receiver_window_right := right,
        sd_segments_pending := [seg_example 101 False False [1, 2]],
        sd_timer := timer_start 1000 RetransmissionTimer_new\<rparr>"

lemma example_sender_fields [simp]:
  "sd_isn (example_sender right) = 100" "sd_next_seqno (example_sender right) = 3"
  "sd_segments_pending (example_sender right) = [seg_example 101 False False [1, 2]]"
  "sd_receiver_window_left (example_sender right) = 1" "sd_receiver_window_right (example_sender right) = right"
  "sd_fined (example_sender right) = False" "sd_zero_window_size (example_sender right) = False"
  "sd_retransmission_timeout (example_sender right) = 1000" "sd_taken (example_sender right) = 2"
  by (simp_all add: example_sender_def TCPSender_new_def)

lemma example_segment: "segment_of [1, 2, 3, 4, 5] 100 1 (seg_example 101 False False [1, 2])"
  "length_in_sequence_space (seg_example 101 False False [1, 2]) = 2"
  by (simp_all add: segment_of_def seg_example_def wrap_eq extent_def SIZE_MOD_def length_in_sequence_space_def
      add64_def TCPHeader_default_def)

lemma example_chain: "chain [1, 2, 3, 4, 5] 100 1 [seg_example 101 False False [1, 2]] 3"
  using example_segment by (simp add: seg_example_def MAX_PAYLOAD_SIZE_def SIZE_MOD_def)

lemma example_sender_inv:
  assumes "right < SIZE_MOD"
  shows "sd_inv [1, 2, 3, 4, 5] (example_sender right)"
proof -
  have "stream_of [1, 2, 3, 4, 5] (sd_stream (example_sender right))"
    by (simp add: example_sender_def stream_of_def ByteStream_inv_def ByteStream_new_def BufferList_wf_def
        buffer_size_def sub64_def SIZE_MOD_def)
  moreover have "sent_ok [1, 2, 3, 4, 5] (example_sender right) (seg_example 101 False False [1, 2])"
    using example_segment by (auto simp: sent_ok_def seg_example_def TCPHeader_default_def)
  moreover have "sd_segments_out (example_sender right) = []" "rt_running (sd_timer (example_sender right))"
    by (simp_all add: example_sender_def TCPSender_new_def timer_start_def)
  moreover have "1 < SIZE_MOD" by (simp add: SIZE_MOD_def)
  ultimately show ?thesis using assms example_chain by (auto simp: sd_inv_def)
qed

section \<open>Properties\<close>

text \<open>
  C3. Whatever the application writes, whatever acknowledgments arrive and however time passes, the
  sender never fails, and every segment it emits is a piece of the stream of the bytes it accepted,
  with its sequence number, the SYN only on the first and the FIN only at the end. Together the
  emitted segments carry every byte taken from the stream, the SYN and, once sent, the FIN.
\<close>

theorem tcp_sender_emits_stream:
  assumes "capacity < SIZE_MOD" and "sum_list (map op_bytes ops) + 2 < SIZE_MOD"
  shows "\<exists>W log s. sd_run ops [] [] (TCPSender_new capacity retx fixed rnd) = Inr (W, log, s) \<and>
    (\<forall>seg\<in>set log. \<exists>a. segment_of W (sd_isn s) a seg) \<and>
    {..<bytes_read (sd_stream s)} \<subseteq> \<Union> (tr_positions (sd_isn s) W ` Receive ` set log) \<and>
    (fined s \<longrightarrow> bytes_read (sd_stream s) = length W \<and> (\<exists>seg\<in>set log. th_fin (ts_header seg))) \<and>
    (\<not> in_closed s \<longrightarrow> (\<exists>seg\<in>set log. segment_of W (sd_isn s) 0 seg))"
proof -
  from sd_run_spec [OF run_state_new [OF assms(1), of retx fixed rnd], of ops] assms(2) obtain W log s where
    run: "sd_run ops [] [] (TCPSender_new capacity retx fixed rnd) = Inr (W, log, s)" and st: "run_state W log s" by auto
  have inv: "sd_inv W s" and log: "log_inv W log s" using st by (simp_all add: run_state_def)
  have "\<forall>seg\<in>set log. \<exists>a. segment_of W (sd_isn s) a seg" using log by (auto simp: log_inv_def list_all_iff sent_ok_def)
  moreover have "{..<bytes_read (sd_stream s)} \<subseteq> \<Union> (tr_positions (sd_isn s) W ` Receive ` set log)"
    using log unfolding log_inv_def bytes_read_def image_image seg_positions_def by blast
  moreover have "fined s \<longrightarrow> bytes_read (sd_stream s) = length W \<and> (\<exists>seg\<in>set log. th_fin (ts_header seg))"
    using inv log by (auto simp: sd_inv_def log_inv_def fined_def bytes_read_def)
  moreover have "\<not> in_closed s \<longrightarrow> (\<exists>seg\<in>set log. segment_of W (sd_isn s) 0 seg)"
    using log by (simp add: log_inv_def in_closed_def next_seqno_absolute_def)
  ultimately show ?thesis using run by blast
qed

theorem tcp_sender_emits_stream_witness:
  "\<exists>W log s. sd_run [Fill, Ack_in 101 10, App_write [1, 2, 3], Fill, App_close, Fill, Tick_in 1000] [] []
      (TCPSender_new 100 1000 (Some 100) 0) = Inr (W, log, s) \<and>
    (\<forall>seg\<in>set log. \<exists>a. segment_of W (sd_isn s) a seg)"
proof -
  have h: "(100 :: nat) < SIZE_MOD"
    "sum_list (map op_bytes [Fill, Ack_in 101 10, App_write [1, 2, 3], Fill, App_close, Fill, Tick_in 1000]) + 2 < SIZE_MOD"
    by (simp_all add: SIZE_MOD_def)
  from tcp_sender_emits_stream [OF h, of 1000 "Some 100" 0] show ?thesis by blast
qed

text \<open>
  C4. \<open>fill_window\<close> terminates and returns in every state of the sender. Before the SYN has been sent it
  sends just that. After that it stops only with the right edge of the window reached exactly, with the
  FIN sent, or with nothing left to send and the stream still open; and if what was sent before the call
  lies within the window the receiver announced, what has been sent after it does too.
\<close>

theorem fill_window_fills:
  assumes "sd_inv W s"
  shows "\<exists>s'. fill_window s = Inr s' \<and> sd_inv W s' \<and>
    (in_closed s \<longrightarrow> next_seqno_absolute s' = 1 \<and> sd_stream s' = sd_stream s \<and>
       (\<exists>seg. sd_segments_out s' = sd_segments_out s @ [seg] \<and> th_syn (ts_header seg))) \<and>
    (\<not> in_closed s \<longrightarrow>
       next_seqno_absolute s' = sd_receiver_window_right s \<or> fined s' \<or>
       buffer_empty (sd_stream s') \<and> \<not> input_ended (sd_stream s')) \<and>
    (\<not> in_closed s \<and> next_seqno_absolute s \<le> sd_receiver_window_right s \<longrightarrow>
       next_seqno_absolute s' \<le> sd_receiver_window_right s)"
proof (cases "in_closed s")
  case True
  from fill_window_spec [OF assms] True obtain s' where s': "fill_window s = Inr s'" "sd_advance W s s'" "sd_next_seqno s' = 1"
    "sd_stream s' = sd_stream s" by (auto simp: in_closed_def next_seqno_absolute_def)
  have "\<exists>seg. sd_segments_out s' = sd_segments_out s @ [seg] \<and> th_syn (ts_header seg)"
    using s'(1) True by (auto simp: fill_window_def sd_send_def Let_def build_segment_def builder_defs)
  with s' True show ?thesis by (auto simp: next_seqno_absolute_def sd_advance_def)
next
  case False
  from fill_window_spec [OF assms] False obtain s' where s': "fill_window s = Inr s'" "window_filled W s s'"
    by (auto simp: in_closed_def next_seqno_absolute_def)
  then have inv: "sd_inv W s'" by (simp add: window_filled_def sd_advance_def)
  then have "buffer_empty (sd_stream s') \<longleftrightarrow> sd_taken s' = length W"
    using ByteStream_invD(2) [of "sd_stream s'"] by (auto simp: buffer_empty_def sd_inv_def stream_of_def)
  with s' inv False show ?thesis
    by (auto simp: window_filled_def next_seqno_absolute_def fined_def input_ended_def)
qed

theorem fill_window_fills_witness:
  "\<exists>s'. fill_window (example_sender 5) = Inr s' \<and> next_seqno_absolute s' \<le> 5"
  using fill_window_fills [OF example_sender_inv, of 5]
  by (force simp: SIZE_MOD_def in_closed_def next_seqno_absolute_def)

text \<open>
  C5. An acknowledgment of \<open>A\<close>, new and within what was sent, removes from the segments in flight
  exactly those that lie entirely below \<open>A\<close>, although the code compares 32-bit sequence numbers;
  the window becomes the one announced (at least 1), the timeout and the count of retransmissions
  start over, and the timer restarts with the initial timeout unless nothing is in flight.
\<close>

theorem ack_received_removes_acked:
  assumes "sd_inv W s" and "chain W (sd_isn s) a (sd_segments_pending s) (sd_next_seqno s)"
    and "sd_receiver_window_left s < A" and "A \<le> next_seqno_absolute s" and "A \<le> sd_receiver_window_right s"
    and "length W + 65538 \<le> 2 ^ 31"
  shows "\<exists>s' new. ack_received s (wrap A (sd_isn s)) win = Inr s' \<and>
    sd_segments_out s' = sd_segments_out s @ new \<and>
    sd_segments_pending s' = unacked A a (sd_segments_pending s) @ new \<and>
    sd_receiver_window_left s' = A \<and> sd_receiver_window_right s' = A + max 1 (unat win) \<and>
    sd_retransmission_timeout s' = sd_initial_retransmission_timeout s \<and> consecutive_retransmissions s' = 0 \<and>
    (sd_segments_pending s' \<noteq> [] \<longrightarrow>
       sd_timer s' = \<lparr>rt_timeout = unat (sd_initial_retransmission_timeout s), rt_time_elapsed = 0, rt_running = True\<rparr>)"
proof -
  have "A + 65536 \<le> 2 ^ 31" "length W + 3 \<le> 2 ^ 31"
    using assms(4,6) sd_next_bound [OF assms(1)] by (simp_all add: next_seqno_absolute_def)
  from ack_new [OF assms(1,2,3,5) this, of win] show ?thesis unfolding consecutive_retransmissions_def by blast
qed

theorem ack_received_removes_acked_witness:
  "\<exists>s' new. ack_received (example_sender 5) (wrap 3 100) 10 = Inr s' \<and>
     sd_segments_pending s' = unacked 3 1 [seg_example 101 False False [1, 2]] @ new \<and>
     sd_receiver_window_right s' = 3 + max 1 (unat (10 :: 16 word))"
proof -
  have inv: "sd_inv [1, 2, 3, 4, 5] (example_sender 5)" by (rule example_sender_inv) (simp add: SIZE_MOD_def)
  have c: "chain [1, 2, 3, 4, 5] (sd_isn (example_sender 5)) 1 (sd_segments_pending (example_sender 5))
      (sd_next_seqno (example_sender 5))"
    using example_chain by simp
  from ack_received_removes_acked [OF inv c, of 3 10] show ?thesis by (fastforce simp: next_seqno_absolute_def)
qed



text \<open>
  C39. The subtraction that computes the rest of the window is not guarded: when the receiver has
  taken window back, so that the right edge lies behind what was sent, \<open>fill_window\<close> sends every byte
  the stream holds at once.
\<close>

theorem shrunk_window_overruns:
  assumes "sd_inv W s" and "\<not> in_closed s" and "sd_receiver_window_right s < next_seqno_absolute s"
  shows "\<exists>s'. fill_window s = Inr s' \<and> bytes_read (sd_stream s') = length W \<and> buffer_empty (sd_stream s')"
proof -
  from fill_window_spec [OF assms(1)] assms(2) obtain s' where s': "fill_window s = Inr s'" "window_filled W s s'"
    by (auto simp: in_closed_def next_seqno_absolute_def)
  then have inv: "sd_inv W s'" and le: "sd_next_seqno s \<le> sd_next_seqno s'"
    by (simp_all add: window_filled_def sd_advance_def sd_kept_def)
  have "sd_taken s' = length W"
    using s'(2) le assms(3) inv by (auto simp: window_filled_def next_seqno_absolute_def sd_inv_def)
  moreover from this have "buffer_empty (sd_stream s')"
    using inv ByteStream_invD(2) [of "sd_stream s'"] by (auto simp: buffer_empty_def sd_inv_def stream_of_def)
  ultimately show ?thesis using s'(1) by (simp add: bytes_read_def)
qed

theorem shrunk_window_overruns_witness:
  "\<exists>s'. fill_window (example_sender 2) = Inr s' \<and> bytes_read (sd_stream s') = 5"
  using shrunk_window_overruns [OF example_sender_inv, of 2]
  by (auto simp: SIZE_MOD_def in_closed_def next_seqno_absolute_def)

text \<open>
  C40. An acknowledgment of bytes that were never sent is accepted when it lies within the announced
  window: the segments in flight are dropped and will not be sent again.
\<close>

theorem impossible_ack_accepted:
  assumes "sd_inv W s" and "sd_receiver_window_left s < A" and "next_seqno_absolute s < A"
    and "A \<le> sd_receiver_window_right s" and "A + 65536 \<le> 2 ^ 31" and "length W + 3 \<le> 2 ^ 31"
  shows "\<exists>s' new. ack_received s (wrap A (sd_isn s)) win = Inr s' \<and> sd_receiver_window_left s' = A \<and>
    sd_segments_out s' = sd_segments_out s @ new \<and> sd_segments_pending s' = new"
proof -
  from assms(1) obtain a where c: "chain W (sd_isn s) a (sd_segments_pending s) (sd_next_seqno s)" by (auto simp: sd_inv_def)
  have "unacked A a (sd_segments_pending s) = []"
    by (rule unacked_all [OF c]) (use assms(3) in \<open>simp add: next_seqno_absolute_def\<close>)
  with ack_new [OF assms(1) c assms(2,4-6), of win] show ?thesis by auto
qed

theorem impossible_ack_accepted_witness:
  "\<exists>s' new. ack_received (example_sender 5) (wrap 4 100) 10 = Inr s' \<and> sd_receiver_window_left s' = 4 \<and>
     sd_segments_out s' = sd_segments_out (example_sender 5) @ new \<and> sd_segments_pending s' = new"
  using impossible_ack_accepted [OF example_sender_inv, of 5 4 10]
  by (simp add: SIZE_MOD_def next_seqno_absolute_def)

end
