(* ===== verification/TCP_Connection.thy ===== *)
theory TCP_Connection
  imports Sender_Contract
begin

text \<open>
  libsponge/tcp\_connection.hh and tcp\_connection.cc, and the summary of a connection's state of
  tcp\_helpers/tcp\_state.hh and tcp\_state.cc: one endpoint, made of a receiver and a sender.

  An operation that can fail (a segment that makes the receiver fail) returns a \<open>result\<close>; the others are
  plain functions. The destructor is \<open>TCPConnection_destroy\<close>: the state the owner can still read the
  last segments from. Its warning on cerr is not modelled.
\<close>

section \<open>State\<close>

record TCPConnection =
  tc_cfg :: TCPConfig
  tc_receiver :: TCPReceiver
  tc_sender :: TCPSender
  tc_segments_out :: "TCPSegment list"
  tc_linger_after_streams_finish :: bool
  tc_time_since_last_segment_received :: size_t
  tc_time_done :: "size_t option"
  tc_active :: bool
  tc_rst_set :: bool

definition TCPConnection_new :: "TCPConfig \<Rightarrow> 32 word \<Rightarrow> TCPConnection" where
  "TCPConnection_new cfg random_isn =
     \<lparr>tc_cfg = cfg, tc_receiver = TCPReceiver_new (cfg_recv_capacity cfg),
      tc_sender = TCPSender_new (cfg_send_capacity cfg) (cfg_rt_timeout cfg) (cfg_fixed_isn cfg) random_isn,
      tc_segments_out = [], tc_linger_after_streams_finish = True,
      tc_time_since_last_segment_received = 0, tc_time_done = None, tc_active = True, tc_rst_set = False\<rparr>"

abbreviation tc_inbound_stream :: "TCPConnection \<Rightarrow> ByteStream" where
  "tc_inbound_stream c \<equiv> tr_stream_out (tc_receiver c)"

abbreviation tc_outbound_stream :: "TCPConnection \<Rightarrow> ByteStream" where
  "tc_outbound_stream c \<equiv> sd_stream (tc_sender c)"

definition remaining_outbound_capacity :: "TCPConnection \<Rightarrow> size_t" where
  "remaining_outbound_capacity c = remaining_capacity (tc_outbound_stream c)"

definition tc_bytes_in_flight :: "TCPConnection \<Rightarrow> size_t" where
  "tc_bytes_in_flight c = sd_bytes_in_flight (tc_sender c)"

definition tc_unassembled_bytes :: "TCPConnection \<Rightarrow> size_t" where
  "tc_unassembled_bytes c = tr_unassembled_bytes (tc_receiver c)"

definition time_since_last_segment_received :: "TCPConnection \<Rightarrow> size_t" where
  "time_since_last_segment_received c = tc_time_since_last_segment_received c"

section \<open>Private operations\<close>

definition stamp_segment :: "TCPConnection \<Rightarrow> TCPSegment \<Rightarrow> TCPSegment" where
  "stamp_segment c seg =
     (let h = ts_header seg;
          h = (case ackno (tc_receiver c) of None \<Rightarrow> h | Some n \<Rightarrow> h\<lparr>th_ack := True, th_ackno := n\<rparr>);
          h = (if window_size (tc_receiver c) > 65535 then h\<lparr>th_win := 65535\<rparr>
               else h\<lparr>th_win := word_of_nat (window_size (tc_receiver c))\<rparr>);
          h = (if tc_rst_set c then h\<lparr>th_rst := True\<rparr> else h)
      in seg\<lparr>ts_header := h\<rparr>)"

definition send_outbound_segments :: "TCPConnection \<Rightarrow> TCPConnection" where
  "send_outbound_segments c =
     c\<lparr>tc_segments_out := tc_segments_out c @ map (stamp_segment c) (sd_segments_out (tc_sender c)),
       tc_sender := (tc_sender c)\<lparr>sd_segments_out := []\<rparr>\<rparr>"

definition tc_done :: "TCPConnection \<Rightarrow> bool" where
  "tc_done c \<longleftrightarrow>
     (eof (tc_inbound_stream c) \<or> bs_error (tc_inbound_stream c)) \<and>
     (bs_error (tc_outbound_stream c) \<or>
      eof (tc_outbound_stream c) \<and> sd_bytes_in_flight (tc_sender c) = 0 \<and> fined (tc_sender c))"

definition check_done :: "TCPConnection \<Rightarrow> TCPConnection" where
  "check_done c =
     (if tc_done c \<and> tc_time_done c = None
      then c\<lparr>tc_time_done := Some (tc_time_since_last_segment_received c)\<rparr> else c)"

definition tr_set_error :: "TCPReceiver \<Rightarrow> TCPReceiver" where
  "tr_set_error r = r\<lparr>tr_reassembler := (tr_reassembler r)\<lparr>sr_output := set_error (sr_output (tr_reassembler r))\<rparr>\<rparr>"

definition tc_reset :: "bool \<Rightarrow> TCPConnection \<Rightarrow> TCPConnection" where
  "tc_reset send_rst c =
     (let c1 = c\<lparr>tc_receiver := tr_set_error (tc_receiver c)\<rparr>;
          c2 = c1\<lparr>tc_sender := (tc_sender c1)\<lparr>sd_stream := end_input (set_error (sd_stream (tc_sender c1))),
                                              sd_segments_out := []\<rparr>,
                  tc_linger_after_streams_finish := False\<rparr>
      in if send_rst
         then send_outbound_segments (c2\<lparr>tc_rst_set := True, tc_sender := send_empty_segment (tc_sender c2)\<rparr>)
         else c2)"

section \<open>Public operations\<close>

definition tc_active_now :: "TCPConnection \<Rightarrow> bool" where
  "tc_active_now c \<longleftrightarrow>
     (if \<not> tc_done c then True
      else if \<not> tc_linger_after_streams_finish c then False
      else case tc_time_done c of
             Some t \<Rightarrow> sub64 (tc_time_since_last_segment_received c) t < 10 * unat (cfg_rt_timeout (tc_cfg c))
           | None \<Rightarrow> False)"

definition tc_segment_received :: "TCPConnection \<Rightarrow> TCPSegment \<Rightarrow> TCPConnection result" where
  "tc_segment_received c0 seg =
     (let c = c0\<lparr>tc_time_since_last_segment_received := 0\<rparr>; h = ts_header seg in
      if th_rst h then
        if in_listen (tc_receiver c) \<and> in_closed (tc_sender c) then Inr c
        else if in_syn_sent (tc_sender c) \<and> \<not> th_ack h then Inr c
        else Inr (tc_reset False c)
      else if in_listen (tc_receiver c) \<and> \<not> th_syn h then Inr c
      else if in_syn_sent (tc_sender c) \<and> th_ack h \<and> Buffer_size (ts_payload seg) > 0 then Inr c
      else
        result_bind (tr_segment_received (tc_receiver c) seg) (\<lambda>r.
        result_bind
          (if th_ack h \<and> next_seqno_absolute (tc_sender c) > 0
           then result_bind (ack_received (tc_sender c) (th_ackno h) (th_win h)) fill_window
           else Inr (tc_sender c)) (\<lambda>s1.
        result_bind
          (if th_syn h \<and> next_seqno_absolute s1 = 0 then fill_window s1
           else if length_in_sequence_space seg > 0 \<and> next_seqno_absolute s1 > 0 then Inr (send_empty_segment s1)
           else Inr s1) (\<lambda>s2.
        let c1 = send_outbound_segments (c\<lparr>tc_receiver := r, tc_sender := s2\<rparr>);
            c2 = (if eof (tc_inbound_stream c1) \<and> \<not> eof (tc_outbound_stream c1)
                  then c1\<lparr>tc_linger_after_streams_finish := False\<rparr> else c1)
        in Inr (check_done c2)))))"

definition fill_and_send :: "TCPConnection \<Rightarrow> TCPConnection result" where
  "fill_and_send c = result_bind (fill_window (tc_sender c)) (\<lambda>s. Inr (send_outbound_segments (c\<lparr>tc_sender := s\<rparr>)))"

definition tc_write :: "TCPConnection \<Rightarrow> bytes \<Rightarrow> (TCPConnection \<times> size_t) result" where
  "tc_write c data =
     (case bs_write (tc_outbound_stream c) data of (st, wc) \<Rightarrow>
        result_bind (fill_and_send (c\<lparr>tc_sender := (tc_sender c)\<lparr>sd_stream := st\<rparr>\<rparr>)) (\<lambda>c'. Inr (c', wc)))"

definition tc_tick :: "TCPConnection \<Rightarrow> size_t \<Rightarrow> TCPConnection" where
  "tc_tick c ms_since_last_tick =
     (let c1 = c\<lparr>tc_time_since_last_segment_received := add64 (tc_time_since_last_segment_received c) ms_since_last_tick,
                 tc_sender := sd_tick (tc_sender c) ms_since_last_tick\<rparr>;
          c2 = (if consecutive_retransmissions (tc_sender c1) > MAX_RETX_ATTEMPTS then tc_reset True c1 else c1)
      in check_done (send_outbound_segments c2))"

definition end_input_stream :: "TCPConnection \<Rightarrow> TCPConnection result" where
  "end_input_stream c =
     result_bind (fill_and_send (c\<lparr>tc_sender := (tc_sender c)\<lparr>sd_stream := end_input (tc_outbound_stream c)\<rparr>\<rparr>))
       (\<lambda>c'. Inr (check_done c'))"

definition connect :: "TCPConnection \<Rightarrow> TCPConnection result" where
  "connect c = result_bind (fill_and_send c) (\<lambda>c'. Inr (check_done c'))"

definition TCPConnection_destroy :: "TCPConnection \<Rightarrow> TCPConnection" where
  "TCPConnection_destroy c = (if tc_active_now c then tc_reset True c else c)"

section \<open>The official states\<close>

definition receiver_ERROR :: string where
  "receiver_ERROR = ''error (connection was reset)''"

definition receiver_LISTEN :: string where
  "receiver_LISTEN = ''waiting for SYN: ackno is empty''"

definition receiver_SYN_RECV :: string where
  "receiver_SYN_RECV = ''SYN received (ackno exists), and input to stream hasn't ended''"

definition receiver_FIN_RECV :: string where
  "receiver_FIN_RECV = ''input to stream has ended''"

definition sender_ERROR :: string where
  "sender_ERROR = ''error (connection was reset)''"

definition sender_CLOSED :: string where
  "sender_CLOSED = ''waiting for stream to begin (no SYN sent)''"

definition sender_SYN_SENT :: string where
  "sender_SYN_SENT = ''stream started but nothing acknowledged''"

definition sender_SYN_ACKED :: string where
  "sender_SYN_ACKED = ''stream ongoing''"

definition sender_FIN_SENT :: string where
  "sender_FIN_SENT = ''stream finished (FIN sent) but not fully acknowledged''"

definition sender_FIN_ACKED :: string where
  "sender_FIN_ACKED = ''stream finished and fully acknowledged''"

lemmas summary_defs = receiver_ERROR_def receiver_LISTEN_def receiver_SYN_RECV_def receiver_FIN_RECV_def
  sender_ERROR_def sender_CLOSED_def sender_SYN_SENT_def sender_SYN_ACKED_def sender_FIN_SENT_def sender_FIN_ACKED_def

datatype State =
  LISTEN | SYN_RCVD | SYN_SENT | ESTABLISHED | CLOSE_WAIT | LAST_ACK
  | FIN_WAIT_1 | FIN_WAIT_2 | CLOSING | TIME_WAIT | CLOSED | RESET

record TCPState =
  st_sender :: string
  st_receiver :: string
  st_active :: bool
  st_linger_after_streams_finish :: bool

definition TCPState_default :: TCPState where
  "TCPState_default = \<lparr>st_sender = [], st_receiver = [], st_active = True, st_linger_after_streams_finish = True\<rparr>"

fun TCPState_of_State :: "State \<Rightarrow> TCPState" where
  "TCPState_of_State LISTEN = TCPState_default\<lparr>st_receiver := receiver_LISTEN, st_sender := sender_CLOSED\<rparr>"
| "TCPState_of_State SYN_RCVD = TCPState_default\<lparr>st_receiver := receiver_SYN_RECV, st_sender := sender_SYN_SENT\<rparr>"
| "TCPState_of_State SYN_SENT = TCPState_default\<lparr>st_receiver := receiver_LISTEN, st_sender := sender_SYN_SENT\<rparr>"
| "TCPState_of_State ESTABLISHED = TCPState_default\<lparr>st_receiver := receiver_SYN_RECV, st_sender := sender_SYN_ACKED\<rparr>"
| "TCPState_of_State CLOSE_WAIT =
     TCPState_default\<lparr>st_receiver := receiver_FIN_RECV, st_sender := sender_SYN_ACKED,
                      st_linger_after_streams_finish := False\<rparr>"
| "TCPState_of_State LAST_ACK =
     TCPState_default\<lparr>st_receiver := receiver_FIN_RECV, st_sender := sender_FIN_SENT,
                      st_linger_after_streams_finish := False\<rparr>"
| "TCPState_of_State CLOSING = TCPState_default\<lparr>st_receiver := receiver_FIN_RECV, st_sender := sender_FIN_SENT\<rparr>"
| "TCPState_of_State FIN_WAIT_1 = TCPState_default\<lparr>st_receiver := receiver_SYN_RECV, st_sender := sender_FIN_SENT\<rparr>"
| "TCPState_of_State FIN_WAIT_2 = TCPState_default\<lparr>st_receiver := receiver_SYN_RECV, st_sender := sender_FIN_ACKED\<rparr>"
| "TCPState_of_State TIME_WAIT = TCPState_default\<lparr>st_receiver := receiver_FIN_RECV, st_sender := sender_FIN_ACKED\<rparr>"
| "TCPState_of_State RESET =
     TCPState_default\<lparr>st_receiver := receiver_ERROR, st_sender := sender_ERROR,
                      st_linger_after_streams_finish := False, st_active := False\<rparr>"
| "TCPState_of_State CLOSED =
     TCPState_default\<lparr>st_receiver := receiver_FIN_RECV, st_sender := sender_FIN_ACKED,
                      st_linger_after_streams_finish := False, st_active := False\<rparr>"

definition receiver_state_summary :: "TCPReceiver \<Rightarrow> string" where
  "receiver_state_summary r =
     (if bs_error (tr_stream_out r) then receiver_ERROR
      else if ackno r = None then receiver_LISTEN
      else if input_ended (tr_stream_out r) then receiver_FIN_RECV
      else receiver_SYN_RECV)"

definition sender_state_summary :: "TCPSender \<Rightarrow> string" where
  "sender_state_summary s =
     (if bs_error (sd_stream s) then sender_ERROR
      else if next_seqno_absolute s = 0 then sender_CLOSED
      else if next_seqno_absolute s = sd_bytes_in_flight s then sender_SYN_SENT
      else if \<not> eof (sd_stream s) then sender_SYN_ACKED
      else if next_seqno_absolute s < add64 (bytes_written (sd_stream s)) 2 then sender_SYN_ACKED
      else if sd_bytes_in_flight s \<noteq> 0 then sender_FIN_SENT
      else sender_FIN_ACKED)"

definition TCPState_new :: "TCPSender \<Rightarrow> TCPReceiver \<Rightarrow> bool \<Rightarrow> bool \<Rightarrow> TCPState" where
  "TCPState_new s r active linger =
     \<lparr>st_sender = sender_state_summary s, st_receiver = receiver_state_summary r, st_active = active,
      st_linger_after_streams_finish = (if active then linger else False)\<rparr>"

definition tc_state :: "TCPConnection \<Rightarrow> TCPState" where
  "tc_state c = TCPState_new (tc_sender c) (tc_receiver c) (tc_active_now c) (tc_linger_after_streams_finish c)"

definition TCPState_eq :: "TCPState \<Rightarrow> TCPState \<Rightarrow> bool" where
  "TCPState_eq a b \<longleftrightarrow>
     st_active a = st_active b \<and> st_linger_after_streams_finish a = st_linger_after_streams_finish b \<and>
     st_sender a = st_sender b \<and> st_receiver a = st_receiver b"

definition bool_to_string :: "bool \<Rightarrow> string" where
  "bool_to_string b = (if b then ''1'' else ''0'')"

definition TCPState_name :: "TCPState \<Rightarrow> string" where
  "TCPState_name t =
     ''sender=`'' @ st_sender t @ ''`, receiver=`'' @ st_receiver t @ ''`, active='' @ bool_to_string (st_active t) @
     '', linger_after_streams_finish='' @ bool_to_string (st_linger_after_streams_finish t)"

end
