(* ===== verification/Connection_Contract.thy ===== *)
theory Connection_Contract
  imports TCP_Connection
begin

text \<open>
  Runs of one endpoint. Its two halves are treated apart: whatever arrives from the network, the
  endpoint only emits resets and pieces of the bytes its application wrote; and as long as what
  arrives are resets and pieces of a stream \<open>S\<close>, its application reads a prefix of \<open>S\<close>.
\<close>

section \<open>Calls of an endpoint\<close>

datatype tc_op =
  Tc_connect | Tc_write bytes | Tc_close | Tc_tick size_t | Tc_read size_t | Tc_receive TCPSegment | Tc_destroy

text \<open>
  One call, with the bytes accepted from the application and those handed to it so far. The
  application does not write to a stream that has ended.
\<close>

fun tc_exec :: "tc_op \<Rightarrow> bytes \<Rightarrow> bytes \<Rightarrow> TCPConnection \<Rightarrow> (bytes \<times> bytes \<times> TCPConnection) result" where
  "tc_exec Tc_connect W del c = result_bind (connect c) (\<lambda>c'. Inr (W, del, c'))"
| "tc_exec (Tc_write d) W del c =
     (if input_ended (tc_outbound_stream c) then Inr (W, del, c)
      else result_bind (tc_write c d) (\<lambda>(c', wc). Inr (W @ take wc d, del, c')))"
| "tc_exec Tc_close W del c = result_bind (end_input_stream c) (\<lambda>c'. Inr (W, del, c'))"
| "tc_exec (Tc_tick ms) W del c = Inr (W, del, tc_tick c ms)"
| "tc_exec (Tc_read n) W del c =
     result_bind (sr_consume (tr_reassembler (tc_receiver c)) n) (\<lambda>(x, re).
       Inr (W, del @ x, c\<lparr>tc_receiver := (tc_receiver c)\<lparr>tr_reassembler := re\<rparr>\<rparr>))"
| "tc_exec (Tc_receive seg) W del c = result_bind (tc_segment_received c seg) (\<lambda>c'. Inr (W, del, c'))"
| "tc_exec Tc_destroy W del c = Inr (W, del, TCPConnection_destroy c)"

section \<open>The sending half\<close>

definition frame_ok :: "bytes \<Rightarrow> TCPSender \<Rightarrow> TCPSegment \<Rightarrow> bool" where
  "frame_ok W s seg \<longleftrightarrow> th_rst (ts_header seg) \<or> sent_ok W s seg"

definition tc_sender_inv :: "bytes \<Rightarrow> TCPConnection \<Rightarrow> bool" where
  "tc_sender_inv W c \<longleftrightarrow> sd_inv W (tc_sender c) \<and> sd_segments_out (tc_sender c) = [] \<and>
     list_all (frame_ok W (tc_sender c)) (tc_segments_out c)"

definition tc_grows :: "bytes \<Rightarrow> TCPConnection \<Rightarrow> bytes \<Rightarrow> TCPConnection \<Rightarrow> bool" where
  "tc_grows W c W' c' \<longleftrightarrow> tc_sender_inv W' c' \<and> sd_isn (tc_sender c') = sd_isn (tc_sender c) \<and> prefix W W' \<and>
     (\<forall>seg. frame_ok W (tc_sender c) seg \<longrightarrow> frame_ok W' (tc_sender c') seg) \<and>
     prefix (tc_segments_out c) (tc_segments_out c')"

lemma tc_grows_trans: "tc_grows W c W' c' \<Longrightarrow> tc_grows W' c' W'' c'' \<Longrightarrow> tc_grows W c W'' c''"
  by (auto simp: tc_grows_def intro: prefix_order.trans)

lemma tc_grows_same:
  "tc_sender_inv W c \<Longrightarrow> tc_sender c' = tc_sender c \<Longrightarrow> tc_segments_out c' = tc_segments_out c \<Longrightarrow> tc_grows W c W c'"
  by (simp add: tc_grows_def tc_sender_inv_def)

lemma stamp_segment_simps [simp]:
  "ts_payload (stamp_segment c seg) = ts_payload seg"
  "th_seqno (ts_header (stamp_segment c seg)) = th_seqno (ts_header seg)"
  "th_syn (ts_header (stamp_segment c seg)) = th_syn (ts_header seg)"
  "th_fin (ts_header (stamp_segment c seg)) = th_fin (ts_header seg)"
  "th_rst (ts_header (stamp_segment c seg)) = (tc_rst_set c \<or> th_rst (ts_header seg))"
  by (simp_all add: stamp_segment_def Let_def split: option.split)

lemma frame_ok_stamp: "sent_ok W s seg \<Longrightarrow> frame_ok W s (stamp_segment c seg)"
  by (simp add: frame_ok_def sent_ok_def segment_of_def)

lemma frame_ok_flush [simp]: "frame_ok W (s\<lparr>sd_segments_out := o'\<rparr>) = frame_ok W s"
  by (simp add: fun_eq_iff frame_ok_def)

text \<open>Whatever the sender queued on its way from \<open>tc_sender c\<close> is stamped and emitted.\<close>

lemma tc_grows_send:
  assumes inv: "tc_sender_inv W c" and adv: "sd_advance W (tc_sender c) (tc_sender c')"
    and out: "tc_segments_out c' = tc_segments_out c"
  shows "tc_grows W c W (send_outbound_segments c')"
proof -
  let ?s = "tc_sender c" and ?s' = "tc_sender c'"
  have k: "sd_kept ?s ?s'" and inv': "sd_inv W ?s'" using adv by (simp_all add: sd_advance_def)
  have mono: "frame_ok W ?s seg \<longrightarrow> frame_ok W ?s' seg" for seg
    using sent_ok_advance [OF _ k] by (auto simp: frame_ok_def)
  have "list_all (frame_ok W ?s') (tc_segments_out c)"
    using inv mono by (auto simp: tc_sender_inv_def list_all_iff)
  moreover have "list_all (frame_ok W ?s') (map (stamp_segment c') (sd_segments_out ?s'))"
    using inv' by (auto simp: sd_inv_def list_all_iff intro: frame_ok_stamp)
  ultimately show ?thesis
    using mono k sd_inv_flush [OF inv'] out
    by (auto simp: tc_grows_def tc_sender_inv_def send_outbound_segments_def sd_kept_def)
qed

lemma tc_grows_reset:
  assumes inv: "tc_sender_inv W c"
  shows "tc_grows W c W (tc_reset b c)"
proof -
  let ?st = "end_input (set_error (sd_stream (tc_sender c)))"
  define s where "s = (tc_sender c)\<lparr>sd_stream := ?st, sd_segments_out := []\<rparr>"
  have i: "sd_inv W (tc_sender c)" using inv by (simp add: tc_sender_inv_def)
  then have "stream_of W ?st" by (simp add: sd_inv_def)
  with sd_inv_flush [OF sd_inv_flags [OF i, of ?st]] have s: "sd_inv W s" by (simp add: s_def)
  have frames: "frame_ok W s = frame_ok W (tc_sender c)" by (simp add: s_def fun_eq_iff frame_ok_def)
  have bound: "sd_next_seqno s < SIZE_MOD" using sd_next_bound [OF s] by simp
  have empty: "(send_empty_segment s)\<lparr>sd_segments_out := []\<rparr> = s" "sd_segments_out s = []"
    by (simp_all add: send_empty_eq [OF bound]) (simp_all add: s_def)
  have isn: "sd_isn s = sd_isn (tc_sender c)" by (simp add: s_def)
  obtain new where out: "tc_segments_out (tc_reset b c) = tc_segments_out c @ new" "\<forall>seg\<in>set new. th_rst (ts_header seg)"
    by (cases b) (auto simp: tc_reset_def send_outbound_segments_def Let_def)
  have sender: "tc_sender (tc_reset b c) = s"
    using empty by (cases b) (simp_all add: tc_reset_def send_outbound_segments_def Let_def flip: s_def)
  have "list_all (frame_ok W (tc_sender c)) (tc_segments_out c @ new)"
    using inv out(2) by (auto simp: tc_sender_inv_def list_all_iff frame_ok_def)
  then show ?thesis using s empty(2) by (simp add: tc_grows_def tc_sender_inv_def sender frames isn out(1))
qed

lemma tc_grows_check_done: "tc_grows W c W' c' \<Longrightarrow> tc_grows W c W' (check_done c')"
  by (simp add: check_done_def tc_grows_def tc_sender_inv_def)

text \<open>Filling the window and sending, after a change of the stream that keeps the invariant.\<close>

lemma tc_grows_fill:
  assumes inv: "tc_sender_inv W c" and fill: "fill_and_send c = Inr c'"
  shows "tc_grows W c W c'"
proof -
  have "sd_inv W (tc_sender c)" using inv by (simp add: tc_sender_inv_def)
  from fill_window_spec [OF this] obtain s where "fill_window (tc_sender c) = Inr s" "sd_advance W (tc_sender c) s" by blast
  with tc_grows_send [OF inv, of "c\<lparr>tc_sender := s\<rparr>"] fill show ?thesis by (simp add: fill_and_send_def)
qed

lemma tc_grows_drop:
  assumes inv: "tc_sender_inv W c" and adv: "sd_advance W (tc_sender c) s"
    and c': "tc_sender c' = s\<lparr>sd_segments_out := []\<rparr>" "tc_segments_out c' = tc_segments_out c"
  shows "tc_grows W c W c'"
proof -
  have k: "sd_kept (tc_sender c) s" and inv': "sd_inv W s" using adv by (simp_all add: sd_advance_def)
  have mono: "frame_ok W (tc_sender c) seg \<longrightarrow> frame_ok W s seg" for seg
    using sent_ok_advance [OF _ k] by (auto simp: frame_ok_def)
  then show ?thesis using inv k sd_inv_flush [OF inv'] c'
    by (auto simp: tc_grows_def tc_sender_inv_def sd_kept_def list_all_iff)
qed

lemma tc_grows_tick:
  assumes inv: "tc_sender_inv W c"
  shows "tc_grows W c W (tc_tick c ms)"
proof -
  let ?s = "sd_tick (tc_sender c) ms"
  let ?c1 = "c\<lparr>tc_time_since_last_segment_received := add64 (tc_time_since_last_segment_received c) ms, tc_sender := ?s\<rparr>"
  have adv: "sd_advance W (tc_sender c) ?s" using inv sd_tick_spec by (simp add: tc_sender_inv_def)
  define c2 where "c2 = (if consecutive_retransmissions ?s > MAX_RETX_ATTEMPTS then tc_reset True ?c1 else ?c1)"
  have "tc_grows W c W (send_outbound_segments c2)"
  proof (cases "consecutive_retransmissions ?s > MAX_RETX_ATTEMPTS")
    case True
    let ?c1' = "?c1\<lparr>tc_sender := ?s\<lparr>sd_segments_out := []\<rparr>\<rparr>"
    have g: "tc_grows W c W ?c1'" by (rule tc_grows_drop [OF inv adv]) simp_all
    then have "tc_grows W ?c1' W (tc_reset True ?c1')" by (intro tc_grows_reset) (simp add: tc_grows_def)
    moreover have "tc_reset True ?c1' = c2" using True by (simp add: c2_def tc_reset_def)
    ultimately have g2: "tc_grows W c W c2" using tc_grows_trans [OF g] by simp
    then have "tc_grows W c2 W (send_outbound_segments c2)"
      by (intro tc_grows_send sd_advance_refl) (simp_all add: tc_grows_def tc_sender_inv_def)
    with g2 show ?thesis by (rule tc_grows_trans)
  next
    case False
    then show ?thesis unfolding c2_def by (intro tc_grows_send [OF inv]) (simp_all add: adv)
  qed
  moreover have "tc_tick c ms = check_done (send_outbound_segments c2)" by (simp add: tc_tick_def c2_def Let_def)
  ultimately show ?thesis using tc_grows_check_done by simp
qed

text \<open>What the sender does on a segment that is neither a reset nor dropped.\<close>

definition sender_reaction :: "TCPSender \<Rightarrow> TCPSegment \<Rightarrow> TCPSender result" where
  "sender_reaction s seg =
     (let h = ts_header seg in
      result_bind
        (if th_ack h \<and> next_seqno_absolute s > 0
         then result_bind (ack_received s (th_ackno h) (th_win h)) fill_window
         else Inr s) (\<lambda>s1.
      if th_syn h \<and> next_seqno_absolute s1 = 0 then fill_window s1
      else if length_in_sequence_space seg > 0 \<and> next_seqno_absolute s1 > 0 then Inr (send_empty_segment s1)
      else Inr s1))"

lemma sender_reaction_spec:
  assumes inv: "sd_inv W s"
  shows "\<exists>s'. sender_reaction s seg = Inr s' \<and> sd_advance W s s'"
proof -
  have "\<exists>s1. (if th_ack (ts_header seg) \<and> next_seqno_absolute s > 0
      then result_bind (ack_received s (th_ackno (ts_header seg)) (th_win (ts_header seg))) fill_window
      else Inr s) = Inr s1 \<and> sd_advance W s s1"
  proof (cases "th_ack (ts_header seg) \<and> next_seqno_absolute s > 0")
    case True
    from ack_received_spec [OF inv] obtain s' where
      s': "ack_received s (th_ackno (ts_header seg)) (th_win (ts_header seg)) = Inr s'" "sd_advance W s s'" by blast
    then have "sd_inv W s'" by (simp add: sd_advance_def)
    from fill_window_spec [OF this] obtain s1 where "fill_window s' = Inr s1" "sd_advance W s' s1" by blast
    with True s' sd_advance_trans [OF s'(2)] show ?thesis by auto
  qed (use sd_advance_refl [OF inv] in auto)
  then obtain s1 where s1: "(if th_ack (ts_header seg) \<and> next_seqno_absolute s > 0
      then result_bind (ack_received s (th_ackno (ts_header seg)) (th_win (ts_header seg))) fill_window
      else Inr s) = Inr s1" "sd_advance W s s1" by blast
  then have inv1: "sd_inv W s1" by (simp add: sd_advance_def)
  note adv = sd_advance_trans [OF s1(2)]
  from fill_window_spec [OF inv1] obtain s2 where s2: "fill_window s1 = Inr s2" "sd_advance W s1 s2" by blast
  have "sd_advance W s1 (send_empty_segment s1)" if "next_seqno_absolute s1 > 0"
    using send_empty_spec [OF inv1] that by (simp add: next_seqno_absolute_def)
  with s1 s2 adv show ?thesis by (auto simp: sender_reaction_def Let_def)
qed

text \<open>The cases of \<open>segment_received\<close>.\<close>

definition after_segment :: "TCPConnection \<Rightarrow> TCPReceiver \<Rightarrow> TCPSender \<Rightarrow> TCPConnection" where
  "after_segment c r s =
     (let c1 = send_outbound_segments (c\<lparr>tc_receiver := r, tc_sender := s\<rparr>)
      in check_done (if eof (tc_inbound_stream c1) \<and> \<not> eof (tc_outbound_stream c1)
                     then c1\<lparr>tc_linger_after_streams_finish := False\<rparr> else c1))"

definition drops :: "TCPConnection \<Rightarrow> TCPSegment \<Rightarrow> bool" where
  "drops c seg \<longleftrightarrow> in_listen (tc_receiver c) \<and> \<not> th_syn (ts_header seg) \<or>
     in_syn_sent (tc_sender c) \<and> th_ack (ts_header seg) \<and> Buffer_size (ts_payload seg) > 0"

lemma segment_received_dropped:
  "\<not> th_rst (ts_header seg) \<Longrightarrow> drops c seg \<Longrightarrow>
   tc_segment_received c seg = Inr (c\<lparr>tc_time_since_last_segment_received := 0\<rparr>)"
  by (auto simp: tc_segment_received_def Let_def drops_def)

lemma segment_received_accepted:
  "\<not> th_rst (ts_header seg) \<Longrightarrow> \<not> drops c seg \<Longrightarrow>
   tc_segment_received c seg = result_bind (tr_segment_received (tc_receiver c) seg) (\<lambda>r.
     result_bind (sender_reaction (tc_sender c) seg) (\<lambda>s. Inr (after_segment (c\<lparr>tc_time_since_last_segment_received := 0\<rparr>) r s)))"
  by (auto simp: tc_segment_received_def Let_def after_segment_def sender_reaction_def drops_def result_bind_assoc)

lemma segment_received_cases:
  assumes "tc_segment_received c seg = Inr c'"
  obtains (dropped) "c' = c\<lparr>tc_time_since_last_segment_received := 0\<rparr>"
    | (reset) "th_rst (ts_header seg)" "c' = tc_reset False (c\<lparr>tc_time_since_last_segment_received := 0\<rparr>)"
    | (accepted) r s where "\<not> th_rst (ts_header seg)" "tr_segment_received (tc_receiver c) seg = Inr r"
        "sender_reaction (tc_sender c) seg = Inr s" "c' = after_segment (c\<lparr>tc_time_since_last_segment_received := 0\<rparr>) r s"
proof (cases "th_rst (ts_header seg)")
  case True
  with assms that(1,2) show thesis by (auto simp: tc_segment_received_def Let_def split: if_splits)
next
  case False
  show thesis
  proof (cases "drops c seg")
    case True
    with assms that(1) segment_received_dropped [OF False] show thesis by simp
  next
    case go: False
    with assms that(3) [OF False] segment_received_accepted [OF False] show thesis by (auto simp: result_bind_Inr_iff)
  qed
qed

lemma tc_grows_receive:
  assumes inv: "tc_sender_inv W c" and ret: "tc_segment_received c seg = Inr c'"
  shows "tc_grows W c W c'"
  using ret
proof (cases rule: segment_received_cases)
  case dropped
  then show ?thesis by (intro tc_grows_same [OF inv]) simp_all
next
  case reset
  have "tc_grows W c W (c\<lparr>tc_time_since_last_segment_received := 0\<rparr>)" by (rule tc_grows_same [OF inv]) simp_all
  then show ?thesis using tc_grows_trans tc_grows_reset unfolding reset(2) by (metis tc_grows_def)
next
  case (accepted r s)
  have "sd_inv W (tc_sender c)" using inv by (simp add: tc_sender_inv_def)
  from sender_reaction_spec [OF this, of seg] accepted(3) have "sd_advance W (tc_sender c) s" by auto
  then have "tc_grows W c W (send_outbound_segments (c\<lparr>tc_time_since_last_segment_received := 0, tc_receiver := r, tc_sender := s\<rparr>))"
    by (intro tc_grows_send [OF inv]) simp_all
  then show ?thesis unfolding accepted(4) after_segment_def Let_def
    by (intro tc_grows_check_done) (auto simp: tc_grows_def tc_sender_inv_def)
qed

lemma tc_grows_restream:
  assumes inv: "tc_sender_inv W c" and s: "sd_inv W' (tc_sender c\<lparr>sd_stream := st\<rparr>)"
    and frames: "W' = W \<or> \<not> sd_fined (tc_sender c) \<and> prefix W W'"
    and c': "c' = c\<lparr>tc_sender := (tc_sender c)\<lparr>sd_stream := st\<rparr>\<rparr>"
  shows "tc_grows W c W' c'"
proof -
  have "sent_ok W (tc_sender c) seg \<Longrightarrow> sent_ok W' ((tc_sender c)\<lparr>sd_stream := st\<rparr>) seg" for seg
    using frames sent_ok_extend by (auto elim!: prefixE simp del: sent_ok_restream) (simp add: sent_ok_def)
  then have "frame_ok W (tc_sender c) seg \<longrightarrow> frame_ok W' ((tc_sender c)\<lparr>sd_stream := st\<rparr>) seg" for seg
    by (simp add: frame_ok_def)
  with inv s frames c' show ?thesis by (auto simp: tc_grows_def tc_sender_inv_def list_all_iff)
qed

lemma tc_exec_grows:
  assumes inv: "tc_sender_inv W c" and ret: "tc_exec opn W del c = Inr (W', del', c')" and bound: "length W' + 2 < SIZE_MOD"
  shows "tc_grows W c W' c'"
proof (cases opn)
  case Tc_connect
  with ret obtain c1 where "W' = W" "fill_and_send c = Inr c1" "c' = check_done c1"
    by (auto simp: connect_def result_bind_Inr_iff)
  with tc_grows_check_done [OF tc_grows_fill [OF inv]] show ?thesis by simp
next
  case (Tc_write d)
  show ?thesis
  proof (cases "input_ended (tc_outbound_stream c)")
    case True
    with Tc_write ret tc_grows_same [OF inv] show ?thesis by simp
  next
    case False
    obtain st wc where w: "bs_write (tc_outbound_stream c) d = (st, wc)" by (cases "bs_write (tc_outbound_stream c) d")
    let ?c1 = "c\<lparr>tc_sender := (tc_sender c)\<lparr>sd_stream := st\<rparr>\<rparr>"
    from Tc_write ret False w have W': "W' = W @ take wc d" and f: "fill_and_send ?c1 = Inr c'"
      by (auto simp: tc_write_def result_bind_Inr_iff)
    have i: "sd_inv W (tc_sender c)" and op: "\<not> bs_input_ended (tc_outbound_stream c)"
      using inv False by (simp_all add: tc_sender_inv_def input_ended_def)
    then have nf: "\<not> sd_fined (tc_sender c)" by (auto simp: sd_inv_def)
    have g: "tc_grows W c W' ?c1"
      using sd_inv_write [OF i op w] bound W' nf by (intro tc_grows_restream [OF inv, of _ st]) simp_all
    then have "tc_sender_inv W' ?c1" by (simp add: tc_grows_def)
    from tc_grows_trans [OF g tc_grows_fill [OF this f]] show ?thesis .
  qed
next
  case Tc_close
  let ?c1 = "c\<lparr>tc_sender := (tc_sender c)\<lparr>sd_stream := end_input (tc_outbound_stream c)\<rparr>\<rparr>"
  from Tc_close ret obtain c2 where c2: "W' = W" "fill_and_send ?c1 = Inr c2" "c' = check_done c2"
    by (auto simp: end_input_stream_def result_bind_Inr_iff)
  have i: "sd_inv W (tc_sender c)" using inv by (simp add: tc_sender_inv_def)
  then have "sd_inv W ((tc_sender c)\<lparr>sd_stream := end_input (tc_outbound_stream c)\<rparr>)"
    by (intro sd_inv_flags) (simp_all add: sd_inv_def)
  then have g: "tc_grows W c W ?c1" by (intro tc_grows_restream [OF inv]) simp_all
  then have "tc_sender_inv W ?c1" by (simp add: tc_grows_def)
  from tc_grows_check_done [OF tc_grows_trans [OF g tc_grows_fill [OF this c2(2)]]] c2 show ?thesis by simp
next
  case (Tc_tick ms)
  with ret tc_grows_tick [OF inv, of ms] show ?thesis by auto
next
  case (Tc_read n)
  with ret have "W' = W" "tc_sender c' = tc_sender c" "tc_segments_out c' = tc_segments_out c"
    by (auto simp: result_bind_Inr_iff)
  with tc_grows_same [OF inv] show ?thesis by simp
next
  case (Tc_receive seg)
  with ret tc_grows_receive [OF inv] show ?thesis by (auto simp: result_bind_Inr_iff)
next
  case Tc_destroy
  with ret tc_grows_reset [OF inv] tc_grows_same [OF inv] show ?thesis by (auto simp: TCPConnection_destroy_def split: if_splits)
qed

section \<open>The receiving half\<close>

lemma tr_step_inv:
  assumes "length S + 3 \<le> 2 ^ 31" "tr_run_inv S isn r" "segment_of S isn a seg" "tr_segment_received r seg = Inr r'"
  shows "tr_run_inv S isn r'" "take (bs_bytes_read (tr_stream_out r')) S = take (bs_bytes_read (tr_stream_out r)) S"
    "sr_capacity (tr_reassembler r') = sr_capacity (tr_reassembler r)"
proof -
  let ?del = "take (bs_bytes_read (tr_stream_out r)) S"
  have "tr_run [Receive seg] ?del r = Inr (?del, r')" using assms(4) by simp
  moreover have "list_all (tr_op_of S isn) [Receive seg]" using assms(3) by auto
  ultimately have "tr_run_inv S isn r' \<and> ?del = take (bs_bytes_read (tr_stream_out r')) S \<and>
      sr_capacity (tr_reassembler r') = sr_capacity (tr_reassembler r)"
    using tr_run_invariant [OF assms(1,2) _ refl] by blast
  then show "tr_run_inv S isn r'" "take (bs_bytes_read (tr_stream_out r')) S = ?del"
    "sr_capacity (tr_reassembler r') = sr_capacity (tr_reassembler r)" by simp_all
qed

lemma tr_set_error_inv: "tr_run_inv S isn r \<Longrightarrow> tr_run_inv S isn (tr_set_error r)"
  by (simp add: tr_run_inv_def tr_set_error_def run_inv_def sr_inv_def sr_agrees_def held_def)

lemma tr_set_error_simps [simp]:
  "bs_bytes_read (tr_stream_out (tr_set_error r)) = bs_bytes_read (tr_stream_out r)"
  "sr_capacity (tr_reassembler (tr_set_error r)) = sr_capacity (tr_reassembler r)"
  by (simp_all add: tr_set_error_def)

text \<open>Calls that leave the receiver alone, or only mark its stream as failed.\<close>

lemma receiver_kept:
  "tc_receiver (send_outbound_segments c) = tc_receiver c" "tc_receiver (check_done c) = tc_receiver c"
  "tc_receiver (tc_reset b c) = tr_set_error (tc_receiver c)"
  "fill_and_send c = Inr c' \<Longrightarrow> tc_receiver c' = tc_receiver c"
  by (auto simp: send_outbound_segments_def check_done_def tc_reset_def fill_and_send_def Let_def result_bind_Inr_iff)

lemma exec_keeps_receiver:
  assumes "tc_exec opn W del c = Inr (W', del', c')" "\<forall>seg. opn \<noteq> Tc_receive seg" "\<forall>n. opn \<noteq> Tc_read n"
  shows "del' = del \<and> (tc_receiver c' = tc_receiver c \<or> tc_receiver c' = tr_set_error (tc_receiver c))"
  using assms
  by (cases opn) (auto simp: connect_def end_input_stream_def tc_write_def result_bind_Inr_iff TCPConnection_destroy_def
      tc_tick_def Let_def receiver_kept(1-3) split: if_splits prod.splits dest: receiver_kept(4))

lemma tc_exec_delivers:
  assumes S: "length S + 3 \<le> 2 ^ 31" and inv: "tr_run_inv S isn (tc_receiver c)"
    and del: "del = take (bs_bytes_read (tc_inbound_stream c)) S"
    and seg: "\<forall>seg. opn = Tc_receive seg \<longrightarrow> th_rst (ts_header seg) \<or> (\<exists>a. segment_of S isn a seg)"
    and ret: "tc_exec opn W del c = Inr (W', del', c')"
  shows "tr_run_inv S isn (tc_receiver c') \<and> del' = take (bs_bytes_read (tc_inbound_stream c')) S \<and>
    sr_capacity (tr_reassembler (tc_receiver c')) = sr_capacity (tr_reassembler (tc_receiver c))"
proof -
  have same: ?thesis if "del' = del" "tc_receiver c' = tc_receiver c \<or> tc_receiver c' = tr_set_error (tc_receiver c)"
    using that inv del tr_set_error_inv by auto
  show ?thesis
  proof (cases opn)
    case (Tc_read n)
    let ?re = "tr_reassembler (tc_receiver c)"
    from Tc_read ret obtain x re where re: "sr_consume ?re n = Inr (x, re)" "del' = del @ x"
        "c' = c\<lparr>tc_receiver := (tc_receiver c)\<lparr>tr_reassembler := re\<rparr>\<rparr>"
      by (auto simp: result_bind_Inr_iff)
    have "run_inv S ?re" using inv by (simp add: tr_run_inv_def)
    from run_consume_step [OF this re(1)] re inv del show ?thesis by (simp add: tr_run_inv_def)
  next
    case (Tc_receive seg)
    with ret have r: "tc_segment_received c seg = Inr c'" and d: "del' = del" by (auto simp: result_bind_Inr_iff)
    from r show ?thesis
    proof (cases rule: segment_received_cases)
      case dropped
      with d same show ?thesis by simp
    next
      case reset
      with d same receiver_kept(3) show ?thesis by simp
    next
      case (accepted r s)
      with assms(4) Tc_receive obtain a where "segment_of S isn a seg" by auto
      note st = tr_step_inv [OF S inv this accepted(2)]
      have "tc_receiver c' = r" by (simp add: accepted(4) after_segment_def Let_def receiver_kept)
      with st del d show ?thesis by simp
    qed
  qed (use exec_keeps_receiver [OF ret] same in auto)
qed

section \<open>No call fails while the stream fits the capacity\<close>

lemma tr_step_returns:
  assumes S: "length S + 3 \<le> 2 ^ 31" and inv: "tr_run_inv S isn r" and seg: "segment_of S isn a seg"
    and fits: "length S < sr_capacity (tr_reassembler r)"
  shows "\<exists>r'. tr_segment_received r seg = Inr r'"
  using S seg inv
proof (cases rule: receive_cases)
  case pushed
  let ?re = "tr_reassembler r" and ?data = "Buffer_str (ts_payload seg)"
  have op: "op_of_stream S (Push ?data (a - 1) (th_fin (ts_header seg)))" using seg by (simp add: segment_of_def)
  then have i: "sr_inv (length S + 1) ?re" "a - 1 + length ?data \<le> length S + 1"
    using inv by (auto simp: tr_run_inv_def run_inv_def)
  then have "\<exists>re. push_substring True ?re ?data (a - 1) (th_fin (ts_header seg)) = Inr re"
  proof (cases rule: push_substring_cases [where nd = True and fin = "th_fin (ts_header seg)"])
    case beyond
    with fits i(2) show ?thesis by simp
  qed blast+
  with pushed show ?thesis by auto
qed blast

lemma tc_exec_returns:
  assumes S: "length S + 3 \<le> 2 ^ 31" and send: "tc_sender_inv W c" and recv: "tr_run_inv S isn (tc_receiver c)"
    and fits: "length S < sr_capacity (tr_reassembler (tc_receiver c))"
    and seg: "\<forall>seg. opn = Tc_receive seg \<longrightarrow> th_rst (ts_header seg) \<or> (\<exists>a. segment_of S isn a seg)"
    and bound: "\<forall>d. opn = Tc_write d \<longrightarrow> length W + length d + 2 < SIZE_MOD"
  shows "\<exists>x. tc_exec opn W del c = Inr x"
proof -
  have s: "sd_inv W (tc_sender c)" using send by (simp add: tc_sender_inv_def)
  have fill: "\<exists>c''. fill_and_send c' = Inr c''" if "sd_inv V (tc_sender c')" for V c'
    using fill_window_spec [OF that] by (auto simp: fill_and_send_def)
  show ?thesis
  proof (cases opn)
    case Tc_connect
    then show ?thesis using fill [OF s] by (auto simp: connect_def)
  next
    case (Tc_write d)
    obtain st wc where w: "bs_write (tc_outbound_stream c) d = (st, wc)" by (cases "bs_write (tc_outbound_stream c) d")
    have "length (W @ take wc d) + 2 < SIZE_MOD" using bound Tc_write by simp
    with sd_inv_write [OF s _ w] fill [of "W @ take wc d" "c\<lparr>tc_sender := (tc_sender c)\<lparr>sd_stream := st\<rparr>\<rparr>"] Tc_write w
    show ?thesis by (fastforce simp: tc_write_def input_ended_def)
  next
    case Tc_close
    have "sd_inv W ((tc_sender c)\<lparr>sd_stream := end_input (tc_outbound_stream c)\<rparr>)"
      using s by (intro sd_inv_flags) (simp_all add: sd_inv_def)
    with fill [of W "c\<lparr>tc_sender := (tc_sender c)\<lparr>sd_stream := end_input (tc_outbound_stream c)\<rparr>\<rparr>"] Tc_close
    show ?thesis by (auto simp: end_input_stream_def)
  next
    case (Tc_read n)
    have "sr_inv (length S + 1) (tr_reassembler (tc_receiver c))" using recv by (simp add: tr_run_inv_def run_inv_def)
    from sr_consume_spec [OF this, of n] Tc_read show ?thesis by auto
  next
    case (Tc_receive seg')
    show ?thesis
    proof (cases "th_rst (ts_header seg')")
      case True
      with Tc_receive show ?thesis by (simp add: tc_segment_received_def Let_def)
    next
      case False
      with seg Tc_receive obtain a where "segment_of S isn a seg'" by auto
      from tr_step_returns [OF S recv this fits] obtain r where "tr_segment_received (tc_receiver c) seg' = Inr r" by blast
      moreover obtain s' where "sender_reaction (tc_sender c) seg' = Inr s'" using sender_reaction_spec [OF s] by blast
      ultimately have "\<exists>c'. tc_segment_received c seg' = Inr c'"
        using segment_received_dropped [OF False] segment_received_accepted [OF False] by (cases "drops c seg'") simp_all
      with Tc_receive show ?thesis by auto
    qed
  qed simp_all
qed

section \<open>Writing and closing\<close>

text \<open>A write that fits is taken whole, and closing always succeeds.\<close>

lemma tc_write_all:
  assumes "tc_sender_inv W c" and "\<not> input_ended (tc_outbound_stream c)"
    and "length data \<le> remaining_outbound_capacity c" and "length W + length data + 2 < SIZE_MOD"
  shows "\<exists>c'. tc_write c data = Inr (c', length data) \<and> tc_grows W c (W @ data) c'"
proof -
  obtain st wc where w: "bs_write (tc_outbound_stream c) data = (st, wc)" by (cases "bs_write (tc_outbound_stream c) data")
  with assms(3) have wc: "wc = length data"
    by (auto simp: bs_write_def remaining_outbound_capacity_def Let_def split: if_splits)
  have s: "sd_inv W (tc_sender c)" using assms(1) by (simp add: tc_sender_inv_def)
  from sd_inv_write [OF s _ w] assms(2,4) have "sd_inv (W @ data) ((tc_sender c)\<lparr>sd_stream := st\<rparr>)"
    by (simp add: input_ended_def wc)
  from fill_window_spec [OF this] obtain c' where c': "tc_write c data = Inr (c', length data)"
    by (auto simp: tc_write_def w fill_and_send_def wc)
  with assms(2) have "tc_exec (Tc_write data) W [] c = Inr (W @ data, [], c')" by simp
  from tc_exec_grows [OF assms(1) this] assms(4) c' show ?thesis by auto
qed

lemma end_input_stream_returns:
  assumes "tc_sender_inv W c" and "length W + 2 < SIZE_MOD"
  shows "\<exists>c'. end_input_stream c = Inr c' \<and> tc_grows W c W c'"
proof -
  have s: "sd_inv W (tc_sender c)" using assms(1) by (simp add: tc_sender_inv_def)
  then have "sd_inv W ((tc_sender c)\<lparr>sd_stream := end_input (tc_outbound_stream c)\<rparr>)"
    by (intro sd_inv_flags) (simp_all add: sd_inv_def)
  from fill_window_spec [OF this] obtain c' where c': "end_input_stream c = Inr c'"
    by (auto simp: end_input_stream_def fill_and_send_def)
  then have "tc_exec Tc_close W [] c = Inr (W, [], c')" by simp
  from tc_exec_grows [OF assms(1) this assms(2)] c' show ?thesis by blast
qed

section \<open>The flags of the outgoing stream\<close>

text \<open>
  No operation clears the error flag. Only closing ends the input, apart from a reset, which also sets
  the error flag.
\<close>

definition same_flags :: "ByteStream \<Rightarrow> ByteStream \<Rightarrow> bool" where
  "same_flags st st' \<longleftrightarrow> bs_error st' = bs_error st \<and> bs_input_ended st' = bs_input_ended st"

lemma same_flags_refl [simp]: "same_flags st st"
  by (simp add: same_flags_def)

lemma same_flags_trans: "same_flags a b \<Longrightarrow> same_flags b c \<Longrightarrow> same_flags a c"
  by (simp add: same_flags_def)

lemma bs_read_flags: "bs_read nd st n = Inr (x, st') \<Longrightarrow> same_flags st st'"
  by (auto simp: bs_read_def pop_output_def result_bind_Inr_iff Let_def same_flags_def)

lemma sd_send_stream [simp]: "sd_stream (sd_send b s) = sd_stream s"
  by (simp add: sd_send_def Let_def)

lemma fill_loop_flags: "fill_loop fuel b s = Inr s' \<Longrightarrow> same_flags (sd_stream s) (sd_stream s')"
proof (induction fuel arbitrary: b s)
  case (Suc fuel)
  let ?n = "min (sub64 (sd_receiver_window_right s) (next_seqno_absolute s)) MAX_PAYLOAD_SIZE"
  show ?case
  proof (cases "bs_read True (sd_stream s) ?n")
    case (Inl e)
    with Suc.prems show ?thesis by (auto simp: fill_loop.simps(2) Let_def split: if_splits)
  next
    case (Inr x)
    obtain payload st where x: "x = (payload, st)" by (cases x)
    have st: "same_flags (sd_stream s) st" using bs_read_flags Inr x by blast
    have step: "same_flags (sd_stream s) (sd_stream s')" if "fill_loop fuel b' s1 = Inr s'" "sd_stream s1 = st" for b' s1
      using Suc.IH [OF that(1)] that(2) same_flags_trans [OF st] by simp
    show ?thesis
      using Suc.prems Inr x st by (auto simp: fill_loop.simps(2) Let_def split: if_splits intro: step)
  qed
qed (simp add: fill_loop.simps)

lemma fill_window_flags: "fill_window s = Inr s' \<Longrightarrow> same_flags (sd_stream s) (sd_stream s')"
  by (auto simp: fill_window_def dest: fill_loop_flags split: if_splits)

lemma ack_received_flags: "ack_received s n w = Inr s' \<Longrightarrow> same_flags (sd_stream s) (sd_stream s')"
  by (auto simp: ack_received_def Let_def accept_ackno_def update_window_def dest!: fill_window_flags split: if_splits)

lemma sender_reaction_flags: "sender_reaction s seg = Inr s' \<Longrightarrow> same_flags (sd_stream s) (sd_stream s')"
  by (auto simp: sender_reaction_def Let_def result_bind_Inr_iff send_empty_segment_def split: if_splits
      dest!: fill_window_flags ack_received_flags intro: same_flags_trans)

lemma outbound_kept [simp]:
  "tc_outbound_stream (send_outbound_segments c) = tc_outbound_stream c" "tc_outbound_stream (check_done c) = tc_outbound_stream c"
  "bs_error (tc_outbound_stream (tc_reset b c))"
  by (simp_all add: send_outbound_segments_def check_done_def tc_reset_def Let_def send_empty_segment_def)

lemma fill_and_send_flags: "fill_and_send c = Inr c' \<Longrightarrow> same_flags (tc_outbound_stream c) (tc_outbound_stream c')"
  by (auto simp: fill_and_send_def result_bind_Inr_iff dest: fill_window_flags)

lemma tc_write_flags: "tc_write c d = Inr (c', n) \<Longrightarrow> same_flags (tc_outbound_stream c) (tc_outbound_stream c')"
  by (auto simp: tc_write_def bs_write_def Let_def result_bind_Inr_iff same_flags_def
      dest!: fill_and_send_flags split: prod.splits if_splits)

lemma end_input_stream_error: "end_input_stream c = Inr c' \<Longrightarrow> bs_error (tc_outbound_stream c') = bs_error (tc_outbound_stream c)"
  by (auto simp: end_input_stream_def result_bind_Inr_iff same_flags_def dest!: fill_and_send_flags)

lemma segment_received_flags:
  assumes "tc_segment_received c seg = Inr c'"
  shows "same_flags (tc_outbound_stream c) (tc_outbound_stream c') \<or> bs_error (tc_outbound_stream c')"
  using assms
proof (cases rule: segment_received_cases)
  case (accepted r s)
  have "tc_outbound_stream c' = sd_stream s" by (simp add: accepted(4) after_segment_def Let_def)
  with sender_reaction_flags [OF accepted(3)] show ?thesis by simp
qed simp_all

lemma tick_flags: "same_flags (tc_outbound_stream c) (tc_outbound_stream (tc_tick c ms)) \<or> bs_error (tc_outbound_stream (tc_tick c ms))"
  by (auto simp: tc_tick_def Let_def sd_tick_def)

lemma end_input_stream_closes: "end_input_stream c = Inr c' \<Longrightarrow> bs_input_ended (tc_outbound_stream c')"
  by (auto simp: end_input_stream_def result_bind_Inr_iff same_flags_def end_input_def dest!: fill_and_send_flags)

end
