(* ===== verification/Two_Endpoints.thy ===== *)
theory Two_Endpoints
  imports Connection_Contract
begin

text \<open>
  Two endpoints and the network between them. An endpoint carries, next to its \<open>TCPConnection\<close>, the
  bytes its application wrote and read so far and the log of all segments it ever emitted. The
  network may deliver any segment of the peer's log at any time, any number of times or never: it
  loses, duplicates, delays and reorders, but does not invent segments.
\<close>

record endpoint =
  ep_conn :: TCPConnection
  ep_written :: bytes
  ep_read :: bytes
  ep_log :: "TCPSegment list"

definition endpoint_new :: "TCPConfig \<Rightarrow> 32 word \<Rightarrow> endpoint" where
  "endpoint_new cfg random_isn =
     \<lparr>ep_conn = TCPConnection_new cfg random_isn, ep_written = [], ep_read = [], ep_log = []\<rparr>"

definition ep_exec :: "tc_op \<Rightarrow> endpoint \<Rightarrow> endpoint result" where
  "ep_exec opn e =
     (case tc_exec opn (ep_written e) (ep_read e) (ep_conn e) of Inl err \<Rightarrow> Inl err
      | Inr (W, del, c) \<Rightarrow>
          Inr \<lparr>ep_conn = c\<lparr>tc_segments_out := []\<rparr>, ep_written = W, ep_read = del, ep_log = ep_log e @ tc_segments_out c\<rparr>)"

text \<open>The two sides are \<open>False\<close> and \<open>True\<close>. The only way a segment reaches a side is from its peer.\<close>

datatype net_op = Local bool tc_op | Deliver bool nat

fun is_receive :: "tc_op \<Rightarrow> bool" where
  "is_receive (Tc_receive seg) = True"
| "is_receive _ = False"

fun net_step :: "net_op \<Rightarrow> (bool \<Rightarrow> endpoint) \<Rightarrow> (bool \<Rightarrow> endpoint) result" where
  "net_step (Local p opn) n =
     (if is_receive opn then Inr n
      else case ep_exec opn (n p) of Inl err \<Rightarrow> Inl err | Inr e \<Rightarrow> Inr (n(p := e)))"
| "net_step (Deliver p i) n =
     (if i < length (ep_log (n (\<not> p)))
      then case ep_exec (Tc_receive (ep_log (n (\<not> p)) ! i)) (n p) of Inl err \<Rightarrow> Inl err | Inr e \<Rightarrow> Inr (n(p := e))
      else Inr n)"

fun net_run :: "net_op list \<Rightarrow> (bool \<Rightarrow> endpoint) \<Rightarrow> (bool \<Rightarrow> endpoint) result" where
  "net_run [] n = Inr n"
| "net_run (x # ops) n = (case net_step x n of Inl err \<Rightarrow> Inl err | Inr n' \<Rightarrow> net_run ops n')"

definition net_new :: "(bool \<Rightarrow> TCPConfig) \<Rightarrow> (bool \<Rightarrow> 32 word) \<Rightarrow> bool \<Rightarrow> endpoint" where
  "net_new cfg random_isn = (\<lambda>p. endpoint_new (cfg p) (random_isn p))"

section \<open>What only grows\<close>

lemma tc_exec_prefix: "tc_exec opn W del c = Inr (W', del', c') \<Longrightarrow> prefix W W'"
  by (cases opn) (auto simp: result_bind_Inr_iff split: if_splits)

lemma ep_exec_grows:
  assumes "ep_exec opn e = Inr e'"
  shows "prefix (ep_written e) (ep_written e')" "prefix (ep_log e) (ep_log e')"
  using assms tc_exec_prefix by (auto simp: ep_exec_def split: sum.splits prod.splits)

text \<open>A step of the network is a call of one side, with a segment of the peer's log if it is a delivery.\<close>

lemma net_step_cases:
  assumes "net_step x n = Inr n'"
  obtains (idle) "n' = n"
    | (call) p opn e where "ep_exec opn (n p) = Inr e" "n' = n(p := e)"
        "\<forall>seg. opn = Tc_receive seg \<longrightarrow> seg \<in> set (ep_log (n (\<not> p)))"
proof (cases x)
  case (Local p opn)
  show thesis
  proof (cases "is_receive opn")
    case True
    with Local assms that(1) show thesis by simp
  next
    case False
    with Local assms obtain e where "ep_exec opn (n p) = Inr e" "n' = n(p := e)" by (auto split: sum.splits)
    moreover have "\<forall>seg. opn \<noteq> Tc_receive seg" using False by (cases opn) auto
    ultimately show thesis using that(2) by blast
  qed
next
  case (Deliver p i)
  show thesis
  proof (cases "i < length (ep_log (n (\<not> p)))")
    case True
    with Deliver assms obtain e where "ep_exec (Tc_receive (ep_log (n (\<not> p)) ! i)) (n p) = Inr e" "n' = n(p := e)"
      by (auto split: sum.splits)
    with True that(2) show thesis by auto
  qed (use Deliver assms that(1) in auto)
qed

lemma net_run_Cons: "net_run (x # ops) n = Inr n' \<longleftrightarrow> (\<exists>n1. net_step x n = Inr n1 \<and> net_run ops n1 = Inr n')"
  by (auto split: sum.splits)

declare net_run.simps(2) [simp del]

lemma net_step_grows:
  assumes "net_step x n = Inr n'"
  shows "prefix (ep_written (n p)) (ep_written (n' p)) \<and> prefix (ep_log (n p)) (ep_log (n' p))"
  using assms by (cases rule: net_step_cases) (auto dest: ep_exec_grows)

lemma net_run_grows:
  assumes "net_run ops n = Inr n'"
  shows "prefix (ep_written (n p)) (ep_written (n' p)) \<and> prefix (ep_log (n p)) (ep_log (n' p))"
  using assms
proof (induction ops arbitrary: n)
  case (Cons x ops)
  then obtain n1 where n1: "net_step x n = Inr n1" "net_run ops n1 = Inr n'" by (auto simp: net_run_Cons)
  from net_step_grows [OF n1(1)] Cons.IH [OF n1(2)] show ?case by (meson prefix_order.trans)
qed simp

section \<open>What each side sends\<close>

definition sends_inv :: "WrappingInt32 \<Rightarrow> endpoint \<Rightarrow> bool" where
  "sends_inv isn e \<longleftrightarrow> tc_sender_inv (ep_written e) (ep_conn e) \<and> tc_segments_out (ep_conn e) = [] \<and>
     sd_isn (tc_sender (ep_conn e)) = isn \<and>
     (\<forall>seg\<in>set (ep_log e). frame_ok (ep_written e) (tc_sender (ep_conn e)) seg)"

lemma ep_exec_sends:
  assumes inv: "sends_inv isn e" and ret: "ep_exec opn e = Inr e'" and bound: "length (ep_written e') + 2 < SIZE_MOD"
  shows "sends_inv isn e'"
proof -
  from ret obtain W del c where x: "tc_exec opn (ep_written e) (ep_read e) (ep_conn e) = Inr (W, del, c)"
    "e' = \<lparr>ep_conn = c\<lparr>tc_segments_out := []\<rparr>, ep_written = W, ep_read = del, ep_log = ep_log e @ tc_segments_out c\<rparr>"
    by (auto simp: ep_exec_def split: sum.splits)
  have "tc_sender_inv (ep_written e) (ep_conn e)" using inv by (simp add: sends_inv_def)
  from tc_exec_grows [OF this x(1)] bound x(2) have "tc_grows (ep_written e) (ep_conn e) W c" by simp
  with inv x(2) show ?thesis by (auto simp: sends_inv_def tc_grows_def tc_sender_inv_def list_all_iff)
qed

lemma net_run_sends:
  assumes "net_run ops n = Inr n'" "\<forall>p. sends_inv (isn p) (n p)" "\<forall>p. length (ep_written (n' p)) + 2 < SIZE_MOD"
  shows "\<forall>p. sends_inv (isn p) (n' p)"
  using assms
proof (induction ops arbitrary: n)
  case (Cons x ops)
  then obtain n1 where n1: "net_step x n = Inr n1" "net_run ops n1 = Inr n'" by (auto simp: net_run_Cons)
  have bound: "length (ep_written (n1 p)) + 2 < SIZE_MOD" for p
    using net_run_grows [OF n1(2), of p] Cons.prems(3) prefix_length_le by (meson add_le_cancel_right le_less_trans)
  have "\<forall>p. sends_inv (isn p) (n1 p)"
    using n1(1)
  proof (cases rule: net_step_cases)
    case (call p opn e)
    then have "sends_inv (isn p) e" using ep_exec_sends [OF _ call(1)] Cons.prems(2) bound [of p] by simp
    with call(2) Cons.prems(2) show ?thesis by simp
  qed (use Cons.prems(2) in simp)
  with Cons.IH [OF n1(2)] Cons.prems(3) show ?case by blast
qed simp

section \<open>What each side reads\<close>

definition reads_inv :: "bytes \<Rightarrow> WrappingInt32 \<Rightarrow> size_t \<Rightarrow> endpoint \<Rightarrow> bool" where
  "reads_inv S isn capacity e \<longleftrightarrow> tr_run_inv S isn (tc_receiver (ep_conn e)) \<and>
     ep_read e = take (bs_bytes_read (tc_inbound_stream (ep_conn e))) S \<and>
     sr_capacity (tr_reassembler (tc_receiver (ep_conn e))) = capacity"

definition stream_frames :: "bytes \<Rightarrow> WrappingInt32 \<Rightarrow> TCPSegment list \<Rightarrow> bool" where
  "stream_frames S isn log \<longleftrightarrow> (\<forall>seg\<in>set log. th_rst (ts_header seg) \<or> (\<exists>a. segment_of S isn a seg))"

lemma sends_inv_frames: "sends_inv isn e \<Longrightarrow> stream_frames (ep_written e) isn (ep_log e)"
  by (auto simp: sends_inv_def stream_frames_def frame_ok_def sent_ok_def)

lemma ep_exec_reads:
  assumes S: "length S + 3 \<le> 2 ^ 31" and inv: "reads_inv S isn capacity e" and ret: "ep_exec opn e = Inr e'"
    and seg: "\<forall>seg. opn = Tc_receive seg \<longrightarrow> th_rst (ts_header seg) \<or> (\<exists>a. segment_of S isn a seg)"
  shows "reads_inv S isn capacity e'"
proof -
  from ret obtain W del c where x: "tc_exec opn (ep_written e) (ep_read e) (ep_conn e) = Inr (W, del, c)"
    "e' = \<lparr>ep_conn = c\<lparr>tc_segments_out := []\<rparr>, ep_written = W, ep_read = del, ep_log = ep_log e @ tc_segments_out c\<rparr>"
    by (auto simp: ep_exec_def split: sum.splits)
  from tc_exec_delivers [OF S _ _ seg x(1)] inv x(2) show ?thesis by (simp add: reads_inv_def)
qed

lemma net_run_reads:
  assumes "net_run ops n = Inr n'" "\<forall>p. length (S p) + 3 \<le> 2 ^ 31" "\<forall>p. reads_inv (S p) (isn p) (capacity p) (n p)"
    "\<forall>p. stream_frames (S p) (isn p) (ep_log (n' (\<not> p)))"
  shows "\<forall>p. reads_inv (S p) (isn p) (capacity p) (n' p)"
  using assms
proof (induction ops arbitrary: n)
  case (Cons x ops)
  then obtain n1 where n1: "net_step x n = Inr n1" "net_run ops n1 = Inr n'" by (auto simp: net_run_Cons)
  have "\<forall>p. reads_inv (S p) (isn p) (capacity p) (n1 p)"
    using n1(1)
  proof (cases rule: net_step_cases)
    case (call p opn e)
    have "set (ep_log (n (\<not> p))) \<subseteq> set (ep_log (n' (\<not> p)))"
      using net_run_grows [OF Cons.prems(1), of "\<not> p"] by (auto dest: set_mono_prefix)
    then have "\<forall>seg. opn = Tc_receive seg \<longrightarrow> th_rst (ts_header seg) \<or> (\<exists>a. segment_of (S p) (isn p) a seg)"
      using call(3) Cons.prems(4) unfolding stream_frames_def by blast
    with ep_exec_reads [OF _ _ call(1)] Cons.prems(2,3) have "reads_inv (S p) (isn p) (capacity p) e" by blast
    with call(2) Cons.prems(3) show ?thesis by simp
  qed (use Cons.prems(3) in simp)
  with Cons.IH [OF n1(2) Cons.prems(2) _ Cons.prems(4)] show ?case by blast
qed simp

section \<open>Initial states\<close>

definition initial_isn :: "TCPConfig \<Rightarrow> 32 word \<Rightarrow> WrappingInt32" where
  "initial_isn cfg random_isn = (case cfg_fixed_isn cfg of Some i \<Rightarrow> i | None \<Rightarrow> random_isn)"

lemma sends_inv_new: "cfg_send_capacity cfg < SIZE_MOD \<Longrightarrow> sends_inv (initial_isn cfg r) (endpoint_new cfg r)"
  using sd_inv_new [of "cfg_send_capacity cfg" "cfg_rt_timeout cfg" "cfg_fixed_isn cfg" r]
  by (simp add: sends_inv_def endpoint_new_def TCPConnection_new_def tc_sender_inv_def)
    (simp add: TCPSender_new_def initial_isn_def)

lemma reads_inv_new:
  "length S + cfg_recv_capacity cfg + 1 < SIZE_MOD \<Longrightarrow> reads_inv S isn (cfg_recv_capacity cfg) (endpoint_new cfg r)"
  using tr_run_inv_new [of S "cfg_recv_capacity cfg" isn]
  by (simp add: reads_inv_def endpoint_new_def TCPConnection_new_def TCPReceiver_new_simps)

lemma net_run_inv:
  assumes run: "net_run ops (net_new cfg r) = Inr n"
    and cap: "\<forall>p. cfg_send_capacity (cfg p) < SIZE_MOD" "\<forall>p. cfg_recv_capacity (cfg p) < 2 ^ 63"
    and small: "\<forall>p. length (ep_written (n p)) + 3 \<le> 2 ^ 31"
  shows "\<forall>p. sends_inv (initial_isn (cfg p) (r p)) (n p)"
    "\<forall>p. reads_inv (ep_written (n (\<not> p))) (initial_isn (cfg (\<not> p)) (r (\<not> p))) (cfg_recv_capacity (cfg p)) (n p)"
proof -
  have "length (ep_written (n p)) + 2 < SIZE_MOD" for p using small [THEN spec, of p] by (simp add: SIZE_MOD_def)
  then show sends: "\<forall>p. sends_inv (initial_isn (cfg p) (r p)) (n p)"
    using net_run_sends [OF run, of "\<lambda>p. initial_isn (cfg p) (r p)"] sends_inv_new cap(1) by (simp add: net_new_def)
  have "length (ep_written (n (\<not> p))) + cfg_recv_capacity (cfg p) + 1 < SIZE_MOD" for p
    using small [THEN spec, of "\<not> p"] cap(2) [THEN spec, of p] by (simp add: SIZE_MOD_def)
  then have start: "\<forall>p. reads_inv (ep_written (n (\<not> p))) (initial_isn (cfg (\<not> p)) (r (\<not> p))) (cfg_recv_capacity (cfg p)) (net_new cfg r p)"
    using reads_inv_new by (simp add: net_new_def)
  have "\<forall>p. stream_frames (ep_written (n (\<not> p))) (initial_isn (cfg (\<not> p)) (r (\<not> p))) (ep_log (n (\<not> p)))"
    using sends sends_inv_frames by blast
  then show "\<forall>p. reads_inv (ep_written (n (\<not> p))) (initial_isn (cfg (\<not> p)) (r (\<not> p))) (cfg_recv_capacity (cfg p)) (n p)"
    using net_run_reads [OF run _ start] small by blast
qed

section \<open>Runs that do not fail\<close>

fun net_op_bytes :: "bool \<Rightarrow> net_op \<Rightarrow> nat" where
  "net_op_bytes p (Local q (Tc_write d)) = (if p = q then length d else 0)"
| "net_op_bytes p _ = 0"

lemma net_run_append: "net_run (xs @ ys) n = (case net_run xs n of Inl e \<Rightarrow> Inl e | Inr n' \<Rightarrow> net_run ys n')"
  by (induction xs arbitrary: n) (auto simp: net_run.simps(2) split: sum.split)

lemma tc_exec_written:
  "tc_exec opn W del c = Inr (W', del', c') \<Longrightarrow>
   length W' \<le> length W + (case opn of Tc_write d \<Rightarrow> length d | _ \<Rightarrow> 0)"
  by (cases opn) (auto simp: result_bind_Inr_iff split: if_splits)

lemma net_step_written:
  assumes "net_step x n = Inr n'"
  shows "length (ep_written (n' p)) \<le> length (ep_written (n p)) + net_op_bytes p x"
proof (cases x)
  case (Local q opn)
  with assms show ?thesis
    by (auto simp: ep_exec_def split: if_splits sum.splits dest!: tc_exec_written split: tc_op.splits)
next
  case (Deliver q i)
  with assms show ?thesis
    by (auto simp: ep_exec_def result_bind_Inr_iff split: if_splits sum.splits)
qed

lemma net_run_written:
  assumes "net_run ops n = Inr n'"
  shows "length (ep_written (n' p)) \<le> length (ep_written (n p)) + sum_list (map (net_op_bytes p) ops)"
  using assms
proof (induction ops arbitrary: n)
  case (Cons x ops)
  then obtain n1 where n1: "net_step x n = Inr n1" "net_run ops n1 = Inr n'" by (auto simp: net_run_Cons)
  from net_step_written [OF n1(1), of p] Cons.IH [OF n1(2)] show ?case by simp
qed simp

text \<open>Streams that fit the receive buffer of the peer never make a call fail.\<close>

lemma ep_exec_returns:
  assumes "sends_inv isn e" "reads_inv S isn' capacity e" "length S + 3 \<le> 2 ^ 31" "length S < capacity"
    and "\<forall>seg. opn = Tc_receive seg \<longrightarrow> th_rst (ts_header seg) \<or> (\<exists>a. segment_of S isn' a seg)"
    and "\<forall>d. opn = Tc_write d \<longrightarrow> length (ep_written e) + length d + 2 < SIZE_MOD"
  shows "\<exists>e'. ep_exec opn e = Inr e'"
proof -
  have "\<exists>x. tc_exec opn (ep_written e) (ep_read e) (ep_conn e) = Inr x"
    using assms by (intro tc_exec_returns [of S]) (auto simp: sends_inv_def reads_inv_def)
  then show ?thesis by (auto simp: ep_exec_def)
qed

lemma net_step_returns:
  assumes sends: "\<forall>p. sends_inv (isn p) (n p)"
    and reads: "\<forall>p. reads_inv (ep_written (n (\<not> p))) (isn (\<not> p)) (capacity p) (n p)"
    and small: "\<forall>p. length (ep_written (n p)) + net_op_bytes p x + 3 \<le> 2 ^ 31"
    and fits: "\<forall>p. length (ep_written (n (\<not> p))) < capacity p"
  shows "\<exists>n'. net_step x n = Inr n'"
proof -
  have small': "\<forall>p. length (ep_written (n p)) + 3 \<le> 2 ^ 31" using small by (meson add_le_mono1 le_add1 le_trans)
  have frames: "th_rst (ts_header seg) \<or> (\<exists>a. segment_of (ep_written (n (\<not> p))) (isn (\<not> p)) a seg)"
    if "seg \<in> set (ep_log (n (\<not> p)))" for p seg
    using sends_inv_frames [OF sends [THEN spec, of "\<not> p"]] that by (auto simp: stream_frames_def)
  show ?thesis
  proof (cases x)
    case (Local p opn)
    have "\<exists>e'. ep_exec opn (n p) = Inr e'" if "\<not> is_receive opn"
    proof (rule ep_exec_returns [OF sends [THEN spec, of p] reads [THEN spec, of p]])
      show "\<forall>d. opn = Tc_write d \<longrightarrow> length (ep_written (n p)) + length d + 2 < SIZE_MOD"
        using small [THEN spec, of p] Local by (auto simp: SIZE_MOD_def)
    qed (use small' fits that in auto)
    then show ?thesis using Local by auto
  next
    case (Deliver p i)
    have "\<exists>e'. ep_exec (Tc_receive (ep_log (n (\<not> p)) ! i)) (n p) = Inr e'" if "i < length (ep_log (n (\<not> p)))"
      by (rule ep_exec_returns [OF sends [THEN spec, of p] reads [THEN spec, of p]])
        (use small' fits frames nth_mem [OF that] in auto)
    then show ?thesis using Deliver by auto
  qed
qed

lemma net_run_returns:
  assumes cap: "\<forall>p. cfg_send_capacity (cfg p) < SIZE_MOD" "\<forall>p. cfg_recv_capacity (cfg p) < 2 ^ 63"
    and "\<forall>p. sum_list (map (net_op_bytes p) ops) + 3 \<le> 2 ^ 31"
    and "\<forall>p. sum_list (map (net_op_bytes (\<not> p)) ops) < cfg_recv_capacity (cfg p)"
  shows "\<exists>n. net_run ops (net_new cfg r) = Inr n"
  using assms(3,4)
proof (induction ops rule: rev_induct)
  case (snoc x ops)
  have "sum_list (map (net_op_bytes p) ops) + 3 \<le> 2 ^ 31"
    "sum_list (map (net_op_bytes (\<not> p)) ops) < cfg_recv_capacity (cfg p)" for p
    using snoc.prems(1) [THEN spec, of p] snoc.prems(2) [THEN spec, of p] by simp_all
  then have small: "\<forall>p. sum_list (map (net_op_bytes p) ops) + 3 \<le> 2 ^ 31"
    "\<forall>p. sum_list (map (net_op_bytes (\<not> p)) ops) < cfg_recv_capacity (cfg p)" by blast+
  from snoc.IH [OF small] obtain n where n: "net_run ops (net_new cfg r) = Inr n" by blast
  have w: "length (ep_written (n p)) \<le> sum_list (map (net_op_bytes p) ops)" for p
    using net_run_written [OF n, of p] by (simp add: net_new_def endpoint_new_def)
  have len: "\<forall>p. length (ep_written (n p)) + 3 \<le> 2 ^ 31"
    using w small(1) by (meson add_le_mono1 le_trans)
  note inv = net_run_inv [OF n cap len]
  have "\<exists>n'. net_step x n = Inr n'"
  proof (rule net_step_returns [OF inv(1), of "\<lambda>p. cfg_recv_capacity (cfg p)"])
    show "\<forall>p. length (ep_written (n p)) + net_op_bytes p x + 3 \<le> 2 ^ 31"
    proof
      fix p
      show "length (ep_written (n p)) + net_op_bytes p x + 3 \<le> 2 ^ 31"
        using w [of p] snoc.prems(1) [THEN spec, of p] by simp
    qed
    show "\<forall>p. length (ep_written (n (\<not> p))) < cfg_recv_capacity (cfg p)"
      using w small(2) by (meson le_less_trans)
  qed (use inv(2) in simp)
  with n show ?case by (auto simp: net_run_append net_run_Cons)
qed simp

end
