(* ===== verification/IPv4.thy ===== *)
theory IPv4
  imports Internet_Checksum
begin

text \<open>
  libsponge/tcp\_helpers/ipv4\_header.hh, ipv4\_header.cc, ipv4\_datagram.hh and ipv4\_datagram.cc: the
  IPv4 header and datagram, their parsers and serializers, and the pseudo-header's contribution to
  the TCP checksum.

  \<open>IPv4Header::parse\<close> fills in the object it is called on; the model takes the old object and
  returns the new one with the \<open>ParseResult\<close>. \<open>IPv4Datagram::parse\<close> ignores the result of
  \<open>IPv4Header::parse\<close>.
\<close>

unbundle bit_operations_syntax

section \<open>IPv4Header\<close>

record IPv4Header =
  ip_ver :: "8 word"
  ip_hlen :: "8 word"
  ip_tos :: "8 word"
  ip_len :: "16 word"
  ip_id :: "16 word"
  ip_df :: bool
  ip_mf :: bool
  ip_offset :: "16 word"
  ip_ttl :: "8 word"
  ip_proto :: "8 word"
  ip_cksum :: "16 word"
  ip_src :: "32 word"
  ip_dst :: "32 word"

definition IPv4Header_LENGTH :: nat where
  "IPv4Header_LENGTH = 20"

definition DEFAULT_TTL :: "8 word" where
  "DEFAULT_TTL = 128"

definition PROTO_TCP :: "8 word" where
  "PROTO_TCP = 6"

definition IPv4Header_default :: IPv4Header where
  "IPv4Header_default =
     \<lparr>ip_ver = 4, ip_hlen = of_nat (IPv4Header_LENGTH div 4), ip_tos = 0, ip_len = 0, ip_id = 0,
      ip_df = True, ip_mf = False, ip_offset = 0, ip_ttl = DEFAULT_TTL, ip_proto = PROTO_TCP,
      ip_cksum = 0, ip_src = 0, ip_dst = 0\<rparr>"

text \<open>The part of \<open>parse\<close> that reads the fields.\<close>

definition IPv4Header_read :: "IPv4Header parser" where
  "IPv4Header_read =
     pbind NetParser_u8 (\<lambda>first_byte.
     pbind NetParser_u8 (\<lambda>tos.
     pbind NetParser_u16 (\<lambda>len.
     pbind NetParser_u16 (\<lambda>id.
     pbind NetParser_u16 (\<lambda>fo_val.
     pbind NetParser_u8 (\<lambda>ttl.
     pbind NetParser_u8 (\<lambda>proto.
     pbind NetParser_u16 (\<lambda>cksum.
     pbind NetParser_u32 (\<lambda>src.
     pbind NetParser_u32 (\<lambda>dst.
       preturn
         \<lparr>ip_ver = drop_bit 4 first_byte, ip_hlen = first_byte AND 0x0f, ip_tos = tos, ip_len = len, ip_id = id,
          ip_df = (fo_val AND 0x4000 \<noteq> 0), ip_mf = (fo_val AND 0x2000 \<noteq> 0), ip_offset = fo_val AND 0x1fff,
          ip_ttl = ttl, ip_proto = proto, ip_cksum = cksum, ip_src = src, ip_dst = dst\<rparr>))))))))))"

text \<open>The part of \<open>parse\<close> that checks them against the bytes of the datagram.\<close>

definition IPv4Header_check :: "Buffer \<Rightarrow> IPv4Header \<Rightarrow> ParseResult parser" where
  "IPv4Header_check original h =
     (let data_size = Buffer_size original; hlen = unat (ip_hlen h) in
      if data_size < 4 * hlen then preturn PacketTooShort
      else if ip_ver h \<noteq> 4 then preturn WrongIPVersion
      else if ip_hlen h < 5 then preturn HeaderTooShort
      else if data_size \<noteq> unat (ip_len h) then preturn TruncatedPacket
      else pbind (NetParser_remove_prefix (hlen * 4 - IPv4Header_LENGTH)) (\<lambda>_.
           pbind NetParser_get_error (\<lambda>e.
             if e \<noteq> NoError then preturn e
             else let check = ic_add (InternetChecksum_new 0) (take (4 * hlen) (Buffer_str original)) in
                  if ic_value check \<noteq> 0 then preturn BadChecksum else preturn NoError)))"

definition IPv4Header_parse :: "IPv4Header \<Rightarrow> (ParseResult \<times> IPv4Header) parser" where
  "IPv4Header_parse h0 =
     pbind NetParser_buffer (\<lambda>original.
       if Buffer_size original < IPv4Header_LENGTH then preturn (PacketTooShort, h0)
       else pbind IPv4Header_read (\<lambda>h. pbind (IPv4Header_check original h) (\<lambda>r. preturn (r, h))))"

definition first_byte :: "IPv4Header \<Rightarrow> 8 word" where
  "first_byte h = push_bit 4 (ip_ver h) OR (ip_hlen h AND 0xf)"

definition fo_val :: "IPv4Header \<Rightarrow> 16 word" where
  "fo_val h = (if ip_df h then 0x4000 else 0) OR (if ip_mf h then 0x2000 else 0) OR (ip_offset h AND 0x1fff)"

definition IPv4Header_serialize :: "IPv4Header \<Rightarrow> bytes result" where
  "IPv4Header_serialize h =
     (if ip_ver h \<noteq> 4 then Inl RuntimeError
      else if 4 * unat (ip_hlen h) < IPv4Header_LENGTH then Inl RuntimeError
      else
        let ret = [];
            ret = NetUnparser_u8 ret (first_byte h);
            ret = NetUnparser_u8 ret (ip_tos h);
            ret = NetUnparser_u16 ret (ip_len h);
            ret = NetUnparser_u16 ret (ip_id h);
            ret = NetUnparser_u16 ret (fo_val h);
            ret = NetUnparser_u8 ret (ip_ttl h);
            ret = NetUnparser_u8 ret (ip_proto h);
            ret = NetUnparser_u16 ret (ip_cksum h);
            ret = NetUnparser_u32 ret (ip_src h);
            ret = NetUnparser_u32 ret (ip_dst h)
        in Inr (resize (4 * unat (ip_hlen h)) ret))"

definition payload_length :: "IPv4Header \<Rightarrow> 16 word" where
  "payload_length h = ip_len h - 4 * ucast (ip_hlen h)"

definition pseudo_cksum :: "IPv4Header \<Rightarrow> 32 word" where
  "pseudo_cksum h =
     (drop_bit 16 (ip_src h) + (ip_src h AND 0xffff)) + (drop_bit 16 (ip_dst h) + (ip_dst h AND 0xffff)) +
     ucast (ip_proto h) + ucast (payload_length h)"

section \<open>IPv4Datagram\<close>

record IPv4Datagram =
  ipd_header :: IPv4Header
  ipd_payload :: BufferList

definition IPv4Datagram_default :: IPv4Datagram where
  "IPv4Datagram_default = \<lparr>ipd_header = IPv4Header_default, ipd_payload = []\<rparr>"

definition IPv4Datagram_parse :: "IPv4Datagram \<Rightarrow> Buffer \<Rightarrow> (ParseResult \<times> IPv4Datagram) result" where
  "IPv4Datagram_parse d buffer =
     result_bind (IPv4Header_parse (ipd_header d) (NetParser_new buffer)) (\<lambda>((_, h), p).
       let d = \<lparr>ipd_header = h, ipd_payload = BufferList_of_Buffer (np_buffer p)\<rparr> in
       if BufferList_size (ipd_payload d) \<noteq> unat (payload_length h) then Inr (PacketTooShort, d)
       else Inr (np_error p, d))"

definition IPv4Datagram_serialize :: "IPv4Datagram \<Rightarrow> BufferList result" where
  "IPv4Datagram_serialize d =
     (if BufferList_size (ipd_payload d) \<noteq> unat (payload_length (ipd_header d)) then Inl RuntimeError
      else
        let header_out = (ipd_header d)\<lparr>ip_cksum := 0\<rparr> in
        result_bind (IPv4Header_serialize header_out) (\<lambda>header_zero_checksum.
        let check = ic_add (InternetChecksum_new 0) header_zero_checksum;
            header_out = header_out\<lparr>ip_cksum := ic_value check\<rparr>
        in result_bind (IPv4Header_serialize header_out) (\<lambda>hdr.
           Inr (BufferList_append (BufferList_append [] (BufferList_of_string hdr)) (ipd_payload d)))))"

section \<open>Header round trip\<close>

lemma unat16_below_SIZE_MOD: "unat (w :: 16 word) < SIZE_MOD"
  by (rule order.strict_trans [OF unat_width_less(2)]) (simp add: SIZE_MOD_def)

text \<open>A header whose bit fields fit the bits they are written to.\<close>

definition IPv4Header_wf :: "IPv4Header \<Rightarrow> bool" where
  "IPv4Header_wf h \<longleftrightarrow> ip_ver h < 16 \<and> ip_hlen h < 16 \<and> ip_offset h < 0x2000"

lemma first_byte_fields:
  assumes "IPv4Header_wf h"
  shows "drop_bit 4 (first_byte h) = ip_ver h" "first_byte h AND 0x0f = ip_hlen h"
proof -
  have v: "ip_ver h < 16" and l: "ip_hlen h < 16" using assms by (simp_all add: IPv4Header_wf_def)
  have m: "x AND 15 = take_bit 4 x" for x :: "8 word" by (simp add: take_bit_eq_mask mask_eq_exp_minus_1)
  have "drop_bit 4 (first_byte h) = drop_bit 4 (push_bit 4 (ip_ver h)) OR drop_bit 4 (take_bit 4 (ip_hlen h))"
    by (simp only: first_byte_def m drop_bit_or)
  then show "drop_bit 4 (first_byte h) = ip_ver h"
    using drop_push_4 [OF v] by (simp add: drop_bit_take_bit)
  show "first_byte h AND 0x0f = ip_hlen h"
    using low_nibble [OF l] by (simp add: first_byte_def m take_bit_push_bit)
qed

lemma fo_val_fields:
  assumes "IPv4Header_wf h"
  shows "fo_val h AND 0x4000 \<noteq> 0 \<longleftrightarrow> ip_df h" "fo_val h AND 0x2000 \<noteq> 0 \<longleftrightarrow> ip_mf h"
    "fo_val h AND 0x1fff = ip_offset h"
proof -
  show "fo_val h AND 0x4000 \<noteq> 0 \<longleftrightarrow> ip_df h" "fo_val h AND 0x2000 \<noteq> 0 \<longleftrightarrow> ip_mf h"
    by (simp_all add: fo_val_def bit.conj_disj_distrib2 and.assoc)
  have "ip_offset h < 2 ^ 13" using assms by (simp add: IPv4Header_wf_def)
  then have "ip_offset h AND 0x1fff = ip_offset h"
    using less_mask_eq [of "ip_offset h" 13] by (simp add: mask_eq_exp_minus_1)
  then show "fo_val h AND 0x1fff = ip_offset h"
    by (simp add: fo_val_def bit.conj_disj_distrib2 and.assoc)
qed

definition IPv4Header_fields :: "IPv4Header \<Rightarrow> bytes" where
  "IPv4Header_fields h =
     be_bytes (first_byte h) @ be_bytes (ip_tos h) @ be_bytes (ip_len h) @ be_bytes (ip_id h) @
     be_bytes (fo_val h) @ be_bytes (ip_ttl h) @ be_bytes (ip_proto h) @ be_bytes (ip_cksum h) @
     be_bytes (ip_src h) @ be_bytes (ip_dst h)"

lemma length_IPv4Header_fields [simp]: "length (IPv4Header_fields h) = 20"
  by (simp add: IPv4Header_fields_def)

lemma IPv4Header_collapse:
  "\<lparr>ip_ver = ip_ver h, ip_hlen = ip_hlen h, ip_tos = ip_tos h, ip_len = ip_len h, ip_id = ip_id h,
    ip_df = ip_df h, ip_mf = ip_mf h, ip_offset = ip_offset h, ip_ttl = ip_ttl h, ip_proto = ip_proto h,
    ip_cksum = ip_cksum h, ip_src = ip_src h, ip_dst = ip_dst h\<rparr> = h"
  by simp

lemma parses_IPv4Header_read [parses_rules]:
  assumes "IPv4Header_wf h"
  shows "parses IPv4Header_read (IPv4Header_fields h) h"
proof -
  have "parses IPv4Header_read (IPv4Header_fields h @ []) h"
    unfolding IPv4Header_read_def IPv4Header_fields_def append_assoc
    by (rule parses_bind, rule parses_rules)+
      (simp add: first_byte_fields [OF assms] fo_val_fields [OF assms] IPv4Header_collapse parses_return)
  then show ?thesis by simp
qed

lemma total_IPv4Header_parse [total]: "parser_total (IPv4Header_parse h)"
  unfolding IPv4Header_parse_def IPv4Header_read_def IPv4Header_check_def by (intro total)

text \<open>The header as it is serialized: the fields, zero bytes up to the advertised length.\<close>

definition header_bytes :: "IPv4Header \<Rightarrow> bytes" where
  "header_bytes h = IPv4Header_fields h @ replicate (4 * unat (ip_hlen h) - 20) 0"

lemma length_header_bytes: "5 \<le> ip_hlen h \<Longrightarrow> length (header_bytes h) = 4 * unat (ip_hlen h)"
  by (simp add: header_bytes_def word_le_nat_alt)

lemma IPv4Header_serialize_eq:
  assumes "ip_ver h = 4" and "5 \<le> ip_hlen h"
  shows "IPv4Header_serialize h = Inr (header_bytes h)"
proof -
  have hlen: "5 \<le> unat (ip_hlen h)" using assms(2) by (simp add: word_le_nat_alt)
  then have "IPv4Header_serialize h = Inr (resize (4 * unat (ip_hlen h)) (IPv4Header_fields h))"
    using assms(1) by (simp add: IPv4Header_serialize_def IPv4Header_LENGTH_def IPv4Header_fields_def Let_def)
  then show ?thesis using hlen by (simp add: resize_def header_bytes_def)
qed

text \<open>The checksum field stands at an even position, and filling it in makes the header sum to zero.\<close>

lemma checksum_header_bytes:
  assumes "5 \<le> ip_hlen h"
  shows "checksum 0 (header_bytes (h\<lparr>ip_cksum := checksum 0 (header_bytes (h\<lparr>ip_cksum := 0\<rparr>))\<rparr>)) = 0"
proof -
  let ?pre = "be_bytes (first_byte h) @ be_bytes (ip_tos h) @ be_bytes (ip_len h) @ be_bytes (ip_id h) @
     be_bytes (fo_val h) @ be_bytes (ip_ttl h) @ be_bytes (ip_proto h)"
  let ?post = "be_bytes (ip_src h) @ be_bytes (ip_dst h) @ replicate (4 * unat (ip_hlen h) - 20) 0"
  have h: "header_bytes (h\<lparr>ip_cksum := c\<rparr>) = ?pre @ be_bytes c @ ?post" for c
    by (simp add: header_bytes_def IPv4Header_fields_def first_byte_def fo_val_def)
  have "4 * unat (ip_hlen h) \<le> 1020" using unat_width_less(1) [of "ip_hlen h"] by linarith
  then have "unat (0 :: 32 word) + 65280 * (length ?pre + length ?post + 2) < 2 ^ 32" by simp
  moreover have "even (length ?pre)" by simp
  moreover have "be_bytes (0 :: 16 word) = [0, 0]" by (simp add: be_bytes_simps)
  ultimately show ?thesis using checksum_fill [of ?pre 0 ?post] unfolding h by simp
qed

section \<open>Datagrams on the wire\<close>

lemma payload_length_eq:
  assumes "unat (ip_len h) = 4 * unat (ip_hlen h) + n"
  shows "n = unat (payload_length h)"
proof -
  have "ip_len h = word_of_nat (4 * unat (ip_hlen h) + n)" by (simp flip: assms)
  then have "payload_length h = word_of_nat n" by (simp add: payload_length_def)
  moreover have "n < 2 ^ LENGTH(16)" using assms unat_width_less(2) [of "ip_len h"] by simp
  ultimately show ?thesis by (simp add: unsigned_of_nat take_bit_nat_eq_self)
qed

text \<open>The header a datagram leaves with.\<close>

definition ip_header_sent :: "IPv4Header \<Rightarrow> IPv4Header" where
  "ip_header_sent h = h\<lparr>ip_cksum := checksum 0 (header_bytes (h\<lparr>ip_cksum := 0\<rparr>))\<rparr>"

lemma IPv4Datagram_serialize_eq:
  assumes "ip_ver (ipd_header d) = 4" and "5 \<le> ip_hlen (ipd_header d)"
    and "BufferList_size (ipd_payload d) = unat (payload_length (ipd_header d))"
  shows "IPv4Datagram_serialize d =
    Inr (BufferList_of_string (header_bytes (ip_header_sent (ipd_header d))) @ ipd_payload d)"
  using assms
  by (simp add: IPv4Datagram_serialize_def IPv4Header_serialize_eq ip_header_sent_def BufferList_append_def Let_def)

text \<open>The checks of \<open>parse\<close> on a header that passes them, and on any header without options.\<close>

lemma parses_IPv4Header_check:
  assumes "ip_ver h = 4" and "5 \<le> ip_hlen h" and "Buffer_size original = unat (ip_len h)"
    and "Buffer_str original = header_bytes h @ data" and "checksum 0 (header_bytes h) = 0"
  shows "parses (IPv4Header_check original h) (replicate (4 * unat (ip_hlen h) - 20) 0) NoError"
proof -
  let ?pad = "replicate (4 * unat (ip_hlen h) - 20) (0 :: byte)"
  let ?sum = "ic_add (InternetChecksum_new 0) (take (4 * unat (ip_hlen h)) (Buffer_str original))"
  have hlen: "length (header_bytes h) = 4 * unat (ip_hlen h)" by (rule length_header_bytes [OF assms(2)])
  then have sum: "ic_value ?sum = 0" using assms(4,5) by simp
  have "4 * unat (ip_hlen h) \<le> Buffer_size original" using assms(4) hlen by (simp add: Buffer_size_def)
  then have "IPv4Header_check original h =
      pbind (NetParser_remove_prefix (unat (ip_hlen h) * 4 - IPv4Header_LENGTH)) (\<lambda>_.
      pbind NetParser_get_error (\<lambda>e. if e \<noteq> NoError then preturn e else preturn NoError))"
    using assms(1-3) sum unfolding IPv4Header_check_def Let_def by (simp add: leD)
  moreover have "parses \<dots> (?pad @ [] @ []) NoError"
    by (rule parses_bind parses_rules | simp add: IPv4Header_LENGTH_def)+
  ultimately show ?thesis by simp
qed

lemma parses_IPv4Header_check_plain:
  assumes "ip_hlen h = 5"
  shows "\<exists>r. parses (IPv4Header_check original h) [] r"
proof -
  let ?tail = "\<lambda>r. pbind (NetParser_remove_prefix 0) (\<lambda>_. pbind NetParser_get_error (\<lambda>e.
      if e \<noteq> NoError then preturn e else preturn r))"
  have "parses (?tail r) ([] @ [] @ []) r" for r
    by (rule parses_bind parses_rules | simp)+
  then have tail: "parses (?tail r) [] r" for r by simp
  have "IPv4Header_check original h = preturn PacketTooShort \<or>
      IPv4Header_check original h = preturn WrongIPVersion \<or>
      IPv4Header_check original h = preturn TruncatedPacket \<or>
      IPv4Header_check original h = ?tail BadChecksum \<or> IPv4Header_check original h = ?tail NoError"
    using assms unfolding IPv4Header_check_def Let_def by (simp add: IPv4Header_LENGTH_def)
  then show ?thesis by (elim disjE) (simp only:, rule exI, rule parses_return tail)+
qed

lemma IPv4Header_parse_wire:
  assumes "IPv4Header_wf h" and "feeds p (IPv4Header_fields h @ bs @ data)"
    and "parses (IPv4Header_check (np_buffer p) h) bs r"
  shows "\<exists>p'. IPv4Header_parse h0 p = Inr ((r, h), p') \<and> feeds p' data"
proof -
  from assms(2) have "\<not> Buffer_size (np_buffer p) < IPv4Header_LENGTH"
    by (simp add: feeds_def Buffer_size_def IPv4Header_LENGTH_def)
  then have "IPv4Header_parse h0 p =
      pbind IPv4Header_read (\<lambda>h. pbind (IPv4Header_check (np_buffer p) h) (\<lambda>r. preturn (r, h))) p"
    by (simp add: IPv4Header_parse_def NetParser_buffer_def)
  moreover have "parses (pbind IPv4Header_read (\<lambda>h. pbind (IPv4Header_check (np_buffer p) h) (\<lambda>r. preturn (r, h))))
      (IPv4Header_fields h @ bs @ []) (r, h)"
    by (rule parses_bind parses_IPv4Header_read assms(1,3) parses_return)+
  ultimately show ?thesis using parsesD assms(2) by fastforce
qed

lemma IPv4Datagram_parse_buffer:
  assumes "IPv4Header_wf h" and "Buffer_wf b" and "Buffer_str b = IPv4Header_fields h @ bs @ data"
    and "parses (IPv4Header_check b h) bs r" and "length data = unat (payload_length h)"
  shows "\<exists>b'. IPv4Datagram_parse d0 b = Inr (NoError, d0\<lparr>ipd_header := h, ipd_payload := [b']\<rparr>) \<and>
    Buffer_wf b' \<and> Buffer_str b' = data"
proof -
  have "feeds (NetParser_new b) (IPv4Header_fields h @ bs @ data)" using feeds_new [OF assms(2)] assms(3) by simp
  moreover have "np_buffer (NetParser_new b) = b" by (simp add: NetParser_new_def)
  ultimately obtain p' where p': "IPv4Header_parse (ipd_header d0) (NetParser_new b) = Inr ((r, h), p')"
    "feeds p' data" using IPv4Header_parse_wire [OF assms(1)] assms(4) by metis
  from p'(2) have "BufferList_size (BufferList_of_Buffer (np_buffer p')) = length data"
    using Buffer_str_bounded [of "np_buffer p'"]
    by (simp add: feeds_def BufferList_size_def BufferList_of_Buffer_def Buffer_size_def size_arith)
  with p' assms(5) show ?thesis
    by (intro exI [of _ "np_buffer p'"]) (simp add: IPv4Datagram_parse_def feeds_def BufferList_of_Buffer_def)
qed

lemma IPv4Datagram_parse_wire:
  assumes "IPv4Header_wf h" and "Buffer_wf b" and "Buffer_str b = IPv4Header_fields h @ bs @ data"
    and "parses (IPv4Header_check b h) bs r" and "length data = unat (payload_length h)"
  shows "\<exists>d. IPv4Datagram_parse d0 b = Inr (NoError, d) \<and> ipd_header d = h \<and>
    BufferList_concatenate (ipd_payload d) = data"
  using IPv4Datagram_parse_buffer [OF assms, of d0] by fastforce

text \<open>A header \<open>parse\<close> accepts sums to zero over the length its first byte gives.\<close>

lemma IPv4Header_read_hlen:
  assumes "feeds p (x # bs)" and "IPv4Header_read p = Inr (h, p')"
  shows "ip_hlen h = x AND 0x0f"
proof -
  obtain p1 where "NetParser_u8 p = Inr (x, p1)"
    using parsesD [OF parses_u(1) [of x], of p bs] assms(1) by (auto simp: be_bytes_simps)
  with assms(2) show ?thesis by (auto simp: IPv4Header_read_def pbind_def result_bind_Inr_iff preturn_def)
qed

lemma IPv4Header_check_NoError:
  assumes "IPv4Header_check b h p = Inr (NoError, p')"
  shows "4 * unat (ip_hlen h) \<le> length (Buffer_str b) \<and>
    checksum 0 (take (4 * unat (ip_hlen h)) (Buffer_str b)) = 0"
  using assms unfolding IPv4Header_check_def Let_def
  by (auto simp: Buffer_size_def pbind_def result_bind_Inr_iff preturn_def NetParser_get_error_def split: if_splits)

lemma IPv4Header_parse_accepts:
  assumes "Buffer_wf b" and "Buffer_str b = x # bs"
    and "IPv4Header_parse h0 (NetParser_new b) = Inr ((NoError, h), p)"
  shows "ip_hlen h = x AND 0x0f \<and> 4 * unat (ip_hlen h) \<le> length (Buffer_str b) \<and>
    checksum 0 (take (4 * unat (ip_hlen h)) (Buffer_str b)) = 0"
proof -
  have new: "np_buffer (NetParser_new b) = b" "feeds (NetParser_new b) (x # bs)"
    using feeds_new [OF assms(1)] assms(2) by (simp_all add: NetParser_new_def)
  from assms(3) new(1) obtain p1 where "IPv4Header_read (NetParser_new b) = Inr (h, p1)"
    "IPv4Header_check b h p1 = Inr (NoError, p)"
    by (auto simp: IPv4Header_parse_def NetParser_buffer_def pbind_def result_bind_Inr_iff preturn_def split: if_splits)
  with IPv4Header_read_hlen [OF new(2)] IPv4Header_check_NoError show ?thesis by blast
qed

lemma ip_header_sent_fields [simp]:
  "ip_ver (ip_header_sent h) = ip_ver h" "ip_hlen (ip_header_sent h) = ip_hlen h"
  "ip_len (ip_header_sent h) = ip_len h" "IPv4Header_wf (ip_header_sent h) \<longleftrightarrow> IPv4Header_wf h"
  "payload_length (ip_header_sent h) = payload_length h"
  by (simp_all add: ip_header_sent_def IPv4Header_wf_def payload_length_def)

lemma parses_check_sent:
  assumes "ip_ver h = 4" and "5 \<le> ip_hlen h" and "unat (ip_len h) = 4 * unat (ip_hlen h) + length data"
    and "b = Buffer_of_string (header_bytes (ip_header_sent h) @ data)"
  shows "length (header_bytes (ip_header_sent h) @ data) < SIZE_MOD" (is "?len < _")
    and "parses (IPv4Header_check b (ip_header_sent h)) (replicate (4 * unat (ip_hlen h) - 20) 0) NoError"
proof -
  have len: "?len = unat (ip_len h)" using assms(2,3) by (simp add: length_header_bytes)
  then show b: "?len < SIZE_MOD" by (simp only: unat16_below_SIZE_MOD)
  then have str: "Buffer_str b = header_bytes (ip_header_sent h) @ data" by (simp add: assms(4))
  from assms(1,2) have h: "ip_ver (ip_header_sent h) = 4" "5 \<le> ip_hlen (ip_header_sent h)" by simp_all
  have "Buffer_size b = unat (ip_len (ip_header_sent h))"
    using len by (simp add: str Buffer_size_def del: length_append)
  from parses_IPv4Header_check [OF h this str checksum_header_bytes [OF assms(2), folded ip_header_sent_def]]
  show "parses (IPv4Header_check b (ip_header_sent h)) (replicate (4 * unat (ip_hlen h) - 20) 0) NoError" by simp
qed

lemma IPv4Header_parse_sent:
  assumes "ip_ver h = 4" and "5 \<le> ip_hlen h" and "IPv4Header_wf h"
    and "unat (ip_len h) = 4 * unat (ip_hlen h) + length data"
  shows "\<exists>p. IPv4Header_parse h0 (NetParser_new (Buffer_of_string (header_bytes (ip_header_sent h) @ data))) =
    Inr ((NoError, ip_header_sent h), p)"
proof -
  let ?b = "Buffer_of_string (header_bytes (ip_header_sent h) @ data)"
  note check = parses_check_sent [OF assms(1,2,4) refl]
  have "feeds (NetParser_new ?b) (header_bytes (ip_header_sent h) @ data)"
    using feeds_new [of ?b] check(1) by simp
  then have "feeds (NetParser_new ?b) (IPv4Header_fields (ip_header_sent h) @
      replicate (4 * unat (ip_hlen h) - 20) 0 @ data)" by (simp add: header_bytes_def)
  moreover have "np_buffer (NetParser_new ?b) = ?b" by (simp add: NetParser_new_def)
  ultimately show ?thesis
    using IPv4Header_parse_wire [of "ip_header_sent h" "NetParser_new ?b"] check(2) assms(3) by fastforce
qed

section \<open>Properties\<close>

text \<open>
  C34. Round trip of IPv4 datagrams: serializing a datagram with a legal header and a payload of the
  length the header announces, and parsing the bytes again, gives the header (with the computed
  checksum) and the payload back.
\<close>

theorem ipv4_datagram_roundtrip:
  assumes "ip_ver (ipd_header d) = 4" and "5 \<le> ip_hlen (ipd_header d)" and "IPv4Header_wf (ipd_header d)"
    and "unat (ip_len (ipd_header d)) = 4 * unat (ip_hlen (ipd_header d)) + length (BufferList_concatenate (ipd_payload d))"
  shows "\<exists>bl d'. IPv4Datagram_serialize d = Inr bl \<and>
    IPv4Datagram_parse d0 (Buffer_of_string (BufferList_concatenate bl)) = Inr (NoError, d') \<and>
    (ipd_header d')\<lparr>ip_cksum := ip_cksum (ipd_header d)\<rparr> = ipd_header d \<and>
    BufferList_concatenate (ipd_payload d') = BufferList_concatenate (ipd_payload d)"
proof -
  let ?h = "ip_header_sent (ipd_header d)" and ?data = "BufferList_concatenate (ipd_payload d)"
  have len: "length ?data = unat (payload_length (ipd_header d))"
    by (rule payload_length_eq [OF assms(4)])
  have "length ?data < SIZE_MOD" by (simp only: len unat16_below_SIZE_MOD)
  then have "BufferList_size (ipd_payload d) = length ?data" by (simp add: BufferList_size_def BufferList_size_loop)
  with len have ser: "IPv4Datagram_serialize d = Inr (BufferList_of_string (header_bytes ?h) @ ipd_payload d)"
    by (intro IPv4Datagram_serialize_eq assms(1,2)) simp
  note check = parses_check_sent [OF assms(1,2,4) refl]
  obtain d' where "IPv4Datagram_parse d0 (Buffer_of_string (header_bytes ?h @ ?data)) = Inr (NoError, d')"
    "ipd_header d' = ?h" "BufferList_concatenate (ipd_payload d') = ?data"
    using IPv4Datagram_parse_wire [of ?h _ _ ?data, OF _ _ _ check(2), of d0] check(1) len assms(3)
    by (auto simp: header_bytes_def)
  with ser check(1) show ?thesis by (simp add: ip_header_sent_def)
qed

theorem ipv4_datagram_roundtrip_witness:
  "\<exists>bl d'. IPv4Datagram_serialize
       \<lparr>ipd_header = IPv4Header_default\<lparr>ip_len := 22\<rparr>, ipd_payload = [Buffer_of_string [1, 2]]\<rparr> = Inr bl \<and>
    IPv4Datagram_parse IPv4Datagram_default (Buffer_of_string (BufferList_concatenate bl)) = Inr (NoError, d') \<and>
    (ipd_header d')\<lparr>ip_cksum := 0\<rparr> = IPv4Header_default\<lparr>ip_len := 22\<rparr> \<and>
    BufferList_concatenate (ipd_payload d') = [1, 2]"
  using ipv4_datagram_roundtrip
    [of "\<lparr>ipd_header = IPv4Header_default\<lparr>ip_len := 22\<rparr>, ipd_payload = [Buffer_of_string [1, 2]]\<rparr>" IPv4Datagram_default]
  by (simp add: IPv4Header_default_def IPv4Header_LENGTH_def IPv4Header_wf_def SIZE_MOD_def)

text \<open>
  A corrupted IPv4 header is caught by \<open>IPv4Header::parse\<close>: when it accepts a datagram, it
  accepts no datagram that differs in exactly one byte of the header, the first byte (version and
  header length) aside.
\<close>

lemma ipv4_header_corruption_detected:
  assumes "Buffer_wf b" and "Buffer_wf b'" and "Buffer_str b = pre @ [x] @ post" and "Buffer_str b' = pre @ [y] @ post"
    and "x \<noteq> y" and "pre \<noteq> []" and "length pre < 4 * unat (ip_hlen h)"
    and "IPv4Header_parse h0 (NetParser_new b) = Inr ((NoError, h), p)"
  shows "IPv4Header_parse h0 (NetParser_new b') \<noteq> Inr ((NoError, h'), p')"
proof
  assume acc: "IPv4Header_parse h0 (NetParser_new b') = Inr ((NoError, h'), p')"
  obtain z pre' where pre: "pre = z # pre'" using assms(6) by (cases pre) auto
  define n where "n = 4 * unat (ip_hlen h)"
  have str: "Buffer_str b = z # (pre' @ [x] @ post)" "Buffer_str b' = z # (pre' @ [y] @ post)"
    using assms(3,4) pre by simp_all
  have a: "ip_hlen h = z AND 0x0f" "checksum 0 (take n (Buffer_str b)) = 0"
    unfolding n_def using IPv4Header_parse_accepts [OF assms(1) str(1) assms(8)] by blast+
  have a': "ip_hlen h' = z AND 0x0f" "checksum 0 (take (4 * unat (ip_hlen h')) (Buffer_str b')) = 0"
    using IPv4Header_parse_accepts [OF assms(2) str(2) acc] by blast+
  have n: "n \<le> 60" "4 * unat (ip_hlen h') = n" unfolding n_def a(1) a'(1)
    using word_and_le1 [of z "0x0f"] by (simp_all add: word_le_nat_alt)
  have t: "take n (pre @ [w] @ post) = pre @ [w] @ take (n - length pre - 1) post" for w
    using assms(7) by (simp add: n_def take_Cons' split: nat.splits)
  have "checksum 0 (pre @ [y] @ take (n - length pre - 1) post) \<noteq> 0"
  proof (rule checksum_byte_change [OF assms(5)])
    show "unat (0 :: 32 word) + 65280 * (length pre + length (take (n - length pre - 1) post) + 1) < 2 ^ 32"
      using n(1) assms(7) n_def by simp
    show "checksum 0 (pre @ [x] @ take (n - length pre - 1) post) = 0" using a(2) unfolding assms(3) t .
  qed
  with a'(2) n(2) assms(4) t show False by simp
qed

lemma ipv4_header_corruption_detected_witness:
  "\<exists>h p. let bs = header_bytes (ip_header_sent (IPv4Header_default\<lparr>ip_len := 20\<rparr>)) in
    IPv4Header_parse IPv4Header_default (NetParser_new (Buffer_of_string bs)) = Inr ((NoError, h), p) \<and>
    (\<nexists>h' p'. IPv4Header_parse IPv4Header_default (NetParser_new (Buffer_of_string (bs[1 := 8]))) = Inr ((NoError, h'), p'))"
proof -
  let ?h = "ip_header_sent (IPv4Header_default\<lparr>ip_len := 20\<rparr>)"
  let ?b = "Buffer_of_string (header_bytes ?h @ [])"
  have h: "IPv4Header_wf ?h" "ip_ver ?h = 4" "5 \<le> ip_hlen ?h" "ip_hlen ?h = 5" "ip_len ?h = 20" "ip_tos ?h = 0"
    by (simp_all add: ip_header_sent_def IPv4Header_default_def IPv4Header_LENGTH_def IPv4Header_wf_def)
  have bs: "header_bytes ?h = be_bytes (first_byte ?h) @ be_bytes (ip_tos ?h) @ drop 2 (header_bytes ?h)"
    by (simp add: header_bytes_def IPv4Header_fields_def be_bytes_simps)
  obtain z post where zp: "header_bytes ?h = [z] @ [0] @ post" using bs h(6) by (simp add: be_bytes_simps)
  have len: "length (header_bytes ?h) = 20" using length_header_bytes [OF h(3)] h(4) by simp
  then have wf: "Buffer_wf ?b" "Buffer_str ?b = header_bytes ?h @ []" by (simp_all add: SIZE_MOD_def)
  have len': "length ([z] @ [0] @ post) < SIZE_MOD" "length ([z] @ [8] @ post) < SIZE_MOD"
    using len unfolding zp by (simp_all add: SIZE_MOD_def)
  obtain p where p: "IPv4Header_parse IPv4Header_default (NetParser_new ?b) = Inr ((NoError, ?h), p)"
    using IPv4Header_parse_sent [of "IPv4Header_default\<lparr>ip_len := 20\<rparr>" "[]" IPv4Header_default]
    by (auto simp: IPv4Header_default_def IPv4Header_LENGTH_def IPv4Header_wf_def)
  have "IPv4Header_parse IPv4Header_default (NetParser_new (Buffer_of_string ([z] @ [8] @ post))) \<noteq> Inr ((NoError, h'), p')"
    for h' p'
    by (rule ipv4_header_corruption_detected [OF _ _ _ _ _ _ _ p, where pre = "[z]" and x = 0 and y = 8 and post = post])
      (use len' h(4) zp in simp_all)
  with p show ?thesis unfolding Let_def zp by (intro exI [of _ ?h] exI [of _ p]) (simp add: zp)
qed

text \<open>
  \<open>IPv4Datagram::parse\<close> ignores what \<open>IPv4Header::parse\<close> returns: a datagram without options
  whose length field is right is accepted with any version number and any header checksum.
\<close>

lemma ipv4_datagram_unverified:
  assumes "IPv4Header_wf h" and "ip_hlen h = 5" and "unat (ip_len h) = 20 + length data"
  shows "\<exists>d. IPv4Datagram_parse d0 (Buffer_of_string (IPv4Header_fields h @ data)) = Inr (NoError, d) \<and>
    ipd_header d = h \<and> BufferList_concatenate (ipd_payload d) = data"
proof -
  let ?bytes = "IPv4Header_fields h @ [] @ data"
  obtain r where r: "parses (IPv4Header_check (Buffer_of_string ?bytes) h) [] r"
    using parses_IPv4Header_check_plain [OF assms(2)] by blast
  have "length ?bytes < SIZE_MOD"
    using assms(3) unat16_below_SIZE_MOD [of "ip_len h"] by simp
  moreover have "length data = unat (payload_length h)"
    by (rule payload_length_eq) (use assms(2,3) in simp)
  ultimately show ?thesis using IPv4Datagram_parse_wire [OF assms(1) _ _ r, of data d0] by simp
qed

lemma ipv4_datagram_unverified_witness:
  "\<exists>d. IPv4Datagram_parse IPv4Datagram_default (Buffer_of_string
      (IPv4Header_fields (IPv4Header_default\<lparr>ip_ver := 6, ip_len := 21, ip_cksum := 0xdead\<rparr>) @ [7])) = Inr (NoError, d) \<and>
    ipd_header d = IPv4Header_default\<lparr>ip_ver := 6, ip_len := 21, ip_cksum := 0xdead\<rparr> \<and>
    BufferList_concatenate (ipd_payload d) = [7]"
  by (rule ipv4_datagram_unverified)
    (simp_all add: IPv4Header_default_def IPv4Header_LENGTH_def IPv4Header_wf_def)

end
