(* ===== verification/Link_Layer.thy ===== *)
theory Link_Layer
  imports Net_Parser
begin

text \<open>
  libsponge/tcp\_helpers/ethernet\_header.hh, ethernet\_header.cc, ethernet\_frame.hh, ethernet\_frame.cc,
  arp\_message.hh and arp\_message.cc: Ethernet frames and ARP messages, their parsers and serializers.
  An Ethernet address is the six bytes of the array. \<open>EthernetFrame::parse\<close> ignores the result of
  \<open>EthernetHeader::parse\<close> and returns the error flag of the \<open>NetParser\<close>.
\<close>

section \<open>EthernetHeader\<close>

type_synonym EthernetAddress = bytes

definition ETHERNET_BROADCAST :: EthernetAddress where
  "ETHERNET_BROADCAST = [0xff, 0xff, 0xff, 0xff, 0xff, 0xff]"

record EthernetHeader =
  eh_dst :: EthernetAddress
  eh_src :: EthernetAddress
  eh_type :: "16 word"

definition EthernetHeader_LENGTH :: nat where
  "EthernetHeader_LENGTH = 14"

definition TYPE_IPv4 :: "16 word" where
  "TYPE_IPv4 = 0x800"

definition TYPE_ARP :: "16 word" where
  "TYPE_ARP = 0x806"

definition EthernetHeader_parse :: "EthernetHeader \<Rightarrow> (ParseResult \<times> EthernetHeader) parser" where
  "EthernetHeader_parse h0 =
     pbind NetParser_buffer (\<lambda>buffer.
       if Buffer_size buffer < EthernetHeader_LENGTH then preturn (PacketTooShort, h0)
       else pbind (parse_bytes 6) (\<lambda>dst.
            pbind (parse_bytes 6) (\<lambda>src.
            pbind NetParser_u16 (\<lambda>type.
            pbind NetParser_get_error (\<lambda>e.
              preturn (e, \<lparr>eh_dst = dst, eh_src = src, eh_type = type\<rparr>))))))"

definition EthernetHeader_serialize :: "EthernetHeader \<Rightarrow> bytes" where
  "EthernetHeader_serialize h =
     (let ret = [];
          ret = unparse_bytes ret (eh_dst h);
          ret = unparse_bytes ret (eh_src h)
      in NetUnparser_u16 ret (eh_type h))"

section \<open>EthernetFrame\<close>

record EthernetFrame =
  ef_header :: EthernetHeader
  ef_payload :: BufferList

definition EthernetFrame_parse :: "EthernetFrame \<Rightarrow> Buffer \<Rightarrow> (ParseResult \<times> EthernetFrame) result" where
  "EthernetFrame_parse f buffer =
     result_bind (EthernetHeader_parse (ef_header f) (NetParser_new buffer)) (\<lambda>((_, h), p).
       Inr (np_error p, \<lparr>ef_header = h, ef_payload = BufferList_of_Buffer (np_buffer p)\<rparr>))"

definition EthernetFrame_serialize :: "EthernetFrame \<Rightarrow> BufferList" where
  "EthernetFrame_serialize f =
     BufferList_append (BufferList_append [] (BufferList_of_string (EthernetHeader_serialize (ef_header f)))) (ef_payload f)"

section \<open>ARPMessage\<close>

definition ARPMessage_LENGTH :: nat where
  "ARPMessage_LENGTH = 28"

definition TYPE_ETHERNET :: "16 word" where
  "TYPE_ETHERNET = 1"

definition OPCODE_REQUEST :: "16 word" where
  "OPCODE_REQUEST = 1"

definition OPCODE_REPLY :: "16 word" where
  "OPCODE_REPLY = 2"

record ARPMessage =
  am_hardware_type :: "16 word"
  am_protocol_type :: "16 word"
  am_hardware_address_size :: "8 word"
  am_protocol_address_size :: "8 word"
  am_opcode :: "16 word"
  am_sender_ethernet_address :: EthernetAddress
  am_sender_ip_address :: "32 word"
  am_target_ethernet_address :: EthernetAddress
  am_target_ip_address :: "32 word"

definition ARPMessage_default :: ARPMessage where
  "ARPMessage_default =
     \<lparr>am_hardware_type = TYPE_ETHERNET, am_protocol_type = TYPE_IPv4, am_hardware_address_size = 6,
      am_protocol_address_size = 4, am_opcode = 0, am_sender_ethernet_address = replicate 6 0,
      am_sender_ip_address = 0, am_target_ethernet_address = replicate 6 0, am_target_ip_address = 0\<rparr>"

definition supported :: "ARPMessage \<Rightarrow> bool" where
  "supported m \<longleftrightarrow>
     am_hardware_type m = TYPE_ETHERNET \<and> am_protocol_type m = TYPE_IPv4 \<and>
     am_hardware_address_size m = 6 \<and> am_protocol_address_size m = 4 \<and>
     (am_opcode m = OPCODE_REQUEST \<or> am_opcode m = OPCODE_REPLY)"

definition ARPMessage_read :: "ARPMessage \<Rightarrow> (ParseResult \<times> ARPMessage) parser" where
  "ARPMessage_read m =
     pbind NetParser_u16 (\<lambda>hardware_type.
     pbind NetParser_u16 (\<lambda>protocol_type.
     pbind NetParser_u8 (\<lambda>hardware_address_size.
     pbind NetParser_u8 (\<lambda>protocol_address_size.
     pbind NetParser_u16 (\<lambda>opcode.
       let m = m\<lparr>am_hardware_type := hardware_type, am_protocol_type := protocol_type,
                 am_hardware_address_size := hardware_address_size,
                 am_protocol_address_size := protocol_address_size, am_opcode := opcode\<rparr>
       in if \<not> supported m then preturn (Unsupported, m)
          else pbind (parse_bytes 6) (\<lambda>sender_ethernet_address.
               pbind NetParser_u32 (\<lambda>sender_ip_address.
               pbind (parse_bytes 6) (\<lambda>target_ethernet_address.
               pbind NetParser_u32 (\<lambda>target_ip_address.
               pbind NetParser_get_error (\<lambda>e.
                 preturn (e, m\<lparr>am_sender_ethernet_address := sender_ethernet_address,
                               am_sender_ip_address := sender_ip_address,
                               am_target_ethernet_address := target_ethernet_address,
                               am_target_ip_address := target_ip_address\<rparr>)))))))))))"

definition ARPMessage_parse :: "ARPMessage \<Rightarrow> Buffer \<Rightarrow> (ParseResult \<times> ARPMessage) result" where
  "ARPMessage_parse m buffer =
     (if Buffer_size (np_buffer (NetParser_new buffer)) < ARPMessage_LENGTH then Inr (PacketTooShort, m)
      else result_bind (ARPMessage_read m (NetParser_new buffer)) (\<lambda>(r, _). Inr r))"

definition ARPMessage_serialize :: "ARPMessage \<Rightarrow> bytes result" where
  "ARPMessage_serialize m =
     (if \<not> supported m then Inl RuntimeError
      else
        let ret = [];
            ret = NetUnparser_u16 ret (am_hardware_type m);
            ret = NetUnparser_u16 ret (am_protocol_type m);
            ret = NetUnparser_u8 ret (am_hardware_address_size m);
            ret = NetUnparser_u8 ret (am_protocol_address_size m);
            ret = NetUnparser_u16 ret (am_opcode m);
            ret = unparse_bytes ret (am_sender_ethernet_address m);
            ret = NetUnparser_u32 ret (am_sender_ip_address m);
            ret = unparse_bytes ret (am_target_ethernet_address m);
            ret = NetUnparser_u32 ret (am_target_ip_address m)
        in Inr ret)"

section \<open>Frames on the wire\<close>

definition EthernetHeader_wf :: "EthernetHeader \<Rightarrow> bool" where
  "EthernetHeader_wf h \<longleftrightarrow> length (eh_dst h) = 6 \<and> length (eh_src h) = 6"

lemma EthernetHeader_serialize_eq: "EthernetHeader_serialize h = eh_dst h @ eh_src h @ be_bytes (eh_type h)"
  by (simp add: EthernetHeader_serialize_def)

lemma total_EthernetHeader_parse [total]: "parser_total (EthernetHeader_parse h)"
  unfolding EthernetHeader_parse_def by (intro total)

lemma EthernetHeader_parse_wire:
  assumes "EthernetHeader_wf h" and "feeds p (EthernetHeader_serialize h @ data)"
  shows "\<exists>p'. EthernetHeader_parse h0 p = Inr ((NoError, h), p') \<and> feeds p' data"
proof -
  let ?rest = "pbind (parse_bytes 6) (\<lambda>dst. pbind (parse_bytes 6) (\<lambda>src. pbind NetParser_u16 (\<lambda>type.
      pbind NetParser_get_error (\<lambda>e. preturn (e, \<lparr>eh_dst = dst, eh_src = src, eh_type = type\<rparr>)))))"
  have len: "length (eh_dst h) = 6" "length (eh_src h) = 6" using assms(1) by (simp_all add: EthernetHeader_wf_def)
  have "parses ?rest (eh_dst h @ eh_src h @ be_bytes (eh_type h) @ [] @ [])
      (NoError, \<lparr>eh_dst = eh_dst h, eh_src = eh_src h, eh_type = eh_type h\<rparr>)"
    by (rule parses_bind parses_rules len)+
  moreover have "\<lparr>eh_dst = eh_dst h, eh_src = eh_src h, eh_type = eh_type h\<rparr> = h" by simp
  ultimately have "parses ?rest (EthernetHeader_serialize h) (NoError, h)" by (simp add: EthernetHeader_serialize_eq)
  from parsesD [OF this assms(2)] obtain p' where "?rest p = Inr ((NoError, h), p')" "feeds p' data" by blast
  moreover have "\<not> Buffer_size (np_buffer p) < EthernetHeader_LENGTH"
    using assms by (simp add: feeds_def Buffer_size_def EthernetHeader_serialize_eq EthernetHeader_wf_def EthernetHeader_LENGTH_def)
  ultimately show ?thesis by (simp add: EthernetHeader_parse_def NetParser_buffer_def)
qed

definition ARPMessage_wf :: "ARPMessage \<Rightarrow> bool" where
  "ARPMessage_wf m \<longleftrightarrow> length (am_sender_ethernet_address m) = 6 \<and> length (am_target_ethernet_address m) = 6"

definition ARPMessage_bytes :: "ARPMessage \<Rightarrow> bytes" where
  "ARPMessage_bytes m =
     be_bytes (am_hardware_type m) @ be_bytes (am_protocol_type m) @ be_bytes (am_hardware_address_size m) @
     be_bytes (am_protocol_address_size m) @ be_bytes (am_opcode m) @ am_sender_ethernet_address m @
     be_bytes (am_sender_ip_address m) @ am_target_ethernet_address m @ be_bytes (am_target_ip_address m)"

lemma length_ARPMessage_bytes: "ARPMessage_wf m \<Longrightarrow> length (ARPMessage_bytes m) = 28"
  by (simp add: ARPMessage_wf_def ARPMessage_bytes_def)

lemma ARPMessage_serialize_eq: "supported m \<Longrightarrow> ARPMessage_serialize m = Inr (ARPMessage_bytes m)"
  by (simp add: ARPMessage_serialize_def ARPMessage_bytes_def Let_def)

lemma parses_ARPMessage:
  assumes "supported m" and "ARPMessage_wf m"
  shows "parses (ARPMessage_read m0) (ARPMessage_bytes m) (NoError, m)"
proof -
  let ?m = "m0\<lparr>am_hardware_type := am_hardware_type m, am_protocol_type := am_protocol_type m,
      am_hardware_address_size := am_hardware_address_size m,
      am_protocol_address_size := am_protocol_address_size m, am_opcode := am_opcode m\<rparr>"
  let ?addresses = "pbind (parse_bytes 6) (\<lambda>se. pbind NetParser_u32 (\<lambda>si. pbind (parse_bytes 6) (\<lambda>te.
      pbind NetParser_u32 (\<lambda>ti. pbind NetParser_get_error (\<lambda>e.
        preturn (e, ?m\<lparr>am_sender_ethernet_address := se, am_sender_ip_address := si,
          am_target_ethernet_address := te, am_target_ip_address := ti\<rparr>))))))"
  let ?bytes = "am_sender_ethernet_address m @ be_bytes (am_sender_ip_address m) @
      am_target_ethernet_address m @ be_bytes (am_target_ip_address m)"
  have len: "length (am_sender_ethernet_address m) = 6" "length (am_target_ethernet_address m) = 6"
    using assms(2) by (simp_all add: ARPMessage_wf_def)
  have "parses ?addresses (am_sender_ethernet_address m @ be_bytes (am_sender_ip_address m) @
      am_target_ethernet_address m @ be_bytes (am_target_ip_address m) @ [] @ [])
      (NoError, ?m\<lparr>am_sender_ethernet_address := am_sender_ethernet_address m,
        am_sender_ip_address := am_sender_ip_address m,
        am_target_ethernet_address := am_target_ethernet_address m,
        am_target_ip_address := am_target_ip_address m\<rparr>)"
    by (rule parses_bind parses_rules len)+
  moreover have "?m\<lparr>am_sender_ethernet_address := am_sender_ethernet_address m,
        am_sender_ip_address := am_sender_ip_address m,
        am_target_ethernet_address := am_target_ethernet_address m,
        am_target_ip_address := am_target_ip_address m\<rparr> = m" by simp
  ultimately have "parses ?addresses ?bytes (NoError, m)" by simp
  moreover have "supported ?m" using assms(1) by (simp add: supported_def)
  ultimately have tail: "parses (if \<not> supported ?m then preturn (Unsupported, ?m) else ?addresses) ?bytes (NoError, m)"
    by simp
  show ?thesis unfolding ARPMessage_read_def ARPMessage_bytes_def
    by (rule parses_bind, rule parses_rules)+ (use tail in \<open>simp only: Let_def\<close>)
qed

lemma total_ARPMessage_read [total]: "parser_total (ARPMessage_read m)"
  unfolding ARPMessage_read_def by (intro total)

lemma ARPMessage_parse_bytes:
  assumes "supported m" and "ARPMessage_wf m"
  shows "ARPMessage_parse m0 (Buffer_of_string (ARPMessage_bytes m)) = Inr (NoError, m)"
proof -
  let ?b = "Buffer_of_string (ARPMessage_bytes m)"
  have len: "length (ARPMessage_bytes m) = 28" by (rule length_ARPMessage_bytes [OF assms(2)])
  then have "feeds (NetParser_new ?b) (ARPMessage_bytes m @ [])" using feeds_new [of ?b] by (simp add: SIZE_MOD_def)
  from parsesD [OF parses_ARPMessage [OF assms] this] obtain p where
    "ARPMessage_read m0 (NetParser_new ?b) = Inr ((NoError, m), p)" by blast
  then show ?thesis using len
    by (simp add: ARPMessage_parse_def NetParser_new_def Buffer_size_def ARPMessage_LENGTH_def SIZE_MOD_def)
qed

section \<open>Properties\<close>

text \<open>
  Round trip of Ethernet frames: the bytes of a serialized frame parse to the same header and
  payload.
\<close>

lemma ethernet_frame_roundtrip:
  assumes "EthernetHeader_wf (ef_header f)" and "14 + length (BufferList_concatenate (ef_payload f)) < SIZE_MOD"
  shows "\<exists>f'. EthernetFrame_parse f0 (Buffer_of_string (BufferList_concatenate (EthernetFrame_serialize f))) =
    Inr (NoError, f') \<and> ef_header f' = ef_header f \<and>
    BufferList_concatenate (ef_payload f') = BufferList_concatenate (ef_payload f)"
proof -
  let ?bytes = "EthernetHeader_serialize (ef_header f) @ BufferList_concatenate (ef_payload f)"
  have len: "length (EthernetHeader_serialize (ef_header f)) = 14"
    using assms(1) by (simp add: EthernetHeader_serialize_eq EthernetHeader_wf_def)
  then have ser: "BufferList_concatenate (EthernetFrame_serialize f) = ?bytes"
    by (simp add: EthernetFrame_serialize_def BufferList_append_def SIZE_MOD_def)
  have "feeds (NetParser_new (Buffer_of_string ?bytes)) ?bytes"
    using feeds_new [of "Buffer_of_string ?bytes"] len assms(2) by simp
  from EthernetHeader_parse_wire [OF assms(1) this, of "ef_header f0"] show ?thesis
    unfolding ser by (auto simp: EthernetFrame_parse_def feeds_def BufferList_of_Buffer_def)
qed

lemma ethernet_frame_roundtrip_witness:
  "\<exists>f'. EthernetFrame_parse
      \<lparr>ef_header = \<lparr>eh_dst = ETHERNET_BROADCAST, eh_src = ETHERNET_BROADCAST, eh_type = 0\<rparr>, ef_payload = []\<rparr>
       (Buffer_of_string (BufferList_concatenate (EthernetFrame_serialize
       \<lparr>ef_header = \<lparr>eh_dst = ETHERNET_BROADCAST, eh_src = [2, 0, 0, 0, 0, 1], eh_type = TYPE_ARP\<rparr>,
        ef_payload = [Buffer_of_string [1], Buffer_of_string [2, 3]]\<rparr>))) = Inr (NoError, f') \<and>
    ef_header f' = \<lparr>eh_dst = ETHERNET_BROADCAST, eh_src = [2, 0, 0, 0, 0, 1], eh_type = TYPE_ARP\<rparr> \<and>
    BufferList_concatenate (ef_payload f') = [1, 2, 3]"
  using ethernet_frame_roundtrip [of
      "\<lparr>ef_header = \<lparr>eh_dst = ETHERNET_BROADCAST, eh_src = [2, 0, 0, 0, 0, 1], eh_type = TYPE_ARP\<rparr>,
        ef_payload = [Buffer_of_string [1], Buffer_of_string [2, 3]]\<rparr>"
      "\<lparr>ef_header = \<lparr>eh_dst = ETHERNET_BROADCAST, eh_src = ETHERNET_BROADCAST, eh_type = 0\<rparr>, ef_payload = []\<rparr>"]
  by (simp add: EthernetHeader_wf_def ETHERNET_BROADCAST_def SIZE_MOD_def)

text \<open>
  Round trip of ARP messages: a message of the supported kind serializes to 28 bytes that parse
  to the same message.
\<close>

lemma arp_message_roundtrip:
  assumes "supported m" and "ARPMessage_wf m"
  shows "\<exists>bs. ARPMessage_serialize m = Inr bs \<and> length bs = 28 \<and>
    ARPMessage_parse m0 (Buffer_of_string bs) = Inr (NoError, m)"
  using ARPMessage_parse_bytes [OF assms] by (simp add: ARPMessage_serialize_eq assms length_ARPMessage_bytes)

lemma arp_message_roundtrip_witness:
  "\<exists>bs. ARPMessage_serialize (ARPMessage_default\<lparr>am_opcode := OPCODE_REPLY\<rparr>) = Inr bs \<and> length bs = 28 \<and>
    ARPMessage_parse ARPMessage_default (Buffer_of_string bs) =
      Inr (NoError, ARPMessage_default\<lparr>am_opcode := OPCODE_REPLY\<rparr>)"
  by (rule arp_message_roundtrip) (simp_all add: supported_def ARPMessage_wf_def ARPMessage_default_def)

text \<open>
  \<open>EthernetFrame::parse\<close> ignores what \<open>EthernetHeader::parse\<close> returns: a frame too short to hold
  a header is reported as parsed without error, with the header the object had before.
\<close>

lemma ethernet_short_frame_accepted:
  assumes "length bs < 14"
  shows "EthernetFrame_parse f0 (Buffer_of_string bs) =
    Inr (NoError, \<lparr>ef_header = ef_header f0, ef_payload = [Buffer_of_string bs]\<rparr>)"
  using assms
  by (simp add: EthernetFrame_parse_def EthernetHeader_parse_def NetParser_buffer_def NetParser_new_def Buffer_size_def
      EthernetHeader_LENGTH_def SIZE_MOD_def BufferList_of_Buffer_def preturn_def)

lemma ethernet_short_frame_accepted_witness:
  "EthernetFrame_parse \<lparr>ef_header = \<lparr>eh_dst = ETHERNET_BROADCAST, eh_src = ETHERNET_BROADCAST, eh_type = TYPE_IPv4\<rparr>,
      ef_payload = []\<rparr> (Buffer_of_string [1, 2, 3]) =
    Inr (NoError, \<lparr>ef_header = \<lparr>eh_dst = ETHERNET_BROADCAST, eh_src = ETHERNET_BROADCAST, eh_type = TYPE_IPv4\<rparr>,
      ef_payload = [Buffer_of_string [1, 2, 3]]\<rparr>)"
  using ethernet_short_frame_accepted [of "[1, 2, 3]"] by simp

end
