(* ===== verification/Text_Format.thy ===== *)
theory Text_Format
  imports Sponge_Prelude
begin

text \<open>
  What the code uses of the standard library to print: numbers in a base (\<open>std::to_string\<close>, an
  output stream in dec or hex mode), \<open>setw\<close>/\<open>setfill\<close>, \<open>boolalpha\<close>, \<open>inet_ntoa\<close>, \<open>isprint\<close>, and
  \<open>std::stoi\<close> on what was printed. Text is \<^typ>\<open>string\<close>; the bytes on the wire stay \<^typ>\<open>bytes\<close>.
\<close>

unbundle bit_operations_syntax

section \<open>Numbers\<close>

definition digit_char :: "nat \<Rightarrow> char" where
  "digit_char d = (if d < 10 then char_of (48 + d) else char_of (87 + d))"

function num_string :: "nat \<Rightarrow> nat \<Rightarrow> string" where
  "num_string b n = (if b < 2 \<or> n < b then [digit_char n] else num_string b (n div b) @ [digit_char (n mod b)])"
  by auto
termination num_string
  by (relation "measure snd") auto

declare num_string.simps [simp del]

abbreviation dec_string :: "nat \<Rightarrow> string" where
  "dec_string \<equiv> num_string 10"

abbreviation hex_string :: "nat \<Rightarrow> string" where
  "hex_string \<equiv> num_string 16"

text \<open>\<open>setw(w)\<close> with the fill character \<open>c\<close>: shorter text is padded on the left.\<close>

definition pad_left :: "nat \<Rightarrow> char \<Rightarrow> string \<Rightarrow> string" where
  "pad_left w c s = replicate (w - length s) c @ s"

definition boolalpha :: "bool \<Rightarrow> string" where
  "boolalpha b = (if b then ''true'' else ''false'')"

definition char_value :: "char \<Rightarrow> nat" where
  "char_value c = of_char c - 48"

definition digits_value :: "string \<Rightarrow> nat" where
  "digits_value s = foldl (\<lambda>n c. 10 * n + char_value c) 0 s"

text \<open>\<open>std::stoi\<close> on text that starts with digits: the number they spell; it throws
  std::invalid\_argument when there is none.\<close>

definition is_digit :: "char \<Rightarrow> bool" where
  "is_digit c \<longleftrightarrow> 48 \<le> (of_char c :: nat) \<and> (of_char c :: nat) \<le> 57"

definition stoi :: "string \<Rightarrow> nat result" where
  "stoi s = (case takeWhile is_digit s of [] \<Rightarrow> Inl InvalidArgument | ds \<Rightarrow> Inr (digits_value ds))"

section \<open>Addresses and characters\<close>

text \<open>\<open>inet_ntoa\<close> of an address given in host byte order.\<close>

definition inet_ntoa :: "32 word \<Rightarrow> string" where
  "inet_ntoa ip =
     dec_string (unat (drop_bit 24 ip)) @ ''.'' @ dec_string (unat (drop_bit 16 ip AND 0xff)) @ ''.'' @
     dec_string (unat (drop_bit 8 ip AND 0xff)) @ ''.'' @ dec_string (unat (ip AND 0xff))"

text \<open>\<open>isprint\<close> in the C locale.\<close>

definition isprint :: "byte \<Rightarrow> bool" where
  "isprint b \<longleftrightarrow> 0x20 \<le> b \<and> b \<le> 0x7e"

definition char_of_byte :: "byte \<Rightarrow> char" where
  "char_of_byte b = char_of (unat b)"

section \<open>Lemmas\<close>

lemma of_digit_char [simp]:
  "d < 10 \<Longrightarrow> (of_char (digit_char d) :: nat) = 48 + d"
  "\<lbrakk>10 \<le> d; d < 16\<rbrakk> \<Longrightarrow> (of_char (digit_char d) :: nat) = 87 + d"
  by (simp_all add: digit_char_def)

lemma is_digit_digit_char [simp]: "d < 10 \<Longrightarrow> is_digit (digit_char d)"
  by (simp add: is_digit_def)

lemma digit_char_inject: "\<lbrakk>d < 16; e < 16\<rbrakk> \<Longrightarrow> digit_char d = digit_char e \<longleftrightarrow> d = e"
proof
  assume "d < 16" "e < 16" "digit_char d = digit_char e"
  then have "(of_char (digit_char d) :: nat) = of_char (digit_char e)" by simp
  with \<open>d < 16\<close> \<open>e < 16\<close> show "d = e" by (cases "d < 10"; cases "e < 10") simp_all
qed simp

lemma dec_string_digits: "list_all is_digit (dec_string n)"
proof (induction n rule: less_induct)
  case (less n)
  then show ?case by (subst num_string.simps) (simp add: list_all_append)
qed

lemma dec_string_not_Nil [simp]: "num_string b n \<noteq> []"
  by (subst num_string.simps) simp

lemma digits_value_snoc: "digits_value (s @ [c]) = 10 * digits_value s + char_value c"
  by (simp add: digits_value_def)

lemma digits_value_dec [simp]: "digits_value (dec_string n) = n"
proof (induction n rule: less_induct)
  case (less n)
  have c: "char_value (digit_char d) = d" if "d < 10" for d using that by (simp add: char_value_def)
  show ?case
  proof (cases "n < 10")
    case True
    then show ?thesis by (subst num_string.simps) (simp add: digits_value_def c)
  next
    case False
    then have "digits_value (dec_string n) = 10 * digits_value (dec_string (n div 10)) + n mod 10"
      by (subst num_string.simps) (simp add: digits_value_snoc c)
    with False less.IH [of "n div 10"] show ?thesis by simp
  qed
qed

lemma stoi_dec [simp]: "stoi (dec_string n) = Inr n"
proof -
  have "takeWhile is_digit (dec_string n) = dec_string n"
    using dec_string_digits [of n] by (simp add: takeWhile_eq_all_conv list_all_iff)
  then have "stoi (dec_string n) = (case dec_string n of [] \<Rightarrow> Inl InvalidArgument | ds \<Rightarrow> Inr (digits_value ds))"
    by (simp only: stoi_def)
  then show ?thesis using digits_value_dec [of n] by (cases "dec_string n") simp_all
qed

lemma dec_string_inject [simp]: "dec_string m = dec_string n \<longleftrightarrow> m = n"
  by (metis digits_value_dec)

text \<open>Two hexadecimal digits, as \<open>setw(2)\<close> prints a byte.\<close>

lemma digit_char_0: "digit_char 0 = CHR ''0''"
  by code_simp

lemma hex_byte:
  assumes "n < 256"
  shows "pad_left 2 (CHR ''0'') (hex_string n) = [digit_char (n div 16), digit_char (n mod 16)]"
proof (cases "n < 16")
  case True
  then have "hex_string n = [digit_char n]" by (subst num_string.simps) simp
  with True show ?thesis by (simp add: pad_left_def digit_char_0)
next
  case False
  with assms have "hex_string (n div 16) = [digit_char (n div 16)]" by (subst num_string.simps) simp
  with False have "hex_string n = [digit_char (n div 16), digit_char (n mod 16)]" by (subst num_string.simps) simp
  then show ?thesis by (simp add: pad_left_def)
qed

end
