(* ===== verification/Printing.thy ===== *)
theory Printing
  imports Text_Format TCP_Segment IPv4 Link_Layer
begin

text \<open>
  The human-readable forms: \<open>to_string\<close> and \<open>summary\<close> of the TCP, IPv4 and Ethernet headers and of ARP
  messages, and \<open>hexdump\<close> of util.cc. A stream in \<open>hex\<close> mode prints every number in base 16, also the
  raw value of a sequence number. What is written to \<open>cout\<close> is the value of \<open>hexdump\<close>.
\<close>

section \<open>Headers\<close>

definition newline :: string where
  "newline = [char_of (10 :: nat)]"

abbreviation hex_of :: "'a::len word \<Rightarrow> string" where
  "hex_of w \<equiv> hex_string (unat w)"

abbreviation dec_of :: "'a::len word \<Rightarrow> string" where
  "dec_of w \<equiv> dec_string (unat w)"

definition TCPHeader_to_string :: "TCPHeader \<Rightarrow> string" where
  "TCPHeader_to_string h =
     ''TCP source port: '' @ hex_of (th_sport h) @ newline @
     ''TCP dest port: '' @ hex_of (th_dport h) @ newline @
     ''TCP seqno: '' @ hex_of (th_seqno h) @ newline @
     ''TCP ackno: '' @ hex_of (th_ackno h) @ newline @
     ''TCP doff: '' @ hex_of (th_doff h) @ newline @
     ''Flags: urg: '' @ boolalpha (th_urg h) @ '' ack: '' @ boolalpha (th_ack h) @ '' psh: '' @ boolalpha (th_psh h) @
     '' rst: '' @ boolalpha (th_rst h) @ '' syn: '' @ boolalpha (th_syn h) @ '' fin: '' @ boolalpha (th_fin h) @ newline @
     ''TCP winsize: '' @ hex_of (th_win h) @ newline @
     ''TCP cksum: '' @ hex_of (th_cksum h) @ newline @
     ''TCP uptr: '' @ hex_of (th_uptr h) @ newline"

definition TCPHeader_summary :: "TCPHeader \<Rightarrow> string" where
  "TCPHeader_summary h =
     ''Header(flags='' @ (if th_syn h then ''S'' else '''') @ (if th_ack h then ''A'' else '''') @
     (if th_rst h then ''R'' else '''') @ (if th_fin h then ''F'' else '''') @
     '',seqno='' @ dec_of (th_seqno h) @ '',ack='' @ dec_of (th_ackno h) @ '',win='' @ dec_of (th_win h) @ '')''"

definition IPv4Header_to_string :: "IPv4Header \<Rightarrow> string" where
  "IPv4Header_to_string h =
     ''IP version: '' @ hex_of (ip_ver h) @ newline @
     ''IP hdr len: '' @ hex_of (ip_hlen h) @ newline @
     ''IP tos: '' @ hex_of (ip_tos h) @ newline @
     ''IP dgram len: '' @ hex_of (ip_len h) @ newline @
     ''IP id: '' @ hex_of (ip_id h) @ newline @
     ''Flags: df: '' @ boolalpha (ip_df h) @ '' mf: '' @ boolalpha (ip_mf h) @ newline @
     ''Offset: '' @ hex_of (ip_offset h) @ newline @
     ''TTL: '' @ hex_of (ip_ttl h) @ newline @
     ''Protocol: '' @ hex_of (ip_proto h) @ newline @
     ''Checksum: '' @ hex_of (ip_cksum h) @ newline @
     ''Src addr: '' @ hex_of (ip_src h) @ newline @
     ''Dst addr: '' @ hex_of (ip_dst h) @ newline"

definition IPv4Header_summary :: "IPv4Header \<Rightarrow> string" where
  "IPv4Header_summary h =
     ''IPv'' @ hex_of (ip_ver h) @ '', '' @
     ''len='' @ hex_of (ip_len h) @ '', '' @
     ''protocol='' @ hex_of (ip_proto h) @ '', '' @
     (if 10 \<le> ip_ttl h then '''' else ''ttl='' @ dec_of (ip_ttl h) @ '', '') @
     ''src='' @ inet_ntoa (ip_src h) @ '', '' @
     ''dst='' @ inet_ntoa (ip_dst h)"

text \<open>The loop of \<open>to_string(EthernetAddress)\<close>: no colon after the last byte.\<close>

fun EthernetAddress_to_string :: "EthernetAddress \<Rightarrow> string" where
  "EthernetAddress_to_string [] = ''''"
| "EthernetAddress_to_string [b] = pad_left 2 (CHR ''0'') (hex_of b)"
| "EthernetAddress_to_string (b # bs) = pad_left 2 (CHR ''0'') (hex_of b) @ '':'' @ EthernetAddress_to_string bs"

definition EthernetHeader_to_string :: "EthernetHeader \<Rightarrow> string" where
  "EthernetHeader_to_string h =
     ''dst='' @ EthernetAddress_to_string (eh_dst h) @ '', src='' @ EthernetAddress_to_string (eh_src h) @ '', type='' @
     (if eh_type h = TYPE_IPv4 then ''IPv4''
      else if eh_type h = TYPE_ARP then ''ARP''
      else ''[unknown type '' @ hex_of (eh_type h) @ ''!]'')"

definition ARPMessage_to_string :: "ARPMessage \<Rightarrow> string" where
  "ARPMessage_to_string m =
     (let opcode_str = ''(unknown type)'';
          opcode_str = (if am_opcode m = OPCODE_REQUEST then ''REQUEST'' else opcode_str);
          opcode_str = (if am_opcode m = OPCODE_REPLY then ''REPLY'' else opcode_str)
      in ''opcode='' @ opcode_str @ '', sender='' @ EthernetAddress_to_string (am_sender_ethernet_address m) @ ''/'' @
         inet_ntoa (am_sender_ip_address m) @ '', target='' @ EthernetAddress_to_string (am_target_ethernet_address m) @
         ''/'' @ inet_ntoa (am_target_ip_address m))"

section \<open>hexdump\<close>

text \<open>
  The string stream \<open>pchars\<close> is constructed from \<open>" "\<close> (and reset to it), which leaves its write
  position at the start: the first character written replaces the blank. \<open>pchars_str\<close> is what
  \<open>str()\<close> returns after the characters \<open>cs\<close> were written.
\<close>

definition pchars_str :: "string \<Rightarrow> string" where
  "pchars_str cs = (if cs = [] then '' '' else cs)"

text \<open>One pass of the loop per byte: the text so far, the number of bytes printed and \<open>pchars\<close>.\<close>

fun hexdump_loop :: "string \<Rightarrow> string \<Rightarrow> nat \<Rightarrow> string \<Rightarrow> bytes \<Rightarrow> string \<times> nat \<times> string" where
  "hexdump_loop indent_string out printed pchars [] = (out, printed, pchars)"
| "hexdump_loop indent_string out printed pchars (b # data) =
     (let (out, pchars) =
            (if printed mod 16 = 0 then
               (let (out, pchars) = (if printed \<noteq> 0 then (out @ ''    '' @ pchars_str pchars @ newline, '''') else (out, pchars))
                in (out @ indent_string @ pad_left 8 (CHR ''0'') (hex_string printed) @ '':    '', pchars))
             else if printed mod 2 = 0 then (out @ '' '', pchars)
             else (out, pchars))
      in hexdump_loop indent_string (out @ pad_left 2 (CHR ''0'') (hex_of b)) (printed + 1)
           (pchars @ [if isprint b then char_of_byte b else CHR ''.'']) data)"

definition hexdump :: "bytes \<Rightarrow> nat \<Rightarrow> string" where
  "hexdump data indent =
     (let indent_string = replicate indent (CHR '' '');
          (out, printed, pchars) = hexdump_loop indent_string '''' 0 '''' data;
          print_rem = (16 - printed mod 16) mod 16
      in out @ replicate (2 * print_rem + print_rem div 2 + 4) (CHR '' '') @ pchars_str pchars @ newline @ newline)"

section \<open>Properties\<close>

lemma EthernetAddress_to_string_Cons:
  "EthernetAddress_to_string (b # bs) =
     pad_left 2 (CHR ''0'') (hex_of b) @ (if bs = [] then '''' else '':'' @ EthernetAddress_to_string bs)"
  by (cases bs) simp_all

lemma hex_of_byte:
  "pad_left 2 (CHR ''0'') (hex_of (b :: byte)) = [digit_char (unat b div 16), digit_char (unat b mod 16)]"
  by (rule hex_byte [OF unat_width_less(1)])

lemma hex_of_byte_inject:
  fixes b c :: byte
  shows "digit_char (unat b div 16) = digit_char (unat c div 16) \<and>
    digit_char (unat b mod 16) = digit_char (unat c mod 16) \<longleftrightarrow> b = c"
proof -
  have "unat w div 16 < 16" for w :: byte using unat_width_less(1) [of w] by (simp add: less_mult_imp_div_less)
  then have "digit_char (unat b div 16) = digit_char (unat c div 16) \<longleftrightarrow> unat b div 16 = unat c div 16"
    "digit_char (unat b mod 16) = digit_char (unat c mod 16) \<longleftrightarrow> unat b mod 16 = unat c mod 16"
    by (simp_all add: digit_char_inject)
  moreover have "unat b div 16 = unat c div 16 \<and> unat b mod 16 = unat c mod 16 \<longleftrightarrow> unat b = unat c"
    by (metis div_mult_mod_eq)
  ultimately show ?thesis by (simp add: word_unat_eq_iff)
qed

text \<open>
  The textual form of an Ethernet address identifies it: addresses of the same length print the
  same only when they are equal.
\<close>

lemma ethernet_address_text_injective:
  assumes "length a = length b"
  shows "EthernetAddress_to_string a = EthernetAddress_to_string b \<longleftrightarrow> a = b"
  using assms
proof (induction a b rule: list_induct2)
  case (Cons x xs y ys)
  then show ?case using hex_of_byte_inject [of x y]
    by (auto simp: EthernetAddress_to_string_Cons hex_of_byte split: if_splits)
qed simp

end
