(* ===== verification/Addresses.thy ===== *)
theory Addresses
  imports Text_Format Net_Parser
begin

text \<open>
  libsponge/util/address.hh and address.cc: socket addresses. An \<open>Address\<close> is the size and the bytes of
  its sockaddr\_storage (128 bytes on Linux, where AF\_INET is 2 and the family is stored in host byte
  order, the port and the IPv4 address in network byte order).

  The resolver, getaddrinfo and getnameinfo, is a parameter, the record \<open>resolver\<close>. What the code
  relies on, that the numeric form of an IPv4 address and of a port translate to the address and back,
  is the predicate \<open>numeric_resolver\<close>; \<open>dotted_resolver\<close> satisfies it.
\<close>

unbundle bit_operations_syntax

section \<open>Socket addresses\<close>

definition AF_INET :: "16 word" where
  "AF_INET = 2"

definition sizeof_sockaddr_storage :: nat where
  "sizeof_sockaddr_storage = 128"

definition sizeof_sockaddr_in :: nat where
  "sizeof_sockaddr_in = 16"

text \<open>The bytes of a sockaddr\_in: sin\_family, sin\_port, sin\_addr, sin\_zero.\<close>

definition sockaddr_in :: "32 word \<Rightarrow> 16 word \<Rightarrow> bytes" where
  "sockaddr_in ip port = rev (be_bytes AF_INET) @ be_bytes port @ be_bytes ip @ replicate 8 0"

record Address =
  ad_size :: nat
  ad_storage :: bytes

definition ss_family :: "bytes \<Rightarrow> 16 word" where
  "ss_family storage = be_word (rev (take 2 storage))"

section \<open>Operations\<close>

definition Address_of_sockaddr :: "bytes \<Rightarrow> nat \<Rightarrow> Address result" where
  "Address_of_sockaddr addr sz =
     (if sizeof_sockaddr_storage < sz then Inl RuntimeError
      else if length addr < sz then Inl OutOfBounds
      else Inr \<lparr>ad_size = sz, ad_storage = take sz addr @ replicate (sizeof_sockaddr_storage - sz) 0\<rparr>)"

text \<open>
  getaddrinfo takes node, service and hints and returns an error code or the first result, if any, with
  its length; getnameinfo takes an address and its size and returns an error code or host and service.
\<close>

record addrinfo =
  ai_flags :: int
  ai_family :: "16 word"

record resolver =
  getaddrinfo :: "string \<Rightarrow> string \<Rightarrow> addrinfo \<Rightarrow> int + (bytes \<times> nat) option"
  getnameinfo :: "bytes \<Rightarrow> nat \<Rightarrow> int + string \<times> string"

definition AI_NUMERICHOST :: int where
  "AI_NUMERICHOST = 0x4"

definition AI_ALL :: int where
  "AI_ALL = 0x10"

definition AI_NUMERICSERV :: int where
  "AI_NUMERICSERV = 0x400"

definition make_hints :: "int \<Rightarrow> 16 word \<Rightarrow> addrinfo" where
  "make_hints flags family = \<lparr>ai_flags = flags, ai_family = family\<rparr>"

definition Address_resolve :: "resolver \<Rightarrow> string \<Rightarrow> string \<Rightarrow> addrinfo \<Rightarrow> Address result" where
  "Address_resolve rs node service hints =
     (case getaddrinfo rs node service hints of
        Inl gai_ret \<Rightarrow> Inl (SystemError gai_ret)
      | Inr None \<Rightarrow> Inl RuntimeError
      | Inr (Some (addr, addrlen)) \<Rightarrow> Address_of_sockaddr addr addrlen)"

definition Address_of_hostname :: "resolver \<Rightarrow> string \<Rightarrow> string \<Rightarrow> Address result" where
  "Address_of_hostname rs hostname service = Address_resolve rs hostname service (make_hints AI_ALL AF_INET)"

definition Address_of_ip :: "resolver \<Rightarrow> string \<Rightarrow> 16 word \<Rightarrow> Address result" where
  "Address_of_ip rs ip port =
     Address_resolve rs ip (dec_string (unat port)) (make_hints (AI_NUMERICHOST OR AI_NUMERICSERV) AF_INET)"

definition ip_port :: "resolver \<Rightarrow> Address \<Rightarrow> (string \<times> 16 word) result" where
  "ip_port rs a =
     (case getnameinfo rs (ad_storage a) (ad_size a) of
        Inl gni_ret \<Rightarrow> Inl (SystemError gni_ret)
      | Inr (ip, port) \<Rightarrow> result_bind (stoi port) (\<lambda>p. Inr (ip, word_of_nat p)))"

definition Address_ip :: "resolver \<Rightarrow> Address \<Rightarrow> string result" where
  "Address_ip rs a = result_bind (ip_port rs a) (\<lambda>(ip, _). Inr ip)"

definition Address_port :: "resolver \<Rightarrow> Address \<Rightarrow> 16 word result" where
  "Address_port rs a = result_bind (ip_port rs a) (\<lambda>(_, port). Inr port)"

definition Address_to_string :: "resolver \<Rightarrow> Address \<Rightarrow> string result" where
  "Address_to_string rs a = result_bind (ip_port rs a) (\<lambda>(ip, port). Inr (ip @ '':'' @ dec_string (unat port)))"

definition ipv4_numeric :: "Address \<Rightarrow> 32 word result" where
  "ipv4_numeric a =
     (if ss_family (ad_storage a) \<noteq> AF_INET \<or> ad_size a \<noteq> sizeof_sockaddr_in then Inl RuntimeError
      else Inr (be_word (take 4 (drop 4 (ad_storage a)))))"

definition from_ipv4_numeric :: "32 word \<Rightarrow> Address result" where
  "from_ipv4_numeric ip = Address_of_sockaddr (sockaddr_in ip 0) sizeof_sockaddr_in"

definition Address_eq :: "Address \<Rightarrow> Address \<Rightarrow> bool" where
  "Address_eq a b \<longleftrightarrow>
     (if ad_size a \<noteq> ad_size b then False else take (ad_size a) (ad_storage a) = take (ad_size a) (ad_storage b))"

section \<open>IPv4 addresses\<close>

text \<open>The address every constructor makes of an IPv4 address and a port.\<close>

definition ipv4_address :: "32 word \<Rightarrow> 16 word \<Rightarrow> Address" where
  "ipv4_address ip port = \<lparr>ad_size = 16, ad_storage = sockaddr_in ip port @ replicate 112 0\<rparr>"

lemmas sockaddr_sizes = sizeof_sockaddr_storage_def sizeof_sockaddr_in_def

lemma length_sockaddr_in [simp]: "length (sockaddr_in ip port) = 16"
  by (simp add: sockaddr_in_def)

lemma Address_of_sockaddr_in: "Address_of_sockaddr (sockaddr_in ip port) 16 = Inr (ipv4_address ip port)"
  by (simp add: Address_of_sockaddr_def ipv4_address_def sockaddr_sizes)

lemma from_ipv4_numeric_eq [simp]: "from_ipv4_numeric ip = Inr (ipv4_address ip 0)"
  by (simp add: from_ipv4_numeric_def Address_of_sockaddr_in sizeof_sockaddr_in_def)

lemma ipv4_address_parts:
  "ss_family (ad_storage (ipv4_address ip port)) = AF_INET"
  "take 4 (drop 4 (ad_storage (ipv4_address ip port))) = be_bytes ip"
  "take 2 (drop 2 (ad_storage (ipv4_address ip port))) = be_bytes port"
  by (simp_all add: ss_family_def ipv4_address_def sockaddr_in_def be_bytes_simps be_word_simps AF_INET_def)

lemma ipv4_numeric_ipv4_address [simp]: "ipv4_numeric (ipv4_address ip port) = Inr ip"
  by (simp add: ipv4_numeric_def ipv4_address_parts be_word_be_bytes) (simp add: ipv4_address_def sockaddr_sizes)

section \<open>What the code relies on of the resolver\<close>

abbreviation numeric_hints :: addrinfo where
  "numeric_hints \<equiv> make_hints (AI_NUMERICHOST OR AI_NUMERICSERV) AF_INET"

definition numeric_resolver :: "resolver \<Rightarrow> bool" where
  "numeric_resolver rs \<longleftrightarrow>
     (\<forall>ip port. getaddrinfo rs (inet_ntoa ip) (dec_string (unat port)) numeric_hints = Inr (Some (sockaddr_in ip port, 16))) \<and>
     (\<forall>ip port. getnameinfo rs (ad_storage (ipv4_address ip port)) 16 = Inr (inet_ntoa ip, dec_string (unat (port :: 16 word))))"

lemma Address_of_ip_numeric:
  "numeric_resolver rs \<Longrightarrow> Address_of_ip rs (inet_ntoa ip) port = Inr (ipv4_address ip port)"
  by (simp add: numeric_resolver_def Address_of_ip_def Address_resolve_def Address_of_sockaddr_in)

lemma ip_port_numeric:
  "numeric_resolver rs \<Longrightarrow> ip_port rs (ipv4_address ip port) = Inr (inet_ntoa ip, port)"
  unfolding numeric_resolver_def ip_port_def
  by (simp add: ipv4_address_def)

lemma Address_port_numeric [simp]:
  "numeric_resolver rs \<Longrightarrow> Address_port rs (ipv4_address ip port) = Inr port"
  by (simp add: Address_port_def ip_port_numeric)

text \<open>A resolver of numeric addresses: four decimal numbers separated by dots.\<close>

fun split_dots :: "string \<Rightarrow> string list" where
  "split_dots [] = [[]]"
| "split_dots (c # s) =
     (if c = CHR ''.'' then [] # split_dots s
      else case split_dots s of [] \<Rightarrow> [[c]] | p # ps \<Rightarrow> (c # p) # ps)"

definition dotted_address :: "string \<Rightarrow> 32 word option" where
  "dotted_address s =
     (case split_dots s of
        [a, b, c, d] \<Rightarrow> Some (be_word (map (\<lambda>p. word_of_nat (digits_value p)) [a, b, c, d]))
      | _ \<Rightarrow> None)"

definition dotted_resolver :: resolver where
  "dotted_resolver =
     \<lparr>getaddrinfo = (\<lambda>node service hints.
        case dotted_address node of
          None \<Rightarrow> Inl (-2)
        | Some ip \<Rightarrow> Inr (Some (sockaddr_in ip (word_of_nat (digits_value service)), 16))),
      getnameinfo = (\<lambda>st n.
        if ss_family st = AF_INET \<and> n = 16
        then Inr (inet_ntoa (be_word (take 4 (drop 4 st))), dec_string (unat (be_word (take 2 (drop 2 st)) :: 16 word)))
        else Inl (-6))\<rparr>"

lemma split_dots_digits: "list_all is_digit s \<Longrightarrow> split_dots s = [s]"
  by (induction s) (auto simp: is_digit_def)

lemma split_dots_append: "list_all is_digit s \<Longrightarrow> split_dots (s @ CHR ''.'' # t) = s # split_dots t"
  by (induction s) (auto simp: is_digit_def)

lemma dotted_address_inet_ntoa: "dotted_address (inet_ntoa ip) = Some ip"
proof -
  have "split_dots (inet_ntoa ip) =
      [dec_string (unat (drop_bit 24 ip)), dec_string (unat (drop_bit 16 ip AND 0xff)),
       dec_string (unat (drop_bit 8 ip AND 0xff)), dec_string (unat (ip AND 0xff))]"
    by (simp add: inet_ntoa_def split_dots_append split_dots_digits dec_string_digits)
  then show ?thesis using be_word_be_bytes(3) [of ip]
    by (simp add: dotted_address_def be_bytes_simps ucast_and_255 flip: word_unat_eq_iff)
qed

lemma numeric_dotted_resolver: "numeric_resolver dotted_resolver"
  unfolding numeric_resolver_def dotted_resolver_def
  by (simp add: dotted_address_inet_ntoa ipv4_address_parts be_word_be_bytes)

section \<open>Properties\<close>

text \<open>
  Addresses round trip through their textual form: an address made of the dotted form of an IPv4
  address and a port gives that number and that port back, and prints as dotted form, colon, port.
\<close>

lemma address_text_roundtrip:
  assumes "numeric_resolver rs"
  shows "\<exists>a. Address_of_ip rs (inet_ntoa ip) port = Inr a \<and> ipv4_numeric a = Inr ip \<and> Address_port rs a = Inr port \<and>
    Address_to_string rs a = Inr (inet_ntoa ip @ '':'' @ dec_string (unat port))"
  using assms by (simp add: Address_of_ip_numeric Address_to_string_def ip_port_numeric)

lemma address_text_roundtrip_witness:
  "\<exists>a. Address_of_ip dotted_resolver (inet_ntoa 0x0a000001) 80 = Inr a \<and> ipv4_numeric a = Inr 0x0a000001 \<and>
    Address_port dotted_resolver a = Inr 80 \<and>
    Address_to_string dotted_resolver a = Inr (inet_ntoa 0x0a000001 @ '':'' @ dec_string (unat (80 :: 16 word)))"
  by (rule address_text_roundtrip [OF numeric_dotted_resolver])

end
