(* ===== verification/Network_Interface.thy ===== *)
theory Network_Interface
  imports Addresses IPv4 Link_Layer
begin

text \<open>
  libsponge/network\_interface.hh and network\_interface.cc: the interface between IP and Ethernet, with
  its ARP cache, the datagrams that wait for a resolution and the outgoing frames. The unordered maps
  are HOL maps, the queues lists. Messages on cerr are left out, except that \<open>Address::ip\<close>, which the
  constructor evaluates for its message, can throw.
\<close>

section \<open>State\<close>

definition cache_ttl_ms :: size_t where
  "cache_ttl_ms = 30 * 1000"

definition broadcast_interval_ms :: size_t where
  "broadcast_interval_ms = 5 * 1000"

record NetworkInterface =
  ni_ethernet_address :: EthernetAddress
  ni_ip_address :: Address
  ni_frames_out :: "EthernetFrame list"
  ni_clock :: size_t
  ni_arp_table :: "32 word \<rightharpoonup> EthernetAddress \<times> size_t"
  ni_last_broadcast_time :: "32 word \<rightharpoonup> size_t"
  ni_dgram_pending :: "(IPv4Datagram \<times> Address) list"

definition NetworkInterface_init :: "EthernetAddress \<Rightarrow> Address \<Rightarrow> NetworkInterface" where
  "NetworkInterface_init ethernet_address ip_address =
     \<lparr>ni_ethernet_address = ethernet_address, ni_ip_address = ip_address, ni_frames_out = [], ni_clock = 0,
      ni_arp_table = Map.empty, ni_last_broadcast_time = Map.empty, ni_dgram_pending = []\<rparr>"

definition NetworkInterface_new :: "resolver \<Rightarrow> EthernetAddress \<Rightarrow> Address \<Rightarrow> NetworkInterface result" where
  "NetworkInterface_new rs ethernet_address ip_address =
     result_bind (Address_ip rs ip_address) (\<lambda>_. Inr (NetworkInterface_init ethernet_address ip_address))"

section \<open>Sending\<close>

definition push_frame :: "EthernetFrame \<Rightarrow> NetworkInterface \<Rightarrow> NetworkInterface" where
  "push_frame f ni = ni\<lparr>ni_frames_out := ni_frames_out ni @ [f]\<rparr>"

text \<open>The part of \<open>send_datagram\<close> that queues the datagram and asks for the address of the next hop.\<close>

definition queue_and_request :: "IPv4Datagram \<Rightarrow> Address \<Rightarrow> 32 word \<Rightarrow> NetworkInterface \<Rightarrow> NetworkInterface result" where
  "queue_and_request dgram next_hop next_hop_ip ni =
     (let ni = ni\<lparr>ni_dgram_pending := ni_dgram_pending ni @ [(dgram, next_hop)]\<rparr> in
      if (case ni_last_broadcast_time ni next_hop_ip of
            None \<Rightarrow> False
          | Some t \<Rightarrow> sub64 (ni_clock ni) t < broadcast_interval_ms)
      then Inr ni
      else
        let ni = ni\<lparr>ni_last_broadcast_time := (ni_last_broadcast_time ni)(next_hop_ip \<mapsto> ni_clock ni)\<rparr> in
        result_bind (ipv4_numeric (ni_ip_address ni)) (\<lambda>my_ip.
        let arp_req = ARPMessage_default\<lparr>am_opcode := OPCODE_REQUEST,
              am_sender_ethernet_address := ni_ethernet_address ni,
              am_sender_ip_address := my_ip, am_target_ip_address := next_hop_ip\<rparr>
        in result_bind (ARPMessage_serialize arp_req) (\<lambda>payload.
           Inr (push_frame
             \<lparr>ef_header = \<lparr>eh_dst = ETHERNET_BROADCAST, eh_src = ni_ethernet_address ni, eh_type = TYPE_ARP\<rparr>,
              ef_payload = BufferList_of_string payload\<rparr> ni))))"

definition send_datagram :: "IPv4Datagram \<Rightarrow> Address \<Rightarrow> NetworkInterface \<Rightarrow> NetworkInterface result" where
  "send_datagram dgram next_hop ni =
     result_bind (ipv4_numeric next_hop) (\<lambda>next_hop_ip.
       case ni_arp_table ni next_hop_ip of
         Some (hw_address, time_expired) \<Rightarrow>
           if ni_clock ni < time_expired then
             result_bind (IPv4Datagram_serialize dgram) (\<lambda>payload.
               Inr (push_frame
                 \<lparr>ef_header = \<lparr>eh_dst = hw_address, eh_src = ni_ethernet_address ni, eh_type = TYPE_IPv4\<rparr>,
                  ef_payload = payload\<rparr> ni))
           else queue_and_request dgram next_hop next_hop_ip ni
       | None \<Rightarrow> queue_and_request dgram next_hop next_hop_ip ni)"

section \<open>Receiving\<close>

definition pop_pending :: "NetworkInterface \<Rightarrow> NetworkInterface" where
  "pop_pending ni = ni\<lparr>ni_dgram_pending := tl (ni_dgram_pending ni)\<rparr>"

text \<open>The loop that polls the queued datagrams stops when the one at the head is queued again.\<close>

function poll_pending :: "NetworkInterface \<Rightarrow> NetworkInterface result" where
  "poll_pending ni =
     (case ni_dgram_pending ni of
        [] \<Rightarrow> Inr ni
      | (dgram, next_hop) # _ \<Rightarrow>
          (case send_datagram dgram next_hop ni of
             Inl e \<Rightarrow> Inl e
           | Inr ni' \<Rightarrow>
               if length (ni_dgram_pending ni) < length (ni_dgram_pending ni')
               then Inr (pop_pending ni')
               else poll_pending (pop_pending ni')))"
  by auto
termination poll_pending
  by (relation "measure (\<lambda>ni. length (ni_dgram_pending ni))") (auto simp: pop_pending_def)

declare poll_pending.simps [simp del]

text \<open>What an ARP message that was parsed without error does.\<close>

definition learn_and_reply :: "ARPMessage \<Rightarrow> NetworkInterface \<Rightarrow> NetworkInterface result" where
  "learn_and_reply arp_msg ni =
     (let sender_ip = am_sender_ip_address arp_msg;
          sender_ethernet = am_sender_ethernet_address arp_msg;
          ni = ni\<lparr>ni_arp_table := (ni_arp_table ni)(sender_ip \<mapsto> (sender_ethernet, add64 (ni_clock ni) cache_ttl_ms))\<rparr>
      in result_bind (ipv4_numeric (ni_ip_address ni)) (\<lambda>my_ip.
         if am_target_ip_address arp_msg = my_ip \<and> am_opcode arp_msg = OPCODE_REQUEST then
           let arp_msg = arp_msg\<lparr>am_opcode := OPCODE_REPLY, am_sender_ethernet_address := ni_ethernet_address ni,
                 am_sender_ip_address := my_ip, am_target_ethernet_address := sender_ethernet,
                 am_target_ip_address := sender_ip\<rparr>
           in result_bind (ARPMessage_serialize arp_msg) (\<lambda>payload.
              Inr (push_frame
                \<lparr>ef_header = \<lparr>eh_dst = sender_ethernet, eh_src = ni_ethernet_address ni, eh_type = TYPE_ARP\<rparr>,
                 ef_payload = BufferList_of_string payload\<rparr> ni))
         else Inr ni))"

definition recv_frame :: "EthernetFrame \<Rightarrow> NetworkInterface \<Rightarrow> (IPv4Datagram option \<times> NetworkInterface) result" where
  "recv_frame frame ni =
     (let dst = eh_dst (ef_header frame) in
      if dst \<noteq> ni_ethernet_address ni \<and> dst \<noteq> ETHERNET_BROADCAST then Inr (None, ni)
      else if eh_type (ef_header frame) = TYPE_IPv4 then
        result_bind (BufferList_to_Buffer (ef_payload frame)) (\<lambda>b.
        result_bind (IPv4Datagram_parse IPv4Datagram_default b) (\<lambda>(res, dgram).
          Inr (if res = NoError then Some dgram else None, ni)))
      else if eh_type (ef_header frame) = TYPE_ARP then
        result_bind (BufferList_to_Buffer (ef_payload frame)) (\<lambda>b.
        result_bind (ARPMessage_parse ARPMessage_default b) (\<lambda>(res, arp_msg).
        result_bind (if res = NoError then learn_and_reply arp_msg ni else Inr ni) (\<lambda>ni.
        result_bind (poll_pending ni) (\<lambda>ni. Inr (None, ni)))))
      else Inr (None, ni))"

section \<open>Time\<close>

definition ni_tick :: "size_t \<Rightarrow> NetworkInterface \<Rightarrow> NetworkInterface" where
  "ni_tick ms ni =
     (let clock = add64 (ni_clock ni) ms in
      ni\<lparr>ni_clock := clock,
         ni_arp_table := (\<lambda>ip. case ni_arp_table ni ip of
             None \<Rightarrow> None
           | Some (hw_address, time_expired) \<Rightarrow> if time_expired \<le> clock then None else Some (hw_address, time_expired))\<rparr>)"

end
