(* ===== verification/Interface_Contract.thy ===== *)
theory Interface_Contract
  imports Network_Interface "HOL-Library.Multiset"
begin

text \<open>
  What a network interface guarantees over any sequence of calls. The locale \<open>interface_invariant\<close>
  lists what has to be shown of one call (and of one pass of the polling loop) for a property of
  history and state to hold after every run; its interpretations are the conservation of datagrams,
  the use of learned addresses and the rate limit of ARP requests.
\<close>

section \<open>Runs\<close>

datatype ni_op = SendDgram IPv4Datagram Address | RecvFrame EthernetFrame | TickNI size_t

fun ni_exec :: "ni_op \<Rightarrow> NetworkInterface \<Rightarrow> NetworkInterface result" where
  "ni_exec (SendDgram dgram next_hop) ni = send_datagram dgram next_hop ni"
| "ni_exec (RecvFrame frame) ni = result_bind (recv_frame frame ni) (\<lambda>(_, ni). Inr ni)"
| "ni_exec (TickNI ms) ni = Inr (ni_tick ms ni)"

fun ni_run :: "ni_op list \<Rightarrow> NetworkInterface \<Rightarrow> NetworkInterface result" where
  "ni_run [] ni = Inr ni"
| "ni_run (op # ops) ni = (case ni_exec op ni of Inl e \<Rightarrow> Inl e | Inr ni' \<Rightarrow> ni_run ops ni')"

text \<open>\<open>hears ni frame m\<close>: the frame is for the interface and carries the ARP message \<open>m\<close>.\<close>

definition hears :: "EthernetAddress \<Rightarrow> EthernetFrame \<Rightarrow> ARPMessage \<Rightarrow> bool" where
  "hears own frame m \<longleftrightarrow>
     (eh_dst (ef_header frame) = own \<or> eh_dst (ef_header frame) = ETHERNET_BROADCAST) \<and>
     eh_type (ef_header frame) = TYPE_ARP \<and>
     (\<exists>b. BufferList_to_Buffer (ef_payload frame) = Inr b \<and> ARPMessage_parse ARPMessage_default b = Inr (NoError, m))"

lemma TYPE_ARP_not_IPv4 [simp]: "TYPE_ARP \<noteq> TYPE_IPv4" "TYPE_IPv4 \<noteq> TYPE_ARP"
  by (simp_all add: TYPE_ARP_def TYPE_IPv4_def)

text \<open>The outcomes of \<open>recv_frame\<close>: nothing changes, or the pending datagrams are polled after a
  message was learned from or not.\<close>

lemma recv_frame_cases:
  assumes "recv_frame frame ni = Inr (d, ni')"
  obtains (same) "ni' = ni"
  | (poll) "poll_pending ni = Inr ni'"
  | (learn) m ni1 where "hears (ni_ethernet_address ni) frame m" "learn_and_reply m ni = Inr ni1" "poll_pending ni1 = Inr ni'"
proof -
  consider "ni' = ni" | b res m where "eh_type (ef_header frame) = TYPE_ARP"
    "eh_dst (ef_header frame) = ni_ethernet_address ni \<or> eh_dst (ef_header frame) = ETHERNET_BROADCAST"
    "BufferList_to_Buffer (ef_payload frame) = Inr b" "ARPMessage_parse ARPMessage_default b = Inr (res, m)"
    "result_bind (if res = NoError then learn_and_reply m ni else Inr ni) (\<lambda>ni.
        result_bind (poll_pending ni) (\<lambda>ni. Inr (None, ni))) = Inr (d, ni')"
    using assms by (auto simp: recv_frame_def Let_def result_bind_Inr_iff split: if_splits)
  then show ?thesis
  proof cases
    case (2 b res m)
    then show ?thesis
      by (cases "res = NoError") (auto simp: result_bind_Inr_iff hears_def intro: poll learn)
  qed (rule same)
qed

section \<open>Properties of history and state\<close>

locale interface_invariant =
  fixes inv :: "ni_op list \<Rightarrow> NetworkInterface \<Rightarrow> bool"
  assumes submit: "\<lbrakk>inv h ni; send_datagram d nh ni = Inr ni'\<rbrakk> \<Longrightarrow> inv (h @ [SendDgram d nh]) ni'"
    and resend: "\<lbrakk>inv h ni; ni_dgram_pending ni = (d, nh) # rest; send_datagram d nh ni = Inr ni'\<rbrakk> \<Longrightarrow> inv h (pop_pending ni')"
    and heard: "\<lbrakk>inv h ni; hears (ni_ethernet_address ni) f m; learn_and_reply m ni = Inr ni'\<rbrakk> \<Longrightarrow> inv (h @ [RecvFrame f]) ni'"
    and ignored: "inv h ni \<Longrightarrow> inv (h @ [RecvFrame f]) ni"
    and ticked: "inv h ni \<Longrightarrow> inv (h @ [TickNI ms]) (ni_tick ms ni)"
begin

lemma polled: "\<lbrakk>inv h ni; poll_pending ni = Inr ni'\<rbrakk> \<Longrightarrow> inv h ni'"
proof (induction ni rule: poll_pending.induct)
  case (1 ni)
  show ?case
  proof (cases "ni_dgram_pending ni")
    case Nil
    with "1.prems" show ?thesis by (simp add: poll_pending.simps [of ni])
  next
    case (Cons x rest)
    obtain d nh where x: "x = (d, nh)" by (cases x)
    note loop = "1.prems"(2) [unfolded poll_pending.simps [of ni] Cons x list.case prod.case]
    from loop obtain ni1 where ni1: "send_datagram d nh ni = Inr ni1"
      by (cases "send_datagram d nh ni") simp_all
    have inv: "inv h (pop_pending ni1)" using resend [OF "1.prems"(1)] Cons x ni1 by simp
    show ?thesis
    proof (cases "length (ni_dgram_pending ni) < length (ni_dgram_pending ni1)")
      case True
      with loop Cons x ni1 inv show ?thesis by simp
    next
      case False
      from loop ni1 have "poll_pending (pop_pending ni1) = Inr ni'" using False Cons x by simp
      then show ?thesis by (rule "1.IH" [OF Cons x [symmetric] ni1 False inv])
    qed
  qed
qed

lemma exec: "\<lbrakk>inv h ni; ni_exec op ni = Inr ni'\<rbrakk> \<Longrightarrow> inv (h @ [op]) ni'"
proof (cases op)
  case (RecvFrame frame)
  assume inv: "inv h ni" and "ni_exec op ni = Inr ni'"
  with RecvFrame obtain d where "recv_frame frame ni = Inr (d, ni')" by (auto simp: result_bind_Inr_iff)
  then show ?thesis
  proof (cases rule: recv_frame_cases)
    case same
    with inv RecvFrame show ?thesis by (simp add: ignored)
  next
    case poll
    with inv RecvFrame show ?thesis using polled [OF ignored] by simp
  next
    case (learn m ni1)
    with inv RecvFrame show ?thesis using polled [OF heard] by blast
  qed
qed (auto intro: submit ticked)

lemma run: "\<lbrakk>inv h ni; ni_run ops ni = Inr ni'\<rbrakk> \<Longrightarrow> inv (h @ ops) ni'"
proof (induction ops arbitrary: h ni)
  case (Cons op ops)
  then obtain ni1 where "ni_exec op ni = Inr ni1" "ni_run ops ni1 = Inr ni'" by (auto split: sum.splits)
  with Cons.IH [of "h @ [op]" ni1] exec [OF Cons.prems(1)] show ?case by simp
qed simp

end

section \<open>The outcomes of sending and learning\<close>

definition ipv4_frame :: "EthernetAddress \<Rightarrow> EthernetAddress \<Rightarrow> BufferList \<Rightarrow> EthernetFrame" where
  "ipv4_frame own hw payload =
     \<lparr>ef_header = \<lparr>eh_dst = hw, eh_src = own, eh_type = TYPE_IPv4\<rparr>, ef_payload = payload\<rparr>"

definition arp_request :: "EthernetAddress \<Rightarrow> 32 word \<Rightarrow> 32 word \<Rightarrow> ARPMessage" where
  "arp_request own my_ip ip =
     ARPMessage_default\<lparr>am_opcode := OPCODE_REQUEST, am_sender_ethernet_address := own,
       am_sender_ip_address := my_ip, am_target_ip_address := ip\<rparr>"

definition request_frame :: "EthernetAddress \<Rightarrow> 32 word \<Rightarrow> 32 word \<Rightarrow> EthernetFrame" where
  "request_frame own my_ip ip =
     \<lparr>ef_header = \<lparr>eh_dst = ETHERNET_BROADCAST, eh_src = own, eh_type = TYPE_ARP\<rparr>,
      ef_payload = BufferList_of_string (ARPMessage_bytes (arp_request own my_ip ip))\<rparr>"

definition arp_reply :: "EthernetAddress \<Rightarrow> 32 word \<Rightarrow> ARPMessage \<Rightarrow> ARPMessage" where
  "arp_reply own my_ip m =
     m\<lparr>am_opcode := OPCODE_REPLY, am_sender_ethernet_address := own, am_sender_ip_address := my_ip,
       am_target_ethernet_address := am_sender_ethernet_address m, am_target_ip_address := am_sender_ip_address m\<rparr>"

definition reply_frame :: "EthernetAddress \<Rightarrow> 32 word \<Rightarrow> ARPMessage \<Rightarrow> EthernetFrame" where
  "reply_frame own my_ip m =
     \<lparr>ef_header = \<lparr>eh_dst = am_sender_ethernet_address m, eh_src = own, eh_type = TYPE_ARP\<rparr>,
      ef_payload = BufferList_of_string (ARPMessage_bytes (arp_reply own my_ip m))\<rparr>"

lemmas frame_defs = ipv4_frame_def request_frame_def reply_frame_def

text \<open>An address is resolved when the cache has an entry that has not expired; a request for it is
  recent when less than the broadcast interval has passed.\<close>

definition resolved :: "NetworkInterface \<Rightarrow> 32 word \<Rightarrow> EthernetAddress option" where
  "resolved ni ip =
     (case ni_arp_table ni ip of None \<Rightarrow> None | Some (hw, t) \<Rightarrow> if ni_clock ni < t then Some hw else None)"

definition asked_recently :: "NetworkInterface \<Rightarrow> 32 word \<Rightarrow> bool" where
  "asked_recently ni ip =
     (case ni_last_broadcast_time ni ip of None \<Rightarrow> False | Some t \<Rightarrow> sub64 (ni_clock ni) t < broadcast_interval_ms)"

abbreviation enqueue :: "IPv4Datagram \<Rightarrow> Address \<Rightarrow> NetworkInterface \<Rightarrow> NetworkInterface" where
  "enqueue d nh ni \<equiv> ni\<lparr>ni_dgram_pending := ni_dgram_pending ni @ [(d, nh)]\<rparr>"

abbreviation note_request :: "32 word \<Rightarrow> NetworkInterface \<Rightarrow> NetworkInterface" where
  "note_request ip ni \<equiv> ni\<lparr>ni_last_broadcast_time := (ni_last_broadcast_time ni)(ip \<mapsto> ni_clock ni)\<rparr>"

lemma supported_request: "supported (arp_request own my_ip ip)"
  by (simp add: supported_def arp_request_def ARPMessage_default_def)

lemma queue_and_request_eq:
  "queue_and_request d nh ip ni =
     (if asked_recently ni ip then Inr (enqueue d nh ni)
      else result_bind (ipv4_numeric (ni_ip_address ni)) (\<lambda>my_ip.
        Inr (push_frame (request_frame (ni_ethernet_address ni) my_ip ip) (note_request ip (enqueue d nh ni)))))"
  using ARPMessage_serialize_eq [OF supported_request]
  by (simp add: queue_and_request_def asked_recently_def arp_request_def request_frame_def Let_def cong: option.case_cong)

lemma send_datagram_eq:
  assumes "ipv4_numeric nh = Inr ip"
  shows "send_datagram d nh ni =
    (case resolved ni ip of
       Some hw \<Rightarrow> result_bind (IPv4Datagram_serialize d) (\<lambda>payload.
         Inr (push_frame (ipv4_frame (ni_ethernet_address ni) hw payload) ni))
     | None \<Rightarrow> queue_and_request d nh ip ni)"
  using assms by (simp add: send_datagram_def resolved_def ipv4_frame_def split: option.splits)

lemma send_datagram_cases:
  assumes "send_datagram d nh ni = Inr ni'"
  obtains (sent) ip hw payload where "ipv4_numeric nh = Inr ip" "resolved ni ip = Some hw"
      "IPv4Datagram_serialize d = Inr payload" "ni' = push_frame (ipv4_frame (ni_ethernet_address ni) hw payload) ni"
  | (queued) ip where "ipv4_numeric nh = Inr ip" "resolved ni ip = None" "asked_recently ni ip" "ni' = enqueue d nh ni"
  | (requested) ip my_ip where "ipv4_numeric nh = Inr ip" "resolved ni ip = None" "\<not> asked_recently ni ip"
      "ipv4_numeric (ni_ip_address ni) = Inr my_ip"
      "ni' = push_frame (request_frame (ni_ethernet_address ni) my_ip ip) (note_request ip (enqueue d nh ni))"
proof -
  from assms obtain ip where ip: "ipv4_numeric nh = Inr ip" by (auto simp: send_datagram_def result_bind_Inr_iff)
  show ?thesis
  proof (cases "resolved ni ip")
    case None
    with assms ip show ?thesis
      by (auto simp: send_datagram_eq [OF ip] queue_and_request_eq result_bind_Inr_iff intro: queued requested split: if_splits)
  next
    case (Some hw)
    with assms ip show ?thesis by (auto simp: send_datagram_eq [OF ip] result_bind_Inr_iff intro: sent)
  qed
qed

lemma learn_and_reply_cases:
  assumes "learn_and_reply m ni = Inr ni'" and "supported m"
  obtains (quiet) "ni' = ni\<lparr>ni_arp_table := (ni_arp_table ni)
      (am_sender_ip_address m \<mapsto> (am_sender_ethernet_address m, add64 (ni_clock ni) cache_ttl_ms))\<rparr>"
  | (reply) my_ip where "ipv4_numeric (ni_ip_address ni) = Inr my_ip" "am_target_ip_address m = my_ip"
      "am_opcode m = OPCODE_REQUEST"
      "ni' = push_frame (reply_frame (ni_ethernet_address ni) my_ip m) (ni\<lparr>ni_arp_table := (ni_arp_table ni)
      (am_sender_ip_address m \<mapsto> (am_sender_ethernet_address m, add64 (ni_clock ni) cache_ttl_ms))\<rparr>)"
proof -
  have "supported (arp_reply own my_ip m)" for own my_ip
    using assms(2) by (simp add: supported_def arp_reply_def)
  from ARPMessage_serialize_eq [OF this] assms(1) show ?thesis
    by (auto simp: learn_and_reply_def Let_def result_bind_Inr_iff arp_reply_def reply_frame_def
        intro: quiet reply split: if_splits)
qed

lemma hears_supported: "hears own f m \<Longrightarrow> supported m"
  by (auto simp: hears_def ARPMessage_parse_def ARPMessage_read_def pbind_def preturn_def result_bind_Inr_iff Let_def
      supported_def split: if_splits)

lemma push_frame_sel [simp]:
  "ni_frames_out (push_frame f ni) = ni_frames_out ni @ [f]"
  "ni_dgram_pending (push_frame f ni) = ni_dgram_pending ni" "ni_clock (push_frame f ni) = ni_clock ni"
  "ni_arp_table (push_frame f ni) = ni_arp_table ni" "ni_last_broadcast_time (push_frame f ni) = ni_last_broadcast_time ni"
  "ni_ethernet_address (push_frame f ni) = ni_ethernet_address ni" "ni_ip_address (push_frame f ni) = ni_ip_address ni"
  by (simp_all add: push_frame_def)

lemma pop_pending_sel [simp]:
  "ni_frames_out (pop_pending ni) = ni_frames_out ni"
  "ni_dgram_pending (pop_pending ni) = tl (ni_dgram_pending ni)" "ni_clock (pop_pending ni) = ni_clock ni"
  "ni_arp_table (pop_pending ni) = ni_arp_table ni" "ni_last_broadcast_time (pop_pending ni) = ni_last_broadcast_time ni"
  "ni_ethernet_address (pop_pending ni) = ni_ethernet_address ni" "ni_ip_address (pop_pending ni) = ni_ip_address ni"
  by (simp_all add: pop_pending_def)

lemma ni_tick_sel [simp]:
  "ni_frames_out (ni_tick ms ni) = ni_frames_out ni" "ni_dgram_pending (ni_tick ms ni) = ni_dgram_pending ni"
  "ni_clock (ni_tick ms ni) = add64 (ni_clock ni) ms"
  "ni_last_broadcast_time (ni_tick ms ni) = ni_last_broadcast_time ni"
  "ni_ethernet_address (ni_tick ms ni) = ni_ethernet_address ni" "ni_ip_address (ni_tick ms ni) = ni_ip_address ni"
  by (simp_all add: ni_tick_def Let_def)

section \<open>Datagrams are conserved\<close>

definition carries_ipv4 :: "EthernetFrame \<Rightarrow> bool" where
  "carries_ipv4 f \<longleftrightarrow> eh_type (ef_header f) = TYPE_IPv4"

lemma carries_ipv4_frames [simp]:
  "carries_ipv4 (ipv4_frame own hw payload)" "\<not> carries_ipv4 (request_frame own my_ip ip)"
  "\<not> carries_ipv4 (reply_frame own my_ip m)"
  by (simp_all add: carries_ipv4_def frame_defs)

lemma ipv4_frame_sel [simp]:
  "ef_payload (ipv4_frame own hw payload) = payload" "eh_dst (ef_header (ipv4_frame own hw payload)) = hw"
  "eh_src (ef_header (ipv4_frame own hw payload)) = own"
  by (simp_all add: ipv4_frame_def)

text \<open>The serialized datagrams in outgoing frames and in the queue, and those that were submitted.\<close>

definition in_interface :: "NetworkInterface \<Rightarrow> BufferList result multiset" where
  "in_interface ni =
     mset (map (Inr \<circ> ef_payload) (filter carries_ipv4 (ni_frames_out ni))) +
     mset (map (IPv4Datagram_serialize \<circ> fst) (ni_dgram_pending ni))"

fun submitted :: "ni_op list \<Rightarrow> (IPv4Datagram \<times> Address) list" where
  "submitted [] = []"
| "submitted (SendDgram d nh # ops) = (d, nh) # submitted ops"
| "submitted (_ # ops) = submitted ops"

lemma submitted_append [simp]: "submitted (h @ h') = submitted h @ submitted h'"
  by (induction h rule: submitted.induct) simp_all

lemma send_in_interface:
  "send_datagram d nh ni = Inr ni' \<Longrightarrow> in_interface ni' = add_mset (IPv4Datagram_serialize d) (in_interface ni)"
  by (erule send_datagram_cases) (simp_all add: in_interface_def)

lemma send_pending: "send_datagram d nh ni = Inr ni' \<Longrightarrow> \<exists>xs. ni_dgram_pending ni' = ni_dgram_pending ni @ xs"
  by (erule send_datagram_cases) simp_all

definition conserved :: "ni_op list \<Rightarrow> NetworkInterface \<Rightarrow> bool" where
  "conserved h ni \<longleftrightarrow> in_interface ni = mset (map (IPv4Datagram_serialize \<circ> fst) (submitted h))"

interpretation conserved: interface_invariant conserved
proof
  fix h ni d nh rest ni'
  assume "conserved h ni" "ni_dgram_pending ni = (d, nh) # rest" and send: "send_datagram d nh ni = Inr ni'"
  moreover obtain xs where "ni_dgram_pending ni' = (d, nh) # rest @ xs"
    using send_pending [OF send] calculation by auto
  ultimately show "conserved h (pop_pending ni')"
    using send_in_interface [OF send] by (simp add: conserved_def in_interface_def)
next
  fix h ni f m ni'
  assume "conserved h ni" "hears (ni_ethernet_address ni) f m" "learn_and_reply m ni = Inr ni'"
  then show "conserved (h @ [RecvFrame f]) ni'"
    by (auto simp: conserved_def in_interface_def elim!: learn_and_reply_cases [OF _ hears_supported])
qed (auto simp: conserved_def send_in_interface, simp add: in_interface_def)

section \<open>Frames go to learned addresses\<close>

text \<open>The mappings that ARP messages heard so far claimed.\<close>

fun claimed :: "EthernetAddress \<Rightarrow> ni_op list \<Rightarrow> (32 word \<times> EthernetAddress) set" where
  "claimed own [] = {}"
| "claimed own (RecvFrame f # ops) =
     {(am_sender_ip_address m, am_sender_ethernet_address m) | m. hears own f m} \<union> claimed own ops"
| "claimed own (_ # ops) = claimed own ops"

lemma claimed_append [simp]: "claimed own (h @ h') = claimed own h \<union> claimed own h'"
  by (induction own h rule: claimed.induct) auto

definition well_addressed :: "EthernetAddress \<Rightarrow> ni_op list \<Rightarrow> EthernetFrame \<Rightarrow> bool" where
  "well_addressed own h f \<longleftrightarrow>
     (\<exists>d nh ip. (d, nh) \<in> set (submitted h) \<and> IPv4Datagram_serialize d = Inr (ef_payload f) \<and>
        ipv4_numeric nh = Inr ip \<and> (ip, eh_dst (ef_header f)) \<in> claimed own h \<and> eh_src (ef_header f) = own)"

definition addressed :: "EthernetAddress \<Rightarrow> ni_op list \<Rightarrow> NetworkInterface \<Rightarrow> bool" where
  "addressed own h ni \<longleftrightarrow>
     ni_ethernet_address ni = own \<and> set (ni_dgram_pending ni) \<subseteq> set (submitted h) \<and>
     (\<forall>ip hw t. ni_arp_table ni ip = Some (hw, t) \<longrightarrow> (ip, hw) \<in> claimed own h) \<and>
     (\<forall>f \<in> set (ni_frames_out ni). carries_ipv4 f \<longrightarrow> well_addressed own h f)"

lemma well_addressed_mono: "well_addressed own h f \<Longrightarrow> well_addressed own (h @ h') f"
  by (fastforce simp: well_addressed_def)

lemma addressed_mono: "addressed own h ni \<Longrightarrow> addressed own (h @ h') ni"
  by (fastforce simp: addressed_def intro: well_addressed_mono)

lemma send_addressed:
  assumes "addressed own h ni" and "(d, nh) \<in> set (submitted h)" and "send_datagram d nh ni = Inr ni'"
  shows "addressed own h ni'"
  using assms(3)
proof (cases rule: send_datagram_cases)
  case (sent ip hw payload)
  then obtain t where "ni_arp_table ni ip = Some (hw, t)" by (auto simp: resolved_def split: option.splits if_splits)
  with sent assms(1,2) have "well_addressed own h (ipv4_frame own hw payload)"
    unfolding well_addressed_def addressed_def by (auto 4 4)
  with sent assms(1) show ?thesis by (auto simp: addressed_def)
qed (use assms(1,2) in \<open>auto simp: addressed_def\<close>)

lemma learn_addressed:
  assumes "addressed own h ni" and "(am_sender_ip_address m, am_sender_ethernet_address m) \<in> claimed own h"
    and "learn_and_reply m ni = Inr ni'" and "supported m"
  shows "addressed own h ni'"
  using assms(3,4) by (cases rule: learn_and_reply_cases) (use assms(1,2) in \<open>auto simp: addressed_def split: if_splits\<close>)

interpretation addressed: interface_invariant "addressed own"
proof
  fix h ni d nh ni'
  assume a: "addressed own h ni" and send: "send_datagram d nh ni = Inr ni'"
  show "addressed own (h @ [SendDgram d nh]) ni'"
    by (rule send_addressed [OF addressed_mono [OF a] _ send]) simp
next
  fix h ni d nh rest ni'
  assume a: "addressed own h ni" and p: "ni_dgram_pending ni = (d, nh) # rest" and send: "send_datagram d nh ni = Inr ni'"
  from a p have "(d, nh) \<in> set (submitted h)" by (simp add: addressed_def)
  from send_addressed [OF a this send] show "addressed own h (pop_pending ni')"
    using set_mono_suffix [OF suffix_tl, of "ni_dgram_pending ni'"] by (auto simp: addressed_def)
next
  fix h ni f m ni'
  assume a: "addressed own h ni" and m: "hears (ni_ethernet_address ni) f m" and l: "learn_and_reply m ni = Inr ni'"
  have "(am_sender_ip_address m, am_sender_ethernet_address m) \<in> claimed own (h @ [RecvFrame f])"
    using a m by (auto simp: addressed_def)
  from learn_addressed [OF addressed_mono [OF a] this l hears_supported [OF m]] show "addressed own (h @ [RecvFrame f]) ni'" .
next
  fix h ni f
  assume "addressed own h ni"
  then show "addressed own (h @ [RecvFrame f]) ni" by (rule addressed_mono)
next
  fix h ni ms
  assume "addressed own h ni"
  then show "addressed own (h @ [TickNI ms]) (ni_tick ms ni)"
    using addressed_mono [of own h ni "[TickNI ms]"]
    by (auto simp: addressed_def ni_tick_def Let_def split: option.splits if_splits)
qed

section \<open>ARP requests are rate limited\<close>

fun elapsed :: "ni_op list \<Rightarrow> nat" where
  "elapsed [] = 0"
| "elapsed (TickNI ms # ops) = ms + elapsed ops"
| "elapsed (_ # ops) = elapsed ops"

lemma elapsed_append [simp]: "elapsed (h @ h') = elapsed h + elapsed h'"
  by (induction h rule: elapsed.induct) simp_all

text \<open>The number of requests for an address that were ever sent, none of the frames being removed.\<close>

definition requests :: "EthernetAddress \<Rightarrow> 32 word \<Rightarrow> 32 word \<Rightarrow> NetworkInterface \<Rightarrow> nat" where
  "requests own my_ip ip ni = length (filter (\<lambda>f. f = request_frame own my_ip ip) (ni_frames_out ni))"

definition limited :: "EthernetAddress \<Rightarrow> 32 word \<Rightarrow> 32 word \<Rightarrow> NetworkInterface \<Rightarrow> bool" where
  "limited own my_ip ip ni \<longleftrightarrow>
     (case ni_last_broadcast_time ni ip of
        None \<Rightarrow> requests own my_ip ip ni = 0
      | Some t \<Rightarrow> t \<le> ni_clock ni \<and> requests own my_ip ip ni \<le> t div broadcast_interval_ms + 1)"

definition rate_limited :: "EthernetAddress \<Rightarrow> 32 word \<Rightarrow> ni_op list \<Rightarrow> NetworkInterface \<Rightarrow> bool" where
  "rate_limited own my_ip h ni \<longleftrightarrow>
     ni_ethernet_address ni = own \<and> ipv4_numeric (ni_ip_address ni) = Inr my_ip \<and>
     (elapsed h < SIZE_MOD \<longrightarrow> ni_clock ni = elapsed h \<and> (\<forall>ip. limited own my_ip ip ni))"

lemma be_bytes_inject [simp]:
  "be_bytes v16 = be_bytes w16 \<longleftrightarrow> v16 = (w16 :: 16 word)" "be_bytes v32 = be_bytes w32 \<longleftrightarrow> v32 = (w32 :: 32 word)"
  using be_word_be_bytes(2) [of v16] be_word_be_bytes(2) [of w16] be_word_be_bytes(3) [of v32] be_word_be_bytes(3) [of w32]
  by metis+

lemma ARPMessage_bytes_parts:
  "take 2 (drop 6 (ARPMessage_bytes m)) = be_bytes (am_opcode m)"
  "take 4 (rev (ARPMessage_bytes m)) = rev (be_bytes (am_target_ip_address m))"
  by (simp_all add: ARPMessage_bytes_def be_bytes_simps)

lemma BufferList_of_string_inject [simp]: "BufferList_of_string s = BufferList_of_string t \<longleftrightarrow> s = t"
  by (simp add: BufferList_of_string_def BufferList_of_Buffer_def BufferList_append_def Buffer_of_string_def)

lemma other_frames_no_request [simp]:
  "ipv4_frame own hw payload \<noteq> request_frame own' my_ip' ip"
  "reply_frame own my_ip m \<noteq> request_frame own' my_ip' ip"
proof -
  show "ipv4_frame own hw payload \<noteq> request_frame own' my_ip' ip" by (simp add: frame_defs)
  have "ARPMessage_bytes (arp_reply own my_ip m) \<noteq> ARPMessage_bytes (arp_request own' my_ip' ip)"
  proof
    assume "ARPMessage_bytes (arp_reply own my_ip m) = ARPMessage_bytes (arp_request own' my_ip' ip)"
    then have "be_bytes (am_opcode (arp_reply own my_ip m)) = be_bytes (am_opcode (arp_request own' my_ip' ip))"
      by (simp only: ARPMessage_bytes_parts(1) [symmetric])
    then show False by (simp add: arp_reply_def arp_request_def OPCODE_REPLY_def OPCODE_REQUEST_def)
  qed
  then show "reply_frame own my_ip m \<noteq> request_frame own' my_ip' ip" by (simp add: frame_defs)
qed

lemma request_frame_inject [simp]: "request_frame own my_ip ip = request_frame own my_ip ip' \<longleftrightarrow> ip = ip'"
proof
  assume "request_frame own my_ip ip = request_frame own my_ip ip'"
  then have "ARPMessage_bytes (arp_request own my_ip ip) = ARPMessage_bytes (arp_request own my_ip ip')"
    by (simp add: request_frame_def)
  then have "rev (be_bytes (am_target_ip_address (arp_request own my_ip ip))) =
      rev (be_bytes (am_target_ip_address (arp_request own my_ip ip')))"
    by (simp only: ARPMessage_bytes_parts(2) [symmetric])
  then show "ip = ip'" by (simp add: arp_request_def)
qed simp

lemma limited_request:
  assumes "limited own my_ip ip ni" and "\<not> asked_recently ni ip" and "ni_clock ni < SIZE_MOD"
  shows "requests own my_ip ip ni \<le> ni_clock ni div broadcast_interval_ms"
proof (cases "ni_last_broadcast_time ni ip")
  case (Some t)
  with assms have "t \<le> ni_clock ni" "requests own my_ip ip ni \<le> t div broadcast_interval_ms + 1"
    "broadcast_interval_ms \<le> ni_clock ni - t"
    by (auto simp: limited_def asked_recently_def size_arith)
  moreover from this have "(t + broadcast_interval_ms) div broadcast_interval_ms \<le> ni_clock ni div broadcast_interval_ms"
    by (intro div_le_mono) simp
  ultimately show ?thesis by (simp add: broadcast_interval_ms_def)
qed (use assms(1) in \<open>simp add: limited_def\<close>)

lemma send_limited:
  assumes "limited own my_ip ip ni" and "ni_clock ni < SIZE_MOD" and "send_datagram d nh ni = Inr ni'"
    and "ni_ethernet_address ni = own" and "ipv4_numeric (ni_ip_address ni) = Inr my_ip"
  shows "limited own my_ip ip ni'"
  using assms(3)
proof (cases rule: send_datagram_cases)
  case (requested ip' my_ip')
  show ?thesis
  proof (cases "ip' = ip")
    case True
    with requested limited_request [OF assms(1)] assms(2,4,5) show ?thesis by (simp add: limited_def requests_def)
  next
    case False
    with requested assms(1,4,5) show ?thesis by (simp add: limited_def requests_def split: option.splits)
  qed
qed (use assms(1) in \<open>simp_all add: limited_def requests_def split: option.splits\<close>)

lemma send_keeps:
  "send_datagram d nh ni = Inr ni' \<Longrightarrow>
     ni_ethernet_address ni' = ni_ethernet_address ni \<and> ni_ip_address ni' = ni_ip_address ni \<and> ni_clock ni' = ni_clock ni"
  by (erule send_datagram_cases) simp_all

lemma limited_pop [simp]: "limited own my_ip ip (pop_pending ni) \<longleftrightarrow> limited own my_ip ip ni"
  by (simp add: limited_def requests_def split: option.splits)

lemma send_rate_limited:
  assumes "rate_limited own my_ip h ni" and "send_datagram d nh ni = Inr ni'"
  shows "rate_limited own my_ip h ni'"
  using assms send_keeps [OF assms(2)] send_limited [OF _ _ assms(2)] by (auto simp: rate_limited_def)

lemma limited_tick:
  "\<lbrakk>limited own my_ip ip ni; ni_clock ni + ms < SIZE_MOD\<rbrakk> \<Longrightarrow> limited own my_ip ip (ni_tick ms ni)"
  by (auto simp: limited_def requests_def size_arith split: option.splits)

lemma learn_limited:
  assumes "learn_and_reply m ni = Inr ni'" and "supported m"
  shows "ni_ethernet_address ni' = ni_ethernet_address ni" "ni_ip_address ni' = ni_ip_address ni"
    "ni_clock ni' = ni_clock ni" "limited own my_ip ip ni' \<longleftrightarrow> limited own my_ip ip ni"
  using assms by (cases rule: learn_and_reply_cases, simp_all add: limited_def requests_def split: option.splits)+

interpretation rate_limited: interface_invariant "rate_limited own my_ip"
proof
  fix h ni d nh ni'
  assume "rate_limited own my_ip h ni" "send_datagram d nh ni = Inr ni'"
  from send_rate_limited [OF this] show "rate_limited own my_ip (h @ [SendDgram d nh]) ni'" by (simp add: rate_limited_def)
next
  fix h ni d nh rest ni'
  assume "rate_limited own my_ip h ni" "send_datagram d nh ni = Inr ni'"
  from send_rate_limited [OF this] show "rate_limited own my_ip h (pop_pending ni')" by (simp add: rate_limited_def)
next
  fix h ni f m ni'
  assume a: "rate_limited own my_ip h ni" and m: "hears (ni_ethernet_address ni) f m" and l: "learn_and_reply m ni = Inr ni'"
  from learn_limited [OF l hears_supported [OF m]] a show "rate_limited own my_ip (h @ [RecvFrame f]) ni'"
    by (auto simp: rate_limited_def)
next
  fix h ni ms
  assume "rate_limited own my_ip h ni"
  then show "rate_limited own my_ip (h @ [TickNI ms]) (ni_tick ms ni)"
    using limited_tick [of own my_ip _ ni ms] by (auto simp: rate_limited_def size_arith)
qed (simp add: rate_limited_def)

section \<open>Calls return\<close>

text \<open>The calls that meet the expectations of the interface: an IPv4 next hop and a datagram of
  consistent length to send, a frame whose payload is one piece of memory to receive.\<close>

definition sendable :: "IPv4Datagram \<times> Address \<Rightarrow> bool" where
  "sendable x \<longleftrightarrow> (\<exists>ip. ipv4_numeric (snd x) = Inr ip) \<and> (\<exists>bl. IPv4Datagram_serialize (fst x) = Inr bl)"

fun proper :: "ni_op \<Rightarrow> bool" where
  "proper (SendDgram d nh) \<longleftrightarrow> sendable (d, nh)"
| "proper (RecvFrame f) \<longleftrightarrow> (\<exists>b. BufferList_to_Buffer (ef_payload f) = Inr b \<and> Buffer_wf b)"
| "proper (TickNI ms) \<longleftrightarrow> True"

definition ready :: "NetworkInterface \<Rightarrow> bool" where
  "ready ni \<longleftrightarrow> (\<exists>my_ip. ipv4_numeric (ni_ip_address ni) = Inr my_ip) \<and> list_all sendable (ni_dgram_pending ni)"

lemma send_returns:
  assumes "ready ni" and "sendable (d, nh)"
  shows "\<exists>ni'. send_datagram d nh ni = Inr ni' \<and> ready ni'"
proof -
  from assms(2) obtain ip bl where ip: "ipv4_numeric nh = Inr ip" and bl: "IPv4Datagram_serialize d = Inr bl"
    by (auto simp: sendable_def)
  with assms show ?thesis
    by (auto simp: send_datagram_eq [OF ip] queue_and_request_eq ready_def split: option.splits)
qed

lemma poll_returns: "ready ni \<Longrightarrow> \<exists>ni'. poll_pending ni = Inr ni' \<and> ready ni'"
proof (induction ni rule: poll_pending.induct)
  case (1 ni)
  show ?case
  proof (cases "ni_dgram_pending ni")
    case (Cons x rest)
    obtain d nh where x: "x = (d, nh)" by (cases x)
    with "1.prems" Cons obtain ni1 where ni1: "send_datagram d nh ni = Inr ni1" and "ready ni1"
      using send_returns [of ni d nh] by (auto simp: ready_def)
    then have r: "ready (pop_pending ni1)" by (cases "ni_dgram_pending ni1") (auto simp: ready_def)
    show ?thesis
    proof (cases "length (ni_dgram_pending ni) < length (ni_dgram_pending ni1)")
      case True
      with Cons x ni1 r show ?thesis by (simp add: poll_pending.simps [of ni])
    next
      case False
      from "1.IH" [OF Cons x [symmetric] ni1 False r] obtain ni' where
        "poll_pending (pop_pending ni1) = Inr ni'" "ready ni'" by blast
      with False Cons x ni1 show ?thesis by (subst poll_pending.simps) simp
    qed
  qed (use "1.prems" in \<open>simp add: poll_pending.simps [of ni]\<close>)
qed

lemma parse_returns:
  assumes "Buffer_wf b"
  shows "\<exists>r d. IPv4Datagram_parse d0 b = Inr (r, d)" "\<exists>r m. ARPMessage_parse m0 b = Inr (r, m)"
  using total_IPv4Header_parse [of "ipd_header d0"] total_ARPMessage_read [of m0] feeds_new [OF assms]
  by (fastforce simp: parser_total_def IPv4Datagram_parse_def ARPMessage_parse_def feeds_def Let_def)+

lemma learn_returns:
  assumes "ready ni" and "supported m"
  shows "\<exists>ni'. learn_and_reply m ni = Inr ni' \<and> ready ni'"
proof -
  have "supported (arp_reply own my_ip m)" for own my_ip using assms(2) by (simp add: supported_def arp_reply_def)
  from ARPMessage_serialize_eq [OF this] assms(1) show ?thesis
    by (auto simp: learn_and_reply_def Let_def arp_reply_def ready_def)
qed

lemma recv_returns:
  assumes "ready ni" and "proper (RecvFrame f)"
  shows "\<exists>d ni'. recv_frame f ni = Inr (d, ni') \<and> ready ni'"
proof -
  from assms(2) obtain b where b: "BufferList_to_Buffer (ef_payload f) = Inr b" "Buffer_wf b" by auto
  obtain r d where d: "IPv4Datagram_parse IPv4Datagram_default b = Inr (r, d)" using parse_returns(1) [OF b(2)] by blast
  obtain r' m where m: "ARPMessage_parse ARPMessage_default b = Inr (r', m)" using parse_returns(2) [OF b(2)] by blast
  have "\<exists>ni1. (if r' = NoError then learn_and_reply m ni else Inr ni) = Inr ni1 \<and> ready ni1"
    if "eh_type (ef_header f) = TYPE_ARP" "eh_dst (ef_header f) = ni_ethernet_address ni \<or> eh_dst (ef_header f) = ETHERNET_BROADCAST"
  proof (cases "r' = NoError")
    case True
    with that b m have "hears (ni_ethernet_address ni) f m" by (auto simp: hears_def)
    from learn_returns [OF assms(1) hears_supported [OF this]] True show ?thesis by simp
  qed (use assms(1) in simp)
  then show ?thesis
    using assms(1) b d m poll_returns by (fastforce simp: recv_frame_def Let_def)
qed

lemma exec_returns: "\<lbrakk>ready ni; proper op\<rbrakk> \<Longrightarrow> \<exists>ni'. ni_exec op ni = Inr ni' \<and> ready ni'"
  using send_returns recv_returns by (cases op) (fastforce simp: ready_def)+

lemma run_returns: "\<lbrakk>ready ni; list_all proper ops\<rbrakk> \<Longrightarrow> \<exists>ni'. ni_run ops ni = Inr ni' \<and> ready ni'"
proof (induction ops arbitrary: ni)
  case (Cons op ops)
  then obtain ni1 where "ni_exec op ni = Inr ni1" "ready ni1" using exec_returns [of ni op] by auto
  with Cons show ?case by simp
qed simp

end
