(* ===== verification/Router.thy ===== *)
theory Router
  imports Interface_Contract "HOL-Library.AList"
begin

text \<open>
  libsponge/router.hh and router.cc: the binary trie of routes, network interfaces that store what they
  receive, and the router. The nodes of the trie are only reached from their parent, so the shared
  pointers are subtrees; the children are an association list, of which the code uses lookup and
  insertion. A shift by a negative amount, which \<open>Trie::insert\<close> makes for a prefix of more than 32
  bits, is undefined behaviour (\<open>OutOfBounds\<close>). Messages on cerr are left out, except that the
  \<open>Address::ip\<close> they evaluate can throw.
\<close>

unbundle bit_operations_syntax

section \<open>The route table\<close>

record Entry =
  en_route_prefix :: "32 word"
  en_prefix_length :: "8 word"
  en_next_hop :: "Address option"
  en_interface_num :: size_t

datatype TrieNode = TrieNode (tn_children: "(8 word \<times> TrieNode) list") (tn_entry: "Entry option")

definition TrieNode_new :: TrieNode where
  "TrieNode_new = TrieNode [] None"

definition get_child :: "8 word \<Rightarrow> TrieNode \<Rightarrow> TrieNode option" where
  "get_child child t = map_of (tn_children t) child"

definition get_or_create_child :: "8 word \<Rightarrow> TrieNode \<Rightarrow> TrieNode" where
  "get_or_create_child child t = (case get_child child t of None \<Rightarrow> TrieNode_new | Some c \<Rightarrow> c)"

definition set_child :: "8 word \<Rightarrow> TrieNode \<Rightarrow> TrieNode \<Rightarrow> TrieNode" where
  "set_child child c t = TrieNode (AList.update child c (tn_children t)) (tn_entry t)"

record Trie =
  trie_root :: TrieNode
  trie_default :: "Entry option"

definition Trie_new :: Trie where
  "Trie_new = \<lparr>trie_root = TrieNode_new, trie_default = None\<rparr>"

definition child_of :: "32 word \<Rightarrow> 32 word \<Rightarrow> 8 word" where
  "child_of bits msk = (if 0 < bits AND msk then 1 else 0)"

text \<open>The loop of \<open>insert\<close>, with the nodes it passes rebuilt around the one it ends in.\<close>

fun trie_insert_loop :: "nat \<Rightarrow> 32 word \<Rightarrow> 32 word \<Rightarrow> Entry \<Rightarrow> TrieNode \<Rightarrow> TrieNode" where
  "trie_insert_loop 0 pfx msk entry cur = TrieNode (tn_children cur) (Some entry)"
| "trie_insert_loop (Suc prefix_length) pfx msk entry cur =
     (let child = child_of pfx msk in
      set_child child
        (trie_insert_loop prefix_length (pfx AND (msk - 1)) (drop_bit 1 msk) entry (get_or_create_child child cur))
        cur)"

definition trie_insert :: "Entry \<Rightarrow> Trie \<Rightarrow> Trie result" where
  "trie_insert entry t =
     (let route_prefix = en_route_prefix entry; prefix_length = unat (en_prefix_length entry) in
      if prefix_length = 0 then Inr (t\<lparr>trie_default := Some entry\<rparr>)
      else if 32 < prefix_length then Inl OutOfBounds
      else
        let pfx = push_bit (32 - prefix_length) 0xffffffff AND route_prefix
        in Inr (t\<lparr>trie_root := trie_insert_loop prefix_length pfx (push_bit 31 1) entry (trie_root t)\<rparr>))"

lemma get_child_size: "get_child child t = Some c \<Longrightarrow> size c < size t"
  by (cases t) (auto simp: get_child_def dest!: map_of_SomeD size_list_estimation [where f = "size_prod (\<lambda>_. 0) size" and y = "size c"])

function lpm_loop :: "32 word \<Rightarrow> 32 word \<Rightarrow> Entry option \<Rightarrow> TrieNode \<Rightarrow> Entry option" where
  "lpm_loop ip msk longest cur =
     (case get_child (child_of ip msk) cur of
        None \<Rightarrow> longest
      | Some c \<Rightarrow>
          lpm_loop (ip AND (msk - 1)) (drop_bit 1 msk) (if tn_entry c \<noteq> None then tn_entry c else longest) c)"
  by auto
termination lpm_loop
  by (relation "measure (\<lambda>(_, _, _, t). size t)") (auto dest: get_child_size)

declare lpm_loop.simps [simp del]

definition longest_prefix_match :: "Trie \<Rightarrow> 32 word \<Rightarrow> Entry option" where
  "longest_prefix_match t ip =
     (let longest = lpm_loop ip (push_bit 31 1) None (trie_root t) in
      if longest = None \<and> trie_default t \<noteq> None then trie_default t else longest)"

section \<open>Interfaces of a router\<close>

record AsyncNetworkInterface =
  an_interface :: NetworkInterface
  an_datagrams_out :: "IPv4Datagram list"

definition AsyncNetworkInterface_of :: "NetworkInterface \<Rightarrow> AsyncNetworkInterface" where
  "AsyncNetworkInterface_of ni = \<lparr>an_interface = ni, an_datagrams_out = []\<rparr>"

definition async_recv_frame :: "EthernetFrame \<Rightarrow> AsyncNetworkInterface \<Rightarrow> AsyncNetworkInterface result" where
  "async_recv_frame frame a =
     result_bind (recv_frame frame (an_interface a)) (\<lambda>(optional_dgram, ni).
       let a = a\<lparr>an_interface := ni\<rparr> in
       Inr (case optional_dgram of
              None \<Rightarrow> a
            | Some dgram \<Rightarrow> a\<lparr>an_datagrams_out := an_datagrams_out a @ [dgram]\<rparr>))"

section \<open>The router\<close>

record Router =
  rt_interfaces :: "AsyncNetworkInterface list"
  rt_route_table :: Trie

definition Router_new :: Router where
  "Router_new = \<lparr>rt_interfaces = [], rt_route_table = Trie_new\<rparr>"

definition add_interface :: "AsyncNetworkInterface \<Rightarrow> Router \<Rightarrow> size_t \<times> Router" where
  "add_interface interface r =
     (let r = r\<lparr>rt_interfaces := rt_interfaces r @ [interface]\<rparr> in (length (rt_interfaces r) - 1, r))"

definition rt_interface :: "size_t \<Rightarrow> Router \<Rightarrow> AsyncNetworkInterface result" where
  "rt_interface N r = (if N < length (rt_interfaces r) then Inr (rt_interfaces r ! N) else Inl OutOfRange)"

definition add_route ::
  "resolver \<Rightarrow> 32 word \<Rightarrow> 8 word \<Rightarrow> Address option \<Rightarrow> size_t \<Rightarrow> Router \<Rightarrow> Router result" where
  "add_route rs route_prefix prefix_length next_hop interface_num r =
     result_bind (from_ipv4_numeric route_prefix) (\<lambda>a.
     result_bind (Address_ip rs a) (\<lambda>_.
     result_bind (case next_hop of None \<Rightarrow> Inr ''(direct)'' | Some nh \<Rightarrow> Address_ip rs nh) (\<lambda>_.
     result_bind (trie_insert
         \<lparr>en_route_prefix = route_prefix, en_prefix_length = prefix_length, en_next_hop = next_hop,
          en_interface_num = interface_num\<rparr> (rt_route_table r)) (\<lambda>t.
       Inr (r\<lparr>rt_route_table := t\<rparr>)))))"

text \<open>\<open>_interfaces[n].send_datagram(...)\<close>: the index is not checked.\<close>

definition send_on :: "size_t \<Rightarrow> IPv4Datagram \<Rightarrow> Address \<Rightarrow> Router \<Rightarrow> Router result" where
  "send_on n dgram next_hop r =
     (if n < length (rt_interfaces r) then
        result_bind (send_datagram dgram next_hop (an_interface (rt_interfaces r ! n))) (\<lambda>ni.
          Inr (r\<lparr>rt_interfaces := (rt_interfaces r)[n := (rt_interfaces r ! n)\<lparr>an_interface := ni\<rparr>]\<rparr>))
      else Inl OutOfBounds)"

definition route_one_datagram :: "IPv4Datagram \<Rightarrow> Router \<Rightarrow> Router result" where
  "route_one_datagram dgram r =
     (if ip_ttl (ipd_header dgram) \<le> 1 then Inr r
      else
        let dgram = dgram\<lparr>ipd_header := (ipd_header dgram)\<lparr>ip_ttl := ip_ttl (ipd_header dgram) - 1\<rparr>\<rparr>;
            dst = ip_dst (ipd_header dgram)
        in case longest_prefix_match (rt_route_table r) dst of
             None \<Rightarrow> Inr r
           | Some entry \<Rightarrow>
               (case en_next_hop entry of
                  Some next_hop \<Rightarrow> send_on (en_interface_num entry) dgram next_hop r
                | None \<Rightarrow> result_bind (from_ipv4_numeric (ip_dst (ipd_header dgram))) (\<lambda>a.
                            send_on (en_interface_num entry) dgram a r)))"

definition queue_of :: "size_t \<Rightarrow> Router \<Rightarrow> IPv4Datagram list" where
  "queue_of i r = an_datagrams_out (rt_interfaces r ! i)"

definition pop_queue :: "size_t \<Rightarrow> Router \<Rightarrow> Router" where
  "pop_queue i r =
     r\<lparr>rt_interfaces := (rt_interfaces r)[i := (rt_interfaces r ! i)\<lparr>an_datagrams_out := tl (queue_of i r)\<rparr>]\<rparr>"

lemma send_on_queues:
  "send_on n d nh r = Inr r' \<Longrightarrow>
     length (rt_interfaces r') = length (rt_interfaces r) \<and> rt_route_table r' = rt_route_table r \<and>
     (\<forall>i. queue_of i r' = queue_of i r)"
  by (auto simp: send_on_def result_bind_Inr_iff queue_of_def nth_list_update split: if_splits)

lemma route_one_queues:
  "route_one_datagram d r = Inr r' \<Longrightarrow>
     length (rt_interfaces r') = length (rt_interfaces r) \<and> rt_route_table r' = rt_route_table r \<and>
     (\<forall>i. queue_of i r' = queue_of i r)"
  by (auto simp: route_one_datagram_def Let_def dest: send_on_queues split: if_splits option.splits)

text \<open>The inner loop of \<open>route\<close> for the interface \<open>i\<close>; sending never adds to a queue of received datagrams.\<close>

function route_queue :: "size_t \<Rightarrow> Router \<Rightarrow> Router result" where
  "route_queue i r =
     (if length (rt_interfaces r) \<le> i then Inr r
      else case queue_of i r of
        [] \<Rightarrow> Inr r
      | dgram # _ \<Rightarrow>
          (case route_one_datagram dgram r of
             Inl e \<Rightarrow> Inl e
           | Inr r' \<Rightarrow> route_queue i (pop_queue i r')))"
  by auto
termination route_queue
  by (relation "measure (\<lambda>(i, r). length (queue_of i r))")
    (auto simp: pop_queue_def dest!: route_one_queues simp: queue_of_def)

declare route_queue.simps [simp del]

fun route_interfaces :: "size_t list \<Rightarrow> Router \<Rightarrow> Router result" where
  "route_interfaces [] r = Inr r"
| "route_interfaces (i # is) r = (case route_queue i r of Inl e \<Rightarrow> Inl e | Inr r' \<Rightarrow> route_interfaces is r')"

definition route :: "Router \<Rightarrow> Router result" where
  "route r = route_interfaces [0..<length (rt_interfaces r)] r"

end
