(* ===== verification/Route_Table.thy ===== *)
theory Route_Table
  imports Router
begin

text \<open>
  The trie of routes implements longest-prefix match on the list of routes. \<open>trie_get\<close> reads the trie
  along a path of bits; \<open>insert\<close> changes it at one path, and the loop of \<open>longest_prefix_match\<close> returns
  the last entry met on the path of the address.
\<close>

unbundle bit_operations_syntax

section \<open>Bits and masks\<close>

text \<open>Bit \<open>i\<close> of an address from the most significant end; the loops shift the mask out after 32 bits.\<close>

definition key :: "32 word \<Rightarrow> nat \<Rightarrow> bool" where
  "key ip i = (i < 32 \<and> bit ip (31 - i))"

definition mask_at :: "nat \<Rightarrow> 32 word" where
  "mask_at i = drop_bit i (push_bit 31 1)"

lemma mask_at_simps: "mask_at 0 = push_bit 31 1" "drop_bit 1 (mask_at i) = mask_at (Suc i)" "drop_bit (Suc 0) (mask_at i) = mask_at (Suc i)"
  by (simp_all add: mask_at_def)

lemma bit_mask_at: "bit (mask_at i) n \<longleftrightarrow> i < 32 \<and> n = 31 - i"
proof -
  have "bit (mask_at i) n \<longleftrightarrow> bit (2 ^ 31 :: 32 word) (i + n)" by (simp add: mask_at_def bit_drop_bit_eq)
  also have "\<dots> \<longleftrightarrow> i + n = 31" unfolding bit_exp_iff by auto
  finally show ?thesis by auto
qed

lemma child_of_mask_at: "child_of ip (mask_at i) = (if key ip i then 1 else 0)"
proof -
  have "0 < ip AND mask_at i \<longleftrightarrow> (\<exists>n. bit (ip AND mask_at i) n)"
    by (metis bit_0_eq bit_eqI bot_apply bot_bool_def word_neq_0_conv)
  also have "\<dots> \<longleftrightarrow> key ip i" by (auto simp: bit_and_iff bit_mask_at key_def)
  finally show ?thesis by (simp add: child_of_def)
qed

lemma key_below:
  assumes "i < j"
  shows "key (ip AND (mask_at i - 1)) j = key ip j"
proof (cases "j < 32")
  case True
  with assms have "mask_at i = 2 ^ (31 - i)" 
    by (intro bit_word_eqI) (auto simp: bit_mask_at bit_exp_iff)
  then have "mask_at i - 1 = mask (31 - i)" by (simp add: mask_eq_exp_minus_1)
  with True assms show ?thesis by (auto simp: key_def bit_and_iff bit_mask_iff)
qed (simp add: key_def)

section \<open>Reading the trie\<close>

definition path :: "32 word \<Rightarrow> nat \<Rightarrow> nat \<Rightarrow> bool list" where
  "path ip i n = map (key ip) [i..<i + n]"

fun trie_get :: "TrieNode \<Rightarrow> bool list \<Rightarrow> Entry option" where
  "trie_get t [] = tn_entry t"
| "trie_get t (b # bs) = (case get_child (if b then 1 else 0) t of None \<Rightarrow> None | Some c \<Rightarrow> trie_get c bs)"

lemma path_Suc: "path ip i (Suc n) = key ip i # path ip (Suc i) n"
  by (simp add: path_def upt_conv_Cons del: upt_Suc)

lemma path_0 [simp]: "path ip i 0 = []"
  by (simp add: path_def)

lemma length_path [simp]: "length (path ip i n) = n"
  by (simp add: path_def)

lemma path_cong: "(\<And>j. i \<le> j \<Longrightarrow> key x j = key y j) \<Longrightarrow> path x i n = path y i n"
  by (simp add: path_def)

lemma path_masked: "path (x AND (mask_at i - 1)) (Suc i) n = path x (Suc i) n"
  by (rule path_cong) (simp add: key_below)

lemma get_child_set_child: "get_child k (set_child k' c t) = (if k = k' then Some c else get_child k t)"
  by (simp add: get_child_def set_child_def update_conv')

lemma trie_get_new [simp]: "trie_get TrieNode_new p = None"
  by (cases p) (simp_all add: TrieNode_new_def get_child_def)

lemma trie_get_insert:
  "trie_get (trie_insert_loop n x (mask_at i) e t) p = (if p = path x i n then Some e else trie_get t p)"
proof (induction n arbitrary: x i t p)
  case 0
  show ?case by (cases p) (simp_all add: get_child_def)
next
  case (Suc n)
  have sub: "trie_get (get_or_create_child k t) q = (case get_child k t of None \<Rightarrow> None | Some c \<Rightarrow> trie_get c q)" for k q
    by (simp add: get_or_create_child_def split: option.split)
  show ?case
  proof (cases p)
    case Nil
    then show ?thesis by (simp add: Let_def set_child_def path_Suc)
  next
    case (Cons b bs)
    have "trie_get (trie_insert_loop (Suc n) x (mask_at i) e t) p =
        (if b = key x i then trie_get (trie_insert_loop n (x AND (mask_at i - 1)) (mask_at (Suc i)) e
            (get_or_create_child (if key x i then 1 else 0) t)) bs
         else trie_get t p)"
      by (simp add: Cons Let_def child_of_mask_at get_child_set_child mask_at_simps)
    also have "\<dots> = (if p = path x i (Suc n) then Some e else trie_get t p)"
      unfolding Suc.IH path_masked sub by (auto simp: Cons path_Suc)
    finally show ?thesis .
  qed
qed

section \<open>The matching loop\<close>

text \<open>The last entry of a list of optional entries, a given one when there is none.\<close>

definition last_some :: "'a option \<Rightarrow> 'a option list \<Rightarrow> 'a option" where
  "last_some = foldl (\<lambda>acc x. if x \<noteq> None then x else acc)"

lemma last_some_simps [simp]:
  "last_some acc [] = acc" "last_some acc (x # xs) = last_some (if x \<noteq> None then x else acc) xs"
  "last_some acc (xs @ ys) = last_some (last_some acc xs) ys"
  by (simp_all add: last_some_def)

lemma last_some_None: "\<forall>x \<in> set xs. x = None \<Longrightarrow> last_some acc xs = acc"
  by (induction xs) auto

lemma last_some_filter:
  "last_some acc xs = (if filter (\<lambda>x. x \<noteq> None) xs = [] then acc else last (filter (\<lambda>x. x \<noteq> None) xs))"
  by (induction xs arbitrary: acc) simp_all

lemma last_some_in:
  assumes "\<exists>x \<in> set xs. x \<noteq> None"
  shows "last_some acc xs \<in> set xs" "last_some acc xs \<noteq> None" "last_some acc xs = last_some acc' xs"
proof -
  from assms have ne: "filter (\<lambda>x. x \<noteq> None) xs \<noteq> []" by (simp add: filter_empty_conv)
  then have l: "last_some acc xs = last (filter (\<lambda>x. x \<noteq> None) xs)" for acc by (simp only: last_some_filter if_False)
  from last_in_set [OF ne] show "last_some acc xs \<in> set xs" "last_some acc xs \<noteq> None" unfolding l by auto
  show "last_some acc xs = last_some acc' xs" by (simp only: l)
qed

lemma lpm_loop_eq:
  assumes "\<forall>n > N. trie_get t (path x i n) = None"
  shows "lpm_loop x (mask_at i) longest t = last_some longest (map (\<lambda>n. trie_get t (path x i n)) [1..<Suc N])"
  using assms
proof (induction x "mask_at i" longest t arbitrary: i N rule: lpm_loop.induct)
  case (1 x longest t)
  show ?case
  proof (cases "get_child (if key x i then 1 else 0) t")
    case None
    then have "\<forall>y \<in> set (map (\<lambda>n. trie_get t (path x i n)) [1..<Suc N]). y = None"
      by (auto simp: path_Suc Suc_le_eq gr0_conv_Suc)
    with None show ?thesis by (simp add: lpm_loop.simps [of x] child_of_mask_at last_some_None del: upt_Suc)
  next
    case (Some c)
    have get: "trie_get t (path x i (Suc n)) = trie_get c (path x (Suc i) n)" for n by (simp add: path_Suc Some)
    have none: "\<forall>n > N - 1. trie_get c (path (x AND (mask_at i - 1)) (Suc i) n) = None"
      using "1.prems" get by (auto simp: path_masked) (metis Suc_less_eq Suc_pred less_Suc_eq_0_disj not_less_eq)
    have "lpm_loop x (mask_at i) longest t =
        lpm_loop (x AND (mask_at i - 1)) (mask_at (Suc i)) (if tn_entry c \<noteq> None then tn_entry c else longest) c"
      using Some by (simp add: lpm_loop.simps [of x] child_of_mask_at mask_at_simps)
    also have "\<dots> = last_some (if tn_entry c \<noteq> None then tn_entry c else longest)
        (map (\<lambda>n. trie_get c (path x (Suc i) n)) [1..<Suc (N - 1)])"
      using "1.hyps" [of c "Suc i" "N - 1"] Some none by (simp add: child_of_mask_at mask_at_simps path_masked del: upt_Suc)
    finally have loop: "lpm_loop x (mask_at i) longest t =
      last_some (if tn_entry c \<noteq> None then tn_entry c else longest) (map (\<lambda>n. trie_get t (path x i n)) [Suc 1..<Suc (Suc (N - 1))])"
      by (simp only: get [symmetric] map_Suc_upt [symmetric] map_map comp_def)
    have entry: "tn_entry c = trie_get t (path x i 1)" using get [of 0] by simp
    show ?thesis
    proof (cases N)
      case 0
      with "1.prems" entry loop show ?thesis by simp
    next
      case (Suc M)
      then have "[1..<Suc N] = 1 # [Suc 1..<Suc (Suc (N - 1))]" by (simp add: upt_conv_Cons)
      with loop entry show ?thesis by (simp only: list.map last_some_simps)
    qed
  qed
qed

section \<open>Longest-prefix match on a list of routes\<close>

abbreviation plen :: "Entry \<Rightarrow> nat" where
  "plen e \<equiv> unat (en_prefix_length e)"

text \<open>A route applies when the leading bits of its prefix are those of the address.\<close>

definition route_matches :: "32 word \<Rightarrow> Entry \<Rightarrow> bool" where
  "route_matches ip e \<longleftrightarrow> drop_bit (32 - plen e) ip = drop_bit (32 - plen e) (en_route_prefix e)"

text \<open>Of the routes that apply, the longest; of several of the same length, the one added last.\<close>

definition better :: "32 word \<Rightarrow> Entry \<Rightarrow> Entry option \<Rightarrow> Entry option" where
  "better ip e best =
     (if route_matches ip e \<and> (case best of None \<Rightarrow> True | Some e' \<Rightarrow> plen e' \<le> plen e) then Some e else best)"

definition best_route :: "Entry list \<Rightarrow> 32 word \<Rightarrow> Entry option" where
  "best_route routes ip = foldl (\<lambda>best e. better ip e best) None routes"

fun insert_routes :: "Entry list \<Rightarrow> Trie \<Rightarrow> Trie result" where
  "insert_routes [] t = Inr t"
| "insert_routes (e # es) t = (case trie_insert e t of Inl err \<Rightarrow> Inl err | Inr t' \<Rightarrow> insert_routes es t')"

lemma bit_high: "bit (drop_bit k x) m = bit x (k + m)" for x :: "32 word"
  by (simp add: bit_drop_bit_eq)

lemma route_matches_path:
  assumes "plen e \<le> 32"
  shows "route_matches ip e \<longleftrightarrow> path ip 0 (plen e) = path (en_route_prefix e) 0 (plen e)"
proof -
  let ?k = "32 - plen e"
  have "route_matches ip e \<longleftrightarrow> (\<forall>m < 32. bit ip (?k + m) = bit (en_route_prefix e) (?k + m))"
    by (simp add: route_matches_def bit_eq_iff bit_high)
  also have "\<dots> \<longleftrightarrow> (\<forall>i < plen e. bit ip (31 - i) = bit (en_route_prefix e) (31 - i))"
  proof (rule iffI; intro allI impI)
    fix i assume a: "\<forall>m < 32. bit ip (?k + m) = bit (en_route_prefix e) (?k + m)" and "i < plen e"
    with assms have "?k + (plen e - 1 - i) = 31 - i" "plen e - 1 - i < 32" by linarith+
    with a show "bit ip (31 - i) = bit (en_route_prefix e) (31 - i)" by metis
  next
    fix m :: nat assume a: "\<forall>i < plen e. bit ip (31 - i) = bit (en_route_prefix e) (31 - i)" and "m < 32"
    show "bit ip (?k + m) = bit (en_route_prefix e) (?k + m)"
    proof (cases "?k + m < 32")
      case True
      with assms have "31 - (plen e - 1 - m) = ?k + m" "plen e - 1 - m < plen e" by linarith+
      with a show ?thesis by metis
    qed (auto dest: bit_imp_le_length)
  qed
  also have "\<dots> \<longleftrightarrow> path ip 0 (plen e) = path (en_route_prefix e) 0 (plen e)"
    using assms by (auto simp: path_def key_def list_eq_iff_nth_eq)
  finally show ?thesis .
qed

lemma path_masked_prefix:
  assumes "n \<le> 32"
  shows "path (push_bit (32 - n) 0xffffffff AND x) 0 n = path x 0 n"
proof -
  have "(0xffffffff :: 32 word) = mask 32" by (simp add: mask_eq_exp_minus_1)
  then have ones: "bit (0xffffffff :: 32 word) m \<longleftrightarrow> m < 32" for m by (simp only: bit_mask_iff possible_bit_word) simp
  have "bit (push_bit (32 - n) (0xffffffff :: 32 word)) (31 - i)" if "i < n" for i
    using assms that unfolding bit_push_bit_iff ones by (simp, linarith)
  then have "key (push_bit (32 - n) 0xffffffff AND x) i = key x i" if "i < n" for i
    using that by (simp add: key_def bit_and_iff)
  then show ?thesis by (simp add: path_def)
qed

definition table_inv :: "Trie \<Rightarrow> bool" where
  "table_inv t \<longleftrightarrow>
     (\<forall>p e. trie_get (trie_root t) p = Some e \<longrightarrow> 0 < length p \<and> length p \<le> 32 \<and> plen e = length p) \<and>
     (\<forall>e. trie_default t = Some e \<longrightarrow> plen e = 0)"

definition on_path :: "Trie \<Rightarrow> 32 word \<Rightarrow> nat \<Rightarrow> Entry option" where
  "on_path t ip = (\<lambda>n. trie_get (trie_root t) (path ip 0 n))"

lemma lpm_on_path:
  assumes "table_inv t"
  shows "longest_prefix_match t ip = last_some (trie_default t) (map (on_path t ip) [1..<33])"
proof -
  have "trie_get (trie_root t) (path ip 0 n) = None" if "n > 32" for n
    using assms that by (cases "trie_get (trie_root t) (path ip 0 n)") (force simp: table_inv_def)+
  then have "lpm_loop ip (push_bit 31 1) None (trie_root t) = last_some None (map (on_path t ip) [1..<33])"
    using lpm_loop_eq [of 32 "trie_root t" ip 0 None] by (simp add: on_path_def mask_at_simps del: upt_Suc)
  then show ?thesis
    using last_some_in(2) [of "map (on_path t ip) [1..<33]" None]
      last_some_in(3) [of "map (on_path t ip) [1..<33]" None "trie_default t"]
      last_some_None [of "map (on_path t ip) [1..<33]"]
    by (cases "\<exists>x \<in> set (map (on_path t ip) [1..<33]). x \<noteq> None")
      (auto simp: longest_prefix_match_def Let_def simp del: upt_rec_numeral)
qed

lemma best_of_list:
  assumes "table_inv t" and "last_some (trie_default t) (map (on_path t ip) ns) = Some x"
  shows "plen x = 0 \<or> plen x \<in> set ns"
proof (cases "\<exists>y \<in> set (map (on_path t ip) ns). y \<noteq> None")
  case True
  from last_some_in(1) [OF this, of "trie_default t"] assms(2) obtain n where "n \<in> set ns" "on_path t ip n = Some x" by force
  then show ?thesis using assms(1) by (auto simp: table_inv_def on_path_def)
next
  case False
  then have "trie_default t = Some x" using assms(2) last_some_None [of "map (on_path t ip) ns" "trie_default t"] by auto
  then show ?thesis using assms(1) by (simp add: table_inv_def)
qed

text \<open>Inserting a route changes every match in the way the reference does.\<close>

lemma insert_default_step:
  assumes "table_inv t" and "plen e = 0"
  shows "\<exists>t'. trie_insert e t = Inr t' \<and> table_inv t' \<and>
    (\<forall>ip. longest_prefix_match t' ip = better ip e (longest_prefix_match t ip))"
proof -
  let ?t = "t\<lparr>trie_default := Some e\<rparr>"
  have ins: "trie_insert e t = Inr ?t" using assms(2) by (simp add: trie_insert_def Let_def)
  have inv: "table_inv ?t" using assms by (simp add: table_inv_def)
  have "longest_prefix_match ?t ip = better ip e (longest_prefix_match t ip)" for ip
  proof -
    let ?xs = "map (on_path t ip) [1..<33]"
    have same: "on_path ?t ip = on_path t ip" by (simp add: on_path_def)
    have m: "route_matches ip e" using assms(2) by (simp add: route_matches_path)
    show ?thesis
    proof (cases "\<exists>y \<in> set ?xs. y \<noteq> None")
      case True
      note l = last_some_in(1,2) [OF this, of "trie_default t"] last_some_in(3) [OF this, of "trie_default t" "Some e"]
      from l(2) obtain x where x: "last_some (trie_default t) ?xs = Some x" by blast
      with l(1) obtain n where "n \<in> set [1..<33]" "on_path t ip n = Some x" by (metis imageE set_map)
      then have "plen x \<noteq> 0" using assms(1) by (auto simp: table_inv_def on_path_def)
      then show ?thesis using l(3) x m assms(2)
        by (simp add: lpm_on_path [OF inv] lpm_on_path [OF assms(1)] same better_def del: upt_rec_numeral)
    next
      case False
      then have "longest_prefix_match ?t ip = Some e" "longest_prefix_match t ip = trie_default t"
        using last_some_None [of ?xs] lpm_on_path [OF inv, of ip] lpm_on_path [OF assms(1), of ip]
        unfolding same by auto
      with m assms show ?thesis by (simp add: better_def table_inv_def split: option.split)
    qed
  qed
  with ins inv show ?thesis by blast
qed

lemma insert_prefix_step:
  assumes "table_inv t" and "0 < plen e" and "plen e \<le> 32"
  shows "\<exists>t'. trie_insert e t = Inr t' \<and> table_inv t' \<and>
    (\<forall>ip. longest_prefix_match t' ip = better ip e (longest_prefix_match t ip))"
proof -
  let ?n = "plen e" and ?p = "path (en_route_prefix e) 0 (plen e)"
  define t' where "t' = t\<lparr>trie_root := trie_insert_loop ?n (push_bit (32 - ?n) 0xffffffff AND en_route_prefix e)
      (push_bit 31 1) e (trie_root t)\<rparr>"
  have ins: "trie_insert e t = Inr t'" using assms(2,3) by (simp add: trie_insert_def Let_def t'_def)
  have get: "trie_get (trie_root t') p = (if p = ?p then Some e else trie_get (trie_root t) p)" for p
    using trie_get_insert [of ?n _ 0] path_masked_prefix [OF assms(3)] by (simp add: t'_def mask_at_simps)
  have def: "trie_default t' = trie_default t" by (simp add: t'_def)
  have "?p \<noteq> []" using assms(2) length_path [of "en_route_prefix e" 0 ?n] by (metis length_0_conv less_irrefl)
  then have inv: "table_inv t'" using assms unfolding table_inv_def get def by auto
  have "longest_prefix_match t' ip = better ip e (longest_prefix_match t ip)" for ip
  proof (cases "route_matches ip e")
    case False
    then have "path ip 0 n \<noteq> ?p" for n using assms(3) by (metis length_path route_matches_path)
    then have "on_path t' ip = on_path t ip" by (simp add: on_path_def get)
    with False show ?thesis by (simp add: lpm_on_path [OF inv] lpm_on_path [OF assms(1)] def better_def)
  next
    case True
    then have "path ip 0 n = ?p \<longleftrightarrow> n = ?n" for n using assms(3) by (metis length_path route_matches_path)
    then have new: "on_path t' ip = (on_path t ip)(?n := Some e)" by (auto simp: on_path_def get)
    have split: "[1..<33] = [1..<?n] @ ?n # [Suc ?n..<33]"
      using assms(2,3) upt_add_eq_append [of 1 ?n "33 - ?n"] by (simp add: upt_conv_Cons del: upt_rec_numeral)
    have t': "longest_prefix_match t' ip = last_some (Some e) (map (on_path t ip) [Suc ?n..<33])"
      unfolding lpm_on_path [OF inv] split new by (simp add: map_idI del: upt_rec_numeral)
    have t: "longest_prefix_match t ip =
        last_some (last_some (trie_default t) (map (on_path t ip) ([1..<?n] @ [?n]))) (map (on_path t ip) [Suc ?n..<33])"
      unfolding lpm_on_path [OF assms(1)] split by (simp del: upt_rec_numeral)
    show ?thesis
    proof (cases "\<exists>y \<in> set (map (on_path t ip) [Suc ?n..<33]). y \<noteq> None")
      case later: True
      note l = last_some_in(1,2) [OF later, of "Some e"]
      from l(2) obtain x where x: "longest_prefix_match t' ip = Some x" unfolding t' by blast
      with l(1) t' obtain n where "n \<in> set [Suc ?n..<33]" "on_path t ip n = Some x" by (metis imageE set_map)
      then have "?n < plen x" using assms(1) by (auto simp: table_inv_def on_path_def)
      moreover have "longest_prefix_match t ip = Some x" using x last_some_in(3) [OF later] unfolding t t' by metis
      ultimately show ?thesis using x by (simp add: better_def)
    next
      case False
      then have "longest_prefix_match t' ip = Some e" "longest_prefix_match t ip =
          last_some (trie_default t) (map (on_path t ip) ([1..<?n] @ [?n]))"
        using last_some_None [of "map (on_path t ip) [Suc ?n..<33]"] unfolding t t' by auto
      moreover have "plen x \<le> ?n" if "longest_prefix_match t ip = Some x" for x
        using best_of_list [OF assms(1), of ip "[1..<?n] @ [?n]" x] that calculation(2) by auto
      ultimately show ?thesis using True by (simp add: better_def split: option.split)
    qed
  qed
  with ins inv show ?thesis by blast
qed

lemma insert_routes_eq:
  assumes "table_inv t" and "\<forall>e \<in> set routes. plen e \<le> 32"
  shows "\<exists>t'. insert_routes routes t = Inr t' \<and> table_inv t' \<and>
    (\<forall>ip. longest_prefix_match t' ip = foldl (\<lambda>best e. better ip e best) (longest_prefix_match t ip) routes)"
  using assms
proof (induction routes arbitrary: t)
  case (Cons e routes)
  obtain t1 where "trie_insert e t = Inr t1" "table_inv t1"
    "\<forall>ip. longest_prefix_match t1 ip = better ip e (longest_prefix_match t ip)"
    using insert_default_step [OF Cons.prems(1), of e] insert_prefix_step [OF Cons.prems(1), of e] Cons.prems(2)
    by (metis gr0I list.set_intros(1))
  with Cons.IH [of t1] Cons.prems(2) show ?case by simp
qed simp

lemma get_child_new [simp]: "get_child k TrieNode_new = None"
  by (simp add: get_child_def TrieNode_new_def)

lemma table_inv_new: "table_inv Trie_new" "longest_prefix_match Trie_new ip = None"
  by (simp_all add: table_inv_def Trie_new_def longest_prefix_match_def lpm_loop.simps)

text \<open>What the reference chooses.\<close>

lemma better_choice:
  assumes "foldl (\<lambda>best e. better ip e best) b routes = Some x"
  shows "(x \<in> set routes \<and> route_matches ip x \<or> b = Some x) \<and>
    (\<forall>e \<in> set routes. route_matches ip e \<longrightarrow> plen e \<le> plen x) \<and> (\<forall>y. b = Some y \<longrightarrow> plen y \<le> plen x)"
  using assms
proof (induction routes arbitrary: b)
  case (Cons e routes)
  from Cons.IH [of "better ip e b"] Cons.prems show ?case
    by (auto simp: better_def split: if_splits option.splits)
qed simp

lemma better_none: "foldl (\<lambda>best e. better ip e best) b routes = None \<longleftrightarrow> b = None \<and> (\<forall>e \<in> set routes. \<not> route_matches ip e)"
  by (induction routes arbitrary: b) (auto simp: better_def)

section \<open>Properties\<close>

text \<open>
  C11. The trie implements longest-prefix match: after any routes of at most 32 bits are inserted,
  matching an address gives what the reference finds in the list of routes, which is a route that
  applies, at least as long as every route that applies (and nothing only when no route applies).
\<close>

theorem router_longest_prefix_match:
  assumes "\<forall>e \<in> set routes. plen e \<le> 32"
  shows "\<exists>t. insert_routes routes Trie_new = Inr t \<and>
    (\<forall>ip. longest_prefix_match t ip = best_route routes ip \<and>
      (case best_route routes ip of
         None \<Rightarrow> \<forall>e \<in> set routes. \<not> route_matches ip e
       | Some x \<Rightarrow> x \<in> set routes \<and> route_matches ip x \<and> (\<forall>e \<in> set routes. route_matches ip e \<longrightarrow> plen e \<le> plen x)))"
proof -
  have "case best_route routes ip of
      None \<Rightarrow> \<forall>e \<in> set routes. \<not> route_matches ip e
    | Some x \<Rightarrow> x \<in> set routes \<and> route_matches ip x \<and> (\<forall>e \<in> set routes. route_matches ip e \<longrightarrow> plen e \<le> plen x)" for ip
    unfolding best_route_def
    using better_none [of ip None routes] better_choice [of ip None routes] by (auto split: option.split)
  with insert_routes_eq [OF table_inv_new(1) assms] table_inv_new(2) show ?thesis by (simp add: best_route_def) blast
qed

definition example_routes :: "Entry list" where
  "example_routes =
     [\<lparr>en_route_prefix = 0, en_prefix_length = 0, en_next_hop = None, en_interface_num = 0\<rparr>,
      \<lparr>en_route_prefix = 0x0a000000, en_prefix_length = 8, en_next_hop = None, en_interface_num = 1\<rparr>,
      \<lparr>en_route_prefix = 0x0a0b0000, en_prefix_length = 16, en_next_hop = None, en_interface_num = 2\<rparr>]"

theorem router_longest_prefix_match_witness:
  "\<exists>t. insert_routes example_routes Trie_new = Inr t \<and>
    map_option en_interface_num (longest_prefix_match t 0x0a0b0c0d) = Some 2 \<and>
    map_option en_interface_num (longest_prefix_match t 0x0a0c0c0d) = Some 1 \<and>
    map_option en_interface_num (longest_prefix_match t 0x0b0b0c0d) = Some 0"
proof -
  have "\<forall>e \<in> set example_routes. plen e \<le> 32" by (simp add: example_routes_def)
  then obtain t where "insert_routes example_routes Trie_new = Inr t"
    "longest_prefix_match t ip = best_route example_routes ip" for ip
    using router_longest_prefix_match by blast
  then show ?thesis by (simp add: best_route_def example_routes_def better_def route_matches_def)
qed

text \<open>
  A prefix length above 32 is not rejected: \<open>add_route\<close> accepts any 8-bit length, and \<open>insert\<close> then
  shifts by a negative amount.
\<close>

lemma long_prefix_undefined:
  assumes "numeric_resolver rs" and "32 < unat prefix_length"
  shows "add_route rs route_prefix prefix_length None interface_num r = Inl OutOfBounds"
  using assms by (simp add: add_route_def Address_ip_def ip_port_numeric trie_insert_def)

end
