(* ===== verification/Interface_Properties.thy ===== *)
theory Interface_Properties
  imports Interface_Contract
begin

text \<open>
  The properties of network interfaces: what becomes of the datagrams given to them, the rate of ARP
  requests, the lifetime of cache entries, the answer to a request, and what the polling loop sends.
\<close>

section \<open>Cache entries expire\<close>

definition fresh :: "ni_op list \<Rightarrow> NetworkInterface \<Rightarrow> bool" where
  "fresh h ni \<longleftrightarrow>
     (elapsed h + cache_ttl_ms < SIZE_MOD \<longrightarrow>
        ni_clock ni = elapsed h \<and> (\<forall>ip hw t. ni_arp_table ni ip = Some (hw, t) \<longrightarrow> t \<le> elapsed h + cache_ttl_ms))"

lemma send_fresh: "send_datagram d nh ni = Inr ni' \<Longrightarrow> ni_arp_table ni' = ni_arp_table ni \<and> ni_clock ni' = ni_clock ni"
  by (erule send_datagram_cases) simp_all

lemma learn_fresh:
  assumes "learn_and_reply m ni = Inr ni'" and "supported m"
  shows "ni_clock ni' = ni_clock ni" "ni_arp_table ni' = (ni_arp_table ni)
    (am_sender_ip_address m \<mapsto> (am_sender_ethernet_address m, add64 (ni_clock ni) cache_ttl_ms))"
  using assms by (cases rule: learn_and_reply_cases; simp)+

interpretation fresh: interface_invariant fresh
proof
  fix h ni f m ni'
  assume "fresh h ni" and m: "hears (ni_ethernet_address ni) f m" and l: "learn_and_reply m ni = Inr ni'"
  with learn_fresh [OF l hears_supported [OF m]] show "fresh (h @ [RecvFrame f]) ni'"
    by (auto simp: fresh_def size_arith split: if_splits)
next
  fix h ni ms
  assume "fresh h ni"
  then show "fresh (h @ [TickNI ms]) (ni_tick ms ni)"
    by (fastforce simp: fresh_def ni_tick_def Let_def size_arith split: option.splits if_splits)
qed (auto simp: fresh_def dest!: send_fresh)

section \<open>Properties\<close>

text \<open>
  C13. A network interface loses and duplicates no datagram: over any sequence of proper calls, none of
  which fails, the datagrams that were submitted are exactly those in outgoing frames and those in the
  queue, and every frame with a datagram goes from the interface's address to an Ethernet address that
  an ARP message heard by the interface claimed for the datagram's next hop.
\<close>

theorem interface_conserves_datagrams:
  assumes "ipv4_numeric a = Inr my_ip" and "list_all proper ops"
  shows "\<exists>ni. ni_run ops (NetworkInterface_init own a) = Inr ni \<and>
    in_interface ni = mset (map (IPv4Datagram_serialize \<circ> fst) (submitted ops)) \<and>
    (\<forall>f \<in> set (ni_frames_out ni). carries_ipv4 f \<longrightarrow> well_addressed own ops f)"
proof -
  let ?init = "NetworkInterface_init own a"
  have "ready ?init" using assms(1) by (simp add: ready_def NetworkInterface_init_def)
  with assms(2) obtain ni where run: "ni_run ops ?init = Inr ni" using run_returns by blast
  have "conserved [] ?init" "addressed own [] ?init"
    by (simp_all add: conserved_def in_interface_def addressed_def NetworkInterface_init_def)
  with run have "conserved ops ni" "addressed own ops ni"
    using conserved.run [of "[]"] addressed.run [of own "[]"] by force+
  with run show ?thesis by (auto simp: conserved_def addressed_def)
qed

definition example_datagram :: IPv4Datagram where
  "example_datagram = \<lparr>ipd_header = IPv4Header_default\<lparr>ip_len := 22, ip_dst := 0x0a000002\<rparr>,
     ipd_payload = [Buffer_of_string [1, 2]]\<rparr>"

lemma example_datagram_serializes:
  "IPv4Datagram_serialize example_datagram =
     Inr (BufferList_of_string (header_bytes (ip_header_sent (ipd_header example_datagram))) @ ipd_payload example_datagram)"
proof (rule IPv4Datagram_serialize_eq)
  show "BufferList_size (ipd_payload example_datagram) = unat (payload_length (ipd_header example_datagram))"
    by (simp add: example_datagram_def BufferList_size_def Buffer_size_def SIZE_MOD_def payload_length_def
        IPv4Header_default_def IPv4Header_LENGTH_def add64_def)
qed (simp_all add: example_datagram_def IPv4Header_default_def IPv4Header_LENGTH_def)

lemma example_sendable: "sendable (example_datagram, ipv4_address 0x0a000002 0)"
  using example_datagram_serializes by (simp add: sendable_def)

theorem interface_conserves_datagrams_witness:
  "\<exists>ni. ni_run [SendDgram example_datagram (ipv4_address 0x0a000002 0), TickNI 5, SendDgram example_datagram (ipv4_address 0x0a000002 0)]
      (NetworkInterface_init [2, 0, 0, 0, 0, 1] (ipv4_address 0x0a000001 0)) = Inr ni \<and>
    size (in_interface ni) = 2"
  using interface_conserves_datagrams [of "ipv4_address 0x0a000001 0" "0x0a000001"
      "[SendDgram example_datagram (ipv4_address 0x0a000002 0), TickNI 5, SendDgram example_datagram (ipv4_address 0x0a000002 0)]"
      "[2, 0, 0, 0, 0, 1]"] example_sendable
  by auto

text \<open>
  C14. ARP requests are rate limited: however often datagrams for the same next hop are sent, the number
  of requests for it is at most one per broadcast interval of elapsed time, plus the first.
\<close>

theorem arp_requests_rate_limited:
  assumes "ipv4_numeric a = Inr my_ip" and "list_all proper ops" and "elapsed ops < SIZE_MOD"
  shows "\<exists>ni. ni_run ops (NetworkInterface_init own a) = Inr ni \<and>
    requests own my_ip ip ni \<le> elapsed ops div broadcast_interval_ms + 1"
proof -
  let ?init = "NetworkInterface_init own a"
  have "ready ?init" "rate_limited own my_ip [] ?init"
    using assms(1) by (simp_all add: ready_def rate_limited_def limited_def requests_def NetworkInterface_init_def)
  with assms(2) obtain ni where run: "ni_run ops ?init = Inr ni" and "rate_limited own my_ip ops ni"
    using run_returns rate_limited.run [of own my_ip "[]" ?init ops] by force
  then have l: "limited own my_ip ip ni" and "ni_clock ni = elapsed ops" using assms(3) by (auto simp: rate_limited_def)
  then have "requests own my_ip ip ni \<le> elapsed ops div broadcast_interval_ms + 1"
    using div_le_mono [of _ "elapsed ops" broadcast_interval_ms] by (fastforce simp: limited_def split: option.splits)
  with run show ?thesis by blast
qed

theorem arp_requests_rate_limited_witness:
  "\<exists>ni. ni_run [SendDgram example_datagram (ipv4_address 0x0a000002 0), TickNI 4999, SendDgram example_datagram (ipv4_address 0x0a000002 0)]
      (NetworkInterface_init [2, 0, 0, 0, 0, 1] (ipv4_address 0x0a000001 0)) = Inr ni \<and>
    requests [2, 0, 0, 0, 0, 1] 0x0a000001 0x0a000002 ni \<le> 1"
  using arp_requests_rate_limited [of "ipv4_address 0x0a000001 0" "0x0a000001"
      "[SendDgram example_datagram (ipv4_address 0x0a000002 0), TickNI 4999, SendDgram example_datagram (ipv4_address 0x0a000002 0)]"
      "[2, 0, 0, 0, 0, 1]" "0x0a000002"] example_sendable
  by (simp add: SIZE_MOD_def broadcast_interval_ms_def)

text \<open>
  Cache entries live 30 seconds: after a tick of that length with no ARP message in between, no
  address is resolved, so nothing is sent on an old mapping.
\<close>

lemma arp_cache_expires:
  assumes "ni_run ops (NetworkInterface_init own a) = Inr ni" and "elapsed ops + ms + cache_ttl_ms < SIZE_MOD"
    and "cache_ttl_ms \<le> ms"
  shows "resolved (ni_tick ms ni) ip = None"
proof -
  have "fresh [] (NetworkInterface_init own a)" by (simp add: fresh_def NetworkInterface_init_def)
  from fresh.run [OF this assms(1)] have "ni_clock ni = elapsed ops"
    "\<forall>ip hw t. ni_arp_table ni ip = Some (hw, t) \<longrightarrow> t \<le> elapsed ops + cache_ttl_ms"
    using assms(2) by (simp_all add: fresh_def)
  with assms(2,3) show ?thesis
    by (force simp: resolved_def ni_tick_def Let_def size_arith split: option.splits if_splits)
qed

lemma example_request_proper: "proper (RecvFrame (request_frame [2, 0, 0, 0, 0, 2] 0x0a000002 0x0a000001))"
  by (simp add: request_frame_def BufferList_of_string_def BufferList_of_Buffer_def BufferList_append_def
      BufferList_to_Buffer_def length_ARPMessage_bytes ARPMessage_wf_def arp_request_def ARPMessage_default_def SIZE_MOD_def)

lemma arp_cache_expires_witness:
  "\<exists>ni. ni_run [RecvFrame (request_frame [2, 0, 0, 0, 0, 2] 0x0a000002 0x0a000001)]
      (NetworkInterface_init [2, 0, 0, 0, 0, 1] (ipv4_address 0x0a000001 0)) = Inr ni \<and>
    resolved (ni_tick 30000 ni) 0x0a000002 = None"
proof -
  let ?ops = "[RecvFrame (request_frame [2, 0, 0, 0, 0, 2] 0x0a000002 0x0a000001)]"
    and ?init = "NetworkInterface_init [2, 0, 0, 0, 0, 1] (ipv4_address 0x0a000001 0)"
  obtain ni where "ni_run ?ops ?init = Inr ni"
    using run_returns [of ?init ?ops] example_request_proper by (auto simp: ready_def NetworkInterface_init_def)
  with arp_cache_expires [OF this, of 30000 "0x0a000002"] show ?thesis by (simp add: cache_ttl_ms_def SIZE_MOD_def)
qed

text \<open>
  An ARP request for the interface's own address is answered and learned from: the reply goes to
  the sender with the two addresses swapped, and the sender's mapping is in the cache for 30 seconds.
\<close>

lemma arp_request_answered:
  assumes "ipv4_numeric (ni_ip_address ni) = Inr my_ip" and "length sender = 6" and "ni_dgram_pending ni = []"
  shows "recv_frame (request_frame sender sender_ip my_ip) ni =
    Inr (None, push_frame (reply_frame (ni_ethernet_address ni) my_ip (arp_request sender sender_ip my_ip))
      (ni\<lparr>ni_arp_table := (ni_arp_table ni)(sender_ip \<mapsto> (sender, add64 (ni_clock ni) cache_ttl_ms))\<rparr>))"
proof -
  let ?m = "arp_request sender sender_ip my_ip"
  have "ARPMessage_wf ?m" using assms(2) by (simp add: ARPMessage_wf_def arp_request_def ARPMessage_default_def)
  have parse: "ARPMessage_parse ARPMessage_default (Buffer_of_string (ARPMessage_bytes ?m)) = Inr (NoError, ?m)"
    using ARPMessage_parse_bytes [OF supported_request \<open>ARPMessage_wf ?m\<close>] .
  have "supported (arp_reply (ni_ethernet_address ni) my_ip ?m)"
    by (simp add: arp_reply_def arp_request_def supported_def ARPMessage_default_def)
  from ARPMessage_serialize_eq [OF this] have learn: "learn_and_reply ?m ni =
      Inr (push_frame (reply_frame (ni_ethernet_address ni) my_ip ?m)
        (ni\<lparr>ni_arp_table := (ni_arp_table ni)(sender_ip \<mapsto> (sender, add64 (ni_clock ni) cache_ttl_ms))\<rparr>))"
    using assms(1) by (simp add: learn_and_reply_def Let_def arp_reply_def reply_frame_def arp_request_def)
  with parse assms(3) show ?thesis
    by (simp add: recv_frame_def Let_def request_frame_def BufferList_of_string_def BufferList_of_Buffer_def
        BufferList_append_def BufferList_to_Buffer_def poll_pending.simps)
qed

lemma arp_request_answered_witness:
  "let ni = NetworkInterface_init [2, 0, 0, 0, 0, 1] (ipv4_address 0x0a000001 0) in
   recv_frame (request_frame [2, 0, 0, 0, 0, 2] 0x0a000002 0x0a000001) ni =
    Inr (None, push_frame (reply_frame [2, 0, 0, 0, 0, 1] 0x0a000001 (arp_request [2, 0, 0, 0, 0, 2] 0x0a000002 0x0a000001))
      (ni\<lparr>ni_arp_table := [0x0a000002 \<mapsto> ([2, 0, 0, 0, 0, 2], add64 0 cache_ttl_ms)]\<rparr>))"
  using arp_request_answered [of "NetworkInterface_init [2, 0, 0, 0, 0, 1] (ipv4_address 0x0a000001 0)" "0x0a000001"
      "[2, 0, 0, 0, 0, 2]" "0x0a000002"]
  by (simp add: NetworkInterface_init_def)

text \<open>Two datagrams wait; the next hop of the second one is resolved, or that of both.\<close>

definition waiting_interface :: "(32 word \<rightharpoonup> EthernetAddress \<times> size_t) \<Rightarrow> NetworkInterface" where
  "waiting_interface table = (NetworkInterface_init [2, 0, 0, 0, 0, 1] (ipv4_address 0x0a000001 0))
     \<lparr>ni_arp_table := table, ni_last_broadcast_time := [0x0a000003 \<mapsto> 0],
      ni_dgram_pending := [(example_datagram, ipv4_address 0x0a000003 0), (example_datagram, ipv4_address 0x0a000002 0)]\<rparr>"

text \<open>
  C15. Once every queued datagram's next hop is resolved, the polling loop sends them all, in the order
  they were queued, and leaves the queue empty.
\<close>

theorem poll_pending_flushes:
  assumes "\<forall>(d, nh) \<in> set (ni_dgram_pending ni). ipv4_numeric nh = Inr (ip_of nh) \<and>
      resolved ni (ip_of nh) = Some (hw_of (ip_of nh)) \<and> IPv4Datagram_serialize d = Inr (bytes_of d)"
  shows "poll_pending ni = Inr (ni\<lparr>ni_dgram_pending := [], ni_frames_out := ni_frames_out ni @
    map (\<lambda>(d, nh). ipv4_frame (ni_ethernet_address ni) (hw_of (ip_of nh)) (bytes_of d)) (ni_dgram_pending ni)\<rparr>)"
  using assms
proof (induction "ni_dgram_pending ni" arbitrary: ni)
  case Nil
  then show ?case by (simp add: poll_pending.simps [of ni])
next
  case (Cons x rest)
  obtain d nh where x: "x = (d, nh)" by (cases x)
  let ?ni = "pop_pending (push_frame (ipv4_frame (ni_ethernet_address ni) (hw_of (ip_of nh)) (bytes_of d)) ni)"
  have p: "ni_dgram_pending ni = (d, nh) # rest" using Cons.hyps(2) x by simp
  have x_ok: "ipv4_numeric nh = Inr (ip_of nh)" "resolved ni (ip_of nh) = Some (hw_of (ip_of nh))"
    "IPv4Datagram_serialize d = Inr (bytes_of d)" using Cons.prems p by auto
  then have step: "poll_pending ni = poll_pending ?ni"
    by (subst poll_pending.simps) (simp add: p send_datagram_eq [OF x_ok(1)])
  have "resolved ?ni = resolved ni" by (simp add: resolved_def fun_eq_iff split: option.splits)
  then have "poll_pending ?ni = Inr (?ni\<lparr>ni_dgram_pending := [], ni_frames_out := ni_frames_out ?ni @
      map (\<lambda>(d, nh). ipv4_frame (ni_ethernet_address ?ni) (hw_of (ip_of nh)) (bytes_of d)) (ni_dgram_pending ?ni)\<rparr>)"
    using Cons.prems p by (intro Cons.hyps(1)) (simp_all add: p)
  then show ?case unfolding step by (simp add: p push_frame_def pop_pending_def)
qed

theorem poll_pending_flushes_witness:
  "\<exists>ni bl. poll_pending (waiting_interface (\<lambda>_. Some ([2, 0, 0, 0, 0, 9], 30000))) = Inr ni \<and> ni_dgram_pending ni = [] \<and>
    ni_frames_out ni = replicate 2 (ipv4_frame [2, 0, 0, 0, 0, 1] [2, 0, 0, 0, 0, 9] bl)"
proof -
  obtain bl where "IPv4Datagram_serialize example_datagram = Inr bl" using example_datagram_serializes by blast
  with poll_pending_flushes [of "waiting_interface (\<lambda>_. Some ([2, 0, 0, 0, 0, 9], 30000))"
      "\<lambda>nh. case ipv4_numeric nh of Inr ip \<Rightarrow> ip | _ \<Rightarrow> 0" "\<lambda>_. [2, 0, 0, 0, 0, 9]" "\<lambda>_. bl"]
  show ?thesis
    by (simp add: waiting_interface_def NetworkInterface_init_def resolved_def numeral_2_eq_2) blast
qed

text \<open>
  C35. Head-of-line blocking: when the datagram at the head of the queue is still unresolved (and was
  asked for within the last five seconds), the polling loop moves it to the back and stops. Nothing is
  sent, not even the datagrams behind it whose next hop an ARP message has just resolved.
\<close>

theorem unresolved_head_blocks:
  assumes "ni_dgram_pending ni = (d, nh) # rest" and "ipv4_numeric nh = Inr ip"
    and "resolved ni ip = None" and "asked_recently ni ip"
  shows "poll_pending ni = Inr (ni\<lparr>ni_dgram_pending := rest @ [(d, nh)]\<rparr>)"
  using assms
  by (subst poll_pending.simps) (simp add: send_datagram_eq [OF assms(2)] queue_and_request_eq pop_pending_def)

theorem unresolved_head_blocks_witness:
  "poll_pending (waiting_interface [0x0a000002 \<mapsto> ([2, 0, 0, 0, 0, 2], 30000)]) =
    Inr ((waiting_interface [0x0a000002 \<mapsto> ([2, 0, 0, 0, 0, 2], 30000)])
      \<lparr>ni_dgram_pending := [(example_datagram, ipv4_address 0x0a000002 0), (example_datagram, ipv4_address 0x0a000003 0)]\<rparr>) \<and>
   resolved (waiting_interface [0x0a000002 \<mapsto> ([2, 0, 0, 0, 0, 2], 30000)]) 0x0a000002 = Some [2, 0, 0, 0, 0, 2]"
  using unresolved_head_blocks [of "waiting_interface [0x0a000002 \<mapsto> ([2, 0, 0, 0, 0, 2], 30000)]" example_datagram
      "ipv4_address 0x0a000003 0" "[(example_datagram, ipv4_address 0x0a000002 0)]" "0x0a000003"]
  by (simp add: waiting_interface_def NetworkInterface_init_def resolved_def asked_recently_def broadcast_interval_ms_def
      sub64_def)

end
