(* ===== verification/Router_Properties.thy ===== *)
theory Router_Properties
  imports Route_Table Interface_Properties
begin

text \<open>
  Forwarding: what \<open>Router::route\<close> does with the datagrams its interfaces have received, composed of the
  route table and the contract of the network interfaces.
\<close>

section \<open>One datagram\<close>

text \<open>Where a datagram goes: interface, the datagram with its time to live decreased, next hop.\<close>

definition forward :: "Trie \<Rightarrow> IPv4Datagram \<Rightarrow> (size_t \<times> IPv4Datagram \<times> Address) option" where
  "forward t d =
     (if ip_ttl (ipd_header d) \<le> 1 then None
      else map_option (\<lambda>e.
        (en_interface_num e,
         d\<lparr>ipd_header := (ipd_header d)\<lparr>ip_ttl := ip_ttl (ipd_header d) - 1\<rparr>\<rparr>,
         case en_next_hop e of Some nh \<Rightarrow> nh | None \<Rightarrow> ipv4_address (ip_dst (ipd_header d)) 0))
        (longest_prefix_match t (ip_dst (ipd_header d))))"

lemma route_one_eq:
  "route_one_datagram d r =
     (case forward (rt_route_table r) d of None \<Rightarrow> Inr r | Some (n, d', nh) \<Rightarrow> send_on n d' nh r)"
  by (simp add: route_one_datagram_def forward_def Let_def split: option.split)

fun forwarded_to :: "size_t \<Rightarrow> Trie \<Rightarrow> IPv4Datagram list \<Rightarrow> BufferList result list" where
  "forwarded_to j t [] = []"
| "forwarded_to j t (d # ds) =
     (case forward t d of
        Some (n, d', nh) \<Rightarrow> if n = j then IPv4Datagram_serialize d' # forwarded_to j t ds else forwarded_to j t ds
      | None \<Rightarrow> forwarded_to j t ds)"

lemma forwarded_to_append [simp]: "forwarded_to j t (xs @ ys) = forwarded_to j t xs @ forwarded_to j t ys"
  by (induction xs) (simp_all split: option.split)

section \<open>The loops of route\<close>

abbreviation ifc :: "Router \<Rightarrow> size_t \<Rightarrow> NetworkInterface" where
  "ifc r j \<equiv> an_interface (rt_interfaces r ! j)"

definition all_ready :: "Router \<Rightarrow> bool" where
  "all_ready r \<longleftrightarrow> (\<forall>j < length (rt_interfaces r). ready (ifc r j))"

definition deliverable :: "Router \<Rightarrow> IPv4Datagram \<Rightarrow> bool" where
  "deliverable r d \<longleftrightarrow>
     (case forward (rt_route_table r) d of None \<Rightarrow> True | Some (n, d', nh) \<Rightarrow> n < length (rt_interfaces r) \<and> sendable (d', nh))"

text \<open>\<open>routed r ds r'\<close>: from \<open>r\<close> to \<open>r'\<close> exactly the datagrams \<open>ds\<close> were forwarded.\<close>

definition routed :: "Router \<Rightarrow> IPv4Datagram list \<Rightarrow> Router \<Rightarrow> bool" where
  "routed r ds r' \<longleftrightarrow>
     length (rt_interfaces r') = length (rt_interfaces r) \<and> rt_route_table r' = rt_route_table r \<and> all_ready r' \<and>
     (\<forall>j < length (rt_interfaces r).
        in_interface (ifc r' j) = in_interface (ifc r j) + mset (forwarded_to j (rt_route_table r) ds))"

lemma routed_refl: "all_ready r \<Longrightarrow> routed r [] r"
  by (simp add: routed_def)

lemma routed_trans: "\<lbrakk>routed r ds r'; routed r' ds' r''\<rbrakk> \<Longrightarrow> routed r (ds @ ds') r''"
  by (simp add: routed_def)

lemma routed_keeps:
  assumes "routed r ds r'"
  shows "length (rt_interfaces r') = length (rt_interfaces r)" "all_ready r'" "deliverable r' d \<longleftrightarrow> deliverable r d"
  using assms by (auto simp: routed_def deliverable_def split: option.split)

lemma route_one_routed:
  assumes "all_ready r" and "deliverable r d"
  shows "\<exists>r'. route_one_datagram d r = Inr r' \<and> routed r [d] r'"
proof (cases "forward (rt_route_table r) d")
  case None
  with assms(1) show ?thesis by (simp add: route_one_eq routed_def)
next
  case (Some x)
  obtain n d' nh where x: "x = (n, d', nh)" by (cases x)
  with Some assms(2) have n: "n < length (rt_interfaces r)" and "sendable (d', nh)" by (simp_all add: deliverable_def)
  with assms(1) obtain ni where ni: "send_datagram d' nh (ifc r n) = Inr ni" "ready ni"
    using send_returns by (metis all_ready_def)
  with Some x n assms(1) send_in_interface [OF ni(1)] show ?thesis
    by (auto simp: route_one_eq send_on_def routed_def all_ready_def nth_list_update)
qed

lemma routed_pop: "routed r ds r' \<Longrightarrow> i < length (rt_interfaces r) \<Longrightarrow> routed r ds (pop_queue i r')"
  by (auto simp: routed_def all_ready_def pop_queue_def nth_list_update)

lemma queue_of_pop:
  "i < length (rt_interfaces r) \<Longrightarrow> queue_of j (pop_queue i r) = (if j = i then tl (queue_of i r) else queue_of j r)"
  by (simp add: queue_of_def pop_queue_def)

lemma route_queue_routed:
  assumes "all_ready r" and "i < length (rt_interfaces r)" and "\<forall>d \<in> set (queue_of i r). deliverable r d"
  shows "\<exists>r'. route_queue i r = Inr r' \<and> routed r (queue_of i r) r' \<and>
    (\<forall>j. queue_of j r' = (if j = i then [] else queue_of j r))"
  using assms
proof (induction "queue_of i r" arbitrary: r)
  case Nil
  then show ?case by (simp add: route_queue.simps [of i r] routed_refl)
next
  case (Cons d ds)
  then have q: "queue_of i r = d # ds" by simp
  with Cons.prems obtain r1 where r1: "route_one_datagram d r = Inr r1" "routed r [d] r1"
    using route_one_routed [of r d] by auto
  let ?r = "pop_queue i r1"
  note same = route_one_queues [OF r1(1)]
  have pop: "queue_of j ?r = (if j = i then ds else queue_of j r)" for j
    using queue_of_pop [of i r1 j] same q Cons.prems(2) by simp
  have routed: "routed r [d] ?r" by (rule routed_pop [OF r1(2) Cons.prems(2)])
  have "all_ready ?r" "i < length (rt_interfaces ?r)" "\<forall>d \<in> set (queue_of i ?r). deliverable ?r d"
    using Cons.prems(2,3) q pop routed_keeps [OF routed] by auto
  with Cons.hyps(1) [of ?r] pop obtain r' where r': "route_queue i ?r = Inr r'" "routed ?r ds r'"
    "\<forall>j. queue_of j r' = (if j = i then [] else queue_of j ?r)" by auto
  have "route_queue i r = Inr r'" using Cons.prems(2) q r1(1) r'(1) by (simp add: route_queue.simps [of i r])
  with routed_trans [OF routed r'(2)] r'(3) pop q show ?case by simp
qed

lemma route_interfaces_routed:
  assumes "all_ready r" and "distinct is" and "\<forall>i \<in> set is. i < length (rt_interfaces r) \<and> (\<forall>d \<in> set (queue_of i r). deliverable r d)"
  shows "\<exists>r'. route_interfaces is r = Inr r' \<and> routed r (concat (map (\<lambda>i. queue_of i r) is)) r' \<and>
    (\<forall>j. queue_of j r' = (if j \<in> set is then [] else queue_of j r))"
  using assms
proof (induction "is" arbitrary: r)
  case (Cons i "is")
  then obtain r1 where r1: "route_queue i r = Inr r1" "routed r (queue_of i r) r1"
    "\<forall>j. queue_of j r1 = (if j = i then [] else queue_of j r)" using route_queue_routed [of r i] by auto
  have "\<forall>k \<in> set is. k < length (rt_interfaces r1) \<and> (\<forall>d \<in> set (queue_of k r1). deliverable r1 d)"
    using Cons.prems(3) r1(3) routed_keeps [OF r1(2)] by auto
  moreover have "all_ready r1" by (rule routed_keeps(2) [OF r1(2)])
  ultimately obtain r' where r': "route_interfaces is r1 = Inr r'" "routed r1 (concat (map (\<lambda>i. queue_of i r1) is)) r'"
    "\<forall>j. queue_of j r' = (if j \<in> set is then [] else queue_of j r1)" using Cons.IH [of r1] Cons.prems(2) by auto
  have "map (\<lambda>i. queue_of i r1) is = map (\<lambda>i. queue_of i r) is" using Cons.prems(2) r1(3) by auto
  with routed_trans [OF r1(2) r'(2)] have "routed r (concat (map (\<lambda>i. queue_of i r) (i # is))) r'"
    by (simp only: list.map concat.simps)
  moreover have "route_interfaces (i # is) r = Inr r'" using r1(1) r'(1) by simp
  ultimately show ?case using r1(3) r'(3) by auto
qed (simp add: routed_refl)

section \<open>Properties\<close>

text \<open>
  C12. The router forwards every datagram exactly once: \<open>route\<close> returns with all queues of received
  datagrams empty, and each interface has exactly the datagrams in addition whose longest matching
  route leads to it and whose time to live was above one, with the time to live decreased by one.
\<close>

theorem router_forwards:
  assumes "\<forall>i < length (rt_interfaces r). ready (ifc r i) \<and> (\<forall>d \<in> set (queue_of i r). deliverable r d)"
  shows "\<exists>r'. route r = Inr r' \<and> (\<forall>i < length (rt_interfaces r). queue_of i r' = [] \<and>
    in_interface (ifc r' i) = in_interface (ifc r i) +
      mset (forwarded_to i (rt_route_table r) (concat (map (\<lambda>k. queue_of k r) [0..<length (rt_interfaces r)]))))"
proof -
  have "all_ready r" using assms by (simp add: all_ready_def)
  then show ?thesis
    using route_interfaces_routed [of r "[0..<length (rt_interfaces r)]"] assms by (auto simp: route_def routed_def)
qed

definition example_router :: Router where
  "example_router =
     \<lparr>rt_interfaces =
        [\<lparr>an_interface = NetworkInterface_init [2, 0, 0, 0, 0, 1] (ipv4_address 0x0a000001 0),
          an_datagrams_out = [example_datagram]\<rparr>,
         \<lparr>an_interface = NetworkInterface_init [2, 0, 0, 0, 0, 2] (ipv4_address 0x0b000001 0), an_datagrams_out = []\<rparr>],
      rt_route_table = \<lparr>trie_root = TrieNode_new, trie_default =
        Some \<lparr>en_route_prefix = 0, en_prefix_length = 0, en_next_hop = None, en_interface_num = 1\<rparr>\<rparr>\<rparr>"

definition example_forwarded :: IPv4Datagram where
  "example_forwarded = example_datagram\<lparr>ipd_header := (ipd_header example_datagram)\<lparr>ip_ttl := 127\<rparr>\<rparr>"

lemma example_forward:
  "forward (rt_route_table example_router) example_datagram = Some (1, example_forwarded, ipv4_address 0x0a000002 0)"
  by (simp add: forward_def example_router_def example_forwarded_def longest_prefix_match_def lpm_loop.simps)
    (simp add: example_datagram_def IPv4Header_default_def DEFAULT_TTL_def word_le_nat_alt)

lemma example_forwarded_sendable: "sendable (example_forwarded, ipv4_address 0x0a000002 0)"
proof -
  have "IPv4Datagram_serialize example_forwarded =
     Inr (BufferList_of_string (header_bytes (ip_header_sent (ipd_header example_forwarded))) @ ipd_payload example_forwarded)"
  proof (rule IPv4Datagram_serialize_eq)
    show "BufferList_size (ipd_payload example_forwarded) = unat (payload_length (ipd_header example_forwarded))"
      by (simp add: example_forwarded_def example_datagram_def BufferList_size_def Buffer_size_def SIZE_MOD_def
          payload_length_def IPv4Header_default_def IPv4Header_LENGTH_def add64_def)
  qed (simp_all add: example_forwarded_def example_datagram_def IPv4Header_default_def IPv4Header_LENGTH_def)
  then show ?thesis by (simp add: sendable_def)
qed

theorem router_forwards_witness:
  "\<exists>r'. route example_router = Inr r' \<and> queue_of 0 r' = [] \<and> in_interface (ifc r' 0) = {#} \<and>
    in_interface (ifc r' 1) = {#IPv4Datagram_serialize example_forwarded#}"
proof -
  have len: "length (rt_interfaces example_router) = 2" and q: "queue_of 0 example_router = [example_datagram]"
      "queue_of (Suc 0) example_router = []"
    by (simp_all add: example_router_def queue_of_def)
  have ini: "in_interface (ifc example_router i) = {#} \<and> ready (ifc example_router i)" if "i < 2" for i
    using that by (auto simp: example_router_def in_interface_def ready_def NetworkInterface_init_def less_2_cases_iff)
  have "deliverable example_router example_datagram"
    using len example_forward example_forwarded_sendable by (simp add: deliverable_def)
  with ini q have "\<forall>i < length (rt_interfaces example_router).
      ready (ifc example_router i) \<and> (\<forall>d \<in> set (queue_of i example_router). deliverable example_router d)"
    by (auto simp: len less_2_cases_iff)
  from router_forwards [OF this] ini [of 0] ini [of 1] show ?thesis
    by (simp add: len q example_forward upt_rec numeral_2_eq_2) (auto simp: q less_Suc_eq)
qed

end
