(* ===== verification/Adapters.thy ===== *)
theory Adapters
  imports Network_Interface TCP_Segment
begin

text \<open>
  The adapters that carry TCP segments: in IPv4 datagrams (tcp\_helpers/tcp\_over\_ip.cc), over a UDP
  socket (fd\_adapter.hh, fd\_adapter.cc), over a TUN device and, through a network interface, over a
  TAP device (tuntap\_adapter.hh, tuntap\_adapter.cc), and the wrapper that drops segments at random
  (lossy\_fd\_adapter.hh).

  What a device or socket delivers is an argument of the read operations, what is written to it is part
  of their results; a random number is an argument. \<open>resolver\<close> is the parameter of the address theory.
\<close>

section \<open>Configuration\<close>

record FdAdapterConfig =
  fc_source :: Address
  fc_destination :: Address
  fc_loss_rate_dn :: "16 word"
  fc_loss_rate_up :: "16 word"

definition FdAdapterConfig_new :: "resolver \<Rightarrow> FdAdapterConfig result" where
  "FdAdapterConfig_new rs =
     result_bind (Address_of_ip rs ''0'' 0) (\<lambda>source.
     result_bind (Address_of_ip rs ''0'' 0) (\<lambda>destination.
       Inr \<lparr>fc_source = source, fc_destination = destination, fc_loss_rate_dn = 0, fc_loss_rate_up = 0\<rparr>))"

record FdAdapterBase =
  fa_cfg :: FdAdapterConfig
  fa_listen :: bool

definition set_listening :: "bool \<Rightarrow> FdAdapterBase \<Rightarrow> FdAdapterBase" where
  "set_listening l a = a\<lparr>fa_listen := l\<rparr>"

definition base_tick :: "size_t \<Rightarrow> FdAdapterBase \<Rightarrow> FdAdapterBase" where
  "base_tick ms a = a"

section \<open>TCP in IPv4\<close>

text \<open>A comparison with an address of the configuration that is only made when not listening.\<close>

definition foreign :: "FdAdapterBase \<Rightarrow> 32 word \<Rightarrow> Address \<Rightarrow> bool result" where
  "foreign a ip expected =
     (if fa_listen a then Inr False else result_bind (ipv4_numeric expected) (\<lambda>n. Inr (ip \<noteq> n)))"

definition adopt_peer :: "resolver \<Rightarrow> IPv4Header \<Rightarrow> TCPHeader \<Rightarrow> FdAdapterBase \<Rightarrow> FdAdapterBase result" where
  "adopt_peer rs ip th a =
     result_bind (Address_port rs (fc_source (fa_cfg a))) (\<lambda>port.
     result_bind (Address_of_ip rs (inet_ntoa (ip_dst ip)) port) (\<lambda>source.
     result_bind (Address_of_ip rs (inet_ntoa (ip_src ip)) (th_sport th)) (\<lambda>destination.
       Inr (set_listening False (a\<lparr>fa_cfg := (fa_cfg a)\<lparr>fc_source := source, fc_destination := destination\<rparr>\<rparr>)))))"

definition unwrap_tcp_in_ip ::
  "resolver \<Rightarrow> IPv4Datagram \<Rightarrow> FdAdapterBase \<Rightarrow> (TCPSegment option \<times> FdAdapterBase) result" where
  "unwrap_tcp_in_ip rs ip_dgram a =
     result_bind (foreign a (ip_dst (ipd_header ip_dgram)) (fc_source (fa_cfg a))) (\<lambda>not_for_us.
     if not_for_us then Inr (None, a) else
     result_bind (foreign a (ip_src (ipd_header ip_dgram)) (fc_destination (fa_cfg a))) (\<lambda>not_from_peer.
     if not_from_peer then Inr (None, a) else
     if ip_proto (ipd_header ip_dgram) \<noteq> PROTO_TCP then Inr (None, a) else
     result_bind (BufferList_to_Buffer (ipd_payload ip_dgram)) (\<lambda>payload.
     result_bind (TCPSegment_parse TCPSegment_default payload (pseudo_cksum (ipd_header ip_dgram))) (\<lambda>(res, tcp_seg).
     if res \<noteq> NoError then Inr (None, a) else
     result_bind (Address_port rs (fc_source (fa_cfg a))) (\<lambda>source_port.
     if th_dport (ts_header tcp_seg) \<noteq> source_port then Inr (None, a) else
     if fa_listen a \<and> \<not> (th_syn (ts_header tcp_seg) \<and> \<not> th_rst (ts_header tcp_seg)) then Inr (None, a) else
     result_bind (if fa_listen a then adopt_peer rs (ipd_header ip_dgram) (ts_header tcp_seg) a else Inr a) (\<lambda>a.
     result_bind (Address_port rs (fc_destination (fa_cfg a))) (\<lambda>destination_port.
     if th_sport (ts_header tcp_seg) \<noteq> destination_port then Inr (None, a) else Inr (Some tcp_seg, a))))))))"

definition set_ports :: "resolver \<Rightarrow> FdAdapterBase \<Rightarrow> TCPSegment \<Rightarrow> TCPSegment result" where
  "set_ports rs a seg =
     result_bind (Address_port rs (fc_source (fa_cfg a))) (\<lambda>sport.
     result_bind (Address_port rs (fc_destination (fa_cfg a))) (\<lambda>dport.
       Inr (seg\<lparr>ts_header := (ts_header seg)\<lparr>th_sport := sport, th_dport := dport\<rparr>\<rparr>)))"

definition wrap_tcp_in_ip :: "resolver \<Rightarrow> TCPSegment \<Rightarrow> FdAdapterBase \<Rightarrow> (IPv4Datagram \<times> TCPSegment) result" where
  "wrap_tcp_in_ip rs seg a =
     result_bind (set_ports rs a seg) (\<lambda>seg.
     result_bind (ipv4_numeric (fc_source (fa_cfg a))) (\<lambda>src.
     result_bind (ipv4_numeric (fc_destination (fa_cfg a))) (\<lambda>dst.
     let h = IPv4Header_default\<lparr>ip_src := src, ip_dst := dst\<rparr>;
         h = h\<lparr>ip_len := word_of_nat (unat (ip_hlen h) * 4 + unat (th_doff (ts_header seg)) * 4 + Buffer_size (ts_payload seg))\<rparr>
     in result_bind (TCPSegment_serialize seg (pseudo_cksum h)) (\<lambda>payload.
        Inr (\<lparr>ipd_header = h, ipd_payload = payload\<rparr>, seg)))))"

section \<open>TCP over UDP\<close>

text \<open>\<open>read\<close>: the datagram received from the socket, its source and its payload, is the argument.\<close>

definition udp_read :: "Address \<times> bytes \<Rightarrow> FdAdapterBase \<Rightarrow> (TCPSegment option \<times> FdAdapterBase) result" where
  "udp_read datagram a =
     (let (source_address, payload) = datagram in
      if \<not> fa_listen a \<and> \<not> Address_eq source_address (fc_destination (fa_cfg a)) then Inr (None, a)
      else result_bind (TCPSegment_parse TCPSegment_default (Buffer_of_string payload) 0) (\<lambda>(res, seg).
        if res \<noteq> NoError then Inr (None, a)
        else if fa_listen a then
          if th_syn (ts_header seg) \<and> \<not> th_rst (ts_header seg)
          then Inr (Some seg, set_listening False (a\<lparr>fa_cfg := (fa_cfg a)\<lparr>fc_destination := source_address\<rparr>\<rparr>))
          else Inr (None, a)
        else Inr (Some seg, a)))"

text \<open>\<open>write\<close>: destination and payload for the socket, and the segment with its ports set.\<close>

definition udp_write :: "resolver \<Rightarrow> TCPSegment \<Rightarrow> FdAdapterBase \<Rightarrow> ((Address \<times> BufferList) \<times> TCPSegment) result" where
  "udp_write rs seg a =
     result_bind (set_ports rs a seg) (\<lambda>seg.
     result_bind (TCPSegment_serialize seg 0) (\<lambda>payload.
       Inr ((fc_destination (fa_cfg a), payload), seg)))"

section \<open>TCP over IPv4 over a TUN device\<close>

definition tun_read :: "resolver \<Rightarrow> bytes \<Rightarrow> FdAdapterBase \<Rightarrow> (TCPSegment option \<times> FdAdapterBase) result" where
  "tun_read rs input a =
     result_bind (IPv4Datagram_parse IPv4Datagram_default (Buffer_of_string input)) (\<lambda>(res, ip_dgram).
       if res \<noteq> NoError then Inr (None, a) else unwrap_tcp_in_ip rs ip_dgram a)"

definition tun_write :: "resolver \<Rightarrow> TCPSegment \<Rightarrow> FdAdapterBase \<Rightarrow> (BufferList \<times> TCPSegment) result" where
  "tun_write rs seg a =
     result_bind (wrap_tcp_in_ip rs seg a) (\<lambda>(ip_dgram, seg).
     result_bind (IPv4Datagram_serialize ip_dgram) (\<lambda>out. Inr (out, seg)))"

section \<open>TCP over IPv4 over Ethernet\<close>

text \<open>\<open>ea_tap_out\<close>: what was written to the TAP device so far.\<close>

record TCPOverIPv4OverEthernetAdapter =
  ea_base :: FdAdapterBase
  ea_interface :: NetworkInterface
  ea_next_hop :: Address
  ea_tap_out :: "BufferList list"

definition EthernetFrame_default :: EthernetFrame where
  "EthernetFrame_default =
     \<lparr>ef_header = \<lparr>eh_dst = replicate 6 0, eh_src = replicate 6 0, eh_type = 0\<rparr>, ef_payload = []\<rparr>"

definition EthernetAdapter_new ::
  "resolver \<Rightarrow> EthernetAddress \<Rightarrow> Address \<Rightarrow> Address \<Rightarrow> TCPOverIPv4OverEthernetAdapter result" where
  "EthernetAdapter_new rs eth_address ip_address next_hop =
     result_bind (FdAdapterConfig_new rs) (\<lambda>cfg.
     result_bind (NetworkInterface_new rs eth_address ip_address) (\<lambda>interface.
       Inr \<lparr>ea_base = \<lparr>fa_cfg = cfg, fa_listen = False\<rparr>, ea_interface = interface, ea_next_hop = next_hop,
            ea_tap_out = [EthernetFrame_serialize EthernetFrame_default]\<rparr>))"

fun send_pending_frames :: "EthernetFrame list \<Rightarrow> BufferList list \<Rightarrow> BufferList list" where
  "send_pending_frames [] tap = tap"
| "send_pending_frames (f # frames_out) tap = send_pending_frames frames_out (tap @ [EthernetFrame_serialize f])"

definition send_pending :: "TCPOverIPv4OverEthernetAdapter \<Rightarrow> TCPOverIPv4OverEthernetAdapter" where
  "send_pending a =
     a\<lparr>ea_tap_out := send_pending_frames (ni_frames_out (ea_interface a)) (ea_tap_out a),
       ea_interface := (ea_interface a)\<lparr>ni_frames_out := []\<rparr>\<rparr>"

definition eth_read ::
  "resolver \<Rightarrow> bytes \<Rightarrow> TCPOverIPv4OverEthernetAdapter \<Rightarrow> (TCPSegment option \<times> TCPOverIPv4OverEthernetAdapter) result" where
  "eth_read rs input a =
     result_bind (EthernetFrame_parse EthernetFrame_default (Buffer_of_string input)) (\<lambda>(res, frame).
     if res \<noteq> NoError then Inr (None, a) else
     result_bind (recv_frame frame (ea_interface a)) (\<lambda>(ip_dgram, interface).
     let a = send_pending (a\<lparr>ea_interface := interface\<rparr>) in
     case ip_dgram of
       None \<Rightarrow> Inr (None, a)
     | Some dgram \<Rightarrow>
         result_bind (unwrap_tcp_in_ip rs dgram (ea_base a)) (\<lambda>(seg, base). Inr (seg, a\<lparr>ea_base := base\<rparr>))))"

definition eth_tick :: "size_t \<Rightarrow> TCPOverIPv4OverEthernetAdapter \<Rightarrow> TCPOverIPv4OverEthernetAdapter" where
  "eth_tick ms a = send_pending (a\<lparr>ea_interface := ni_tick ms (ea_interface a)\<rparr>)"

definition eth_write ::
  "resolver \<Rightarrow> TCPSegment \<Rightarrow> TCPOverIPv4OverEthernetAdapter \<Rightarrow> (TCPSegment \<times> TCPOverIPv4OverEthernetAdapter) result" where
  "eth_write rs seg a =
     result_bind (wrap_tcp_in_ip rs seg (ea_base a)) (\<lambda>(dgram, seg).
     result_bind (send_datagram dgram (ea_next_hop a) (ea_interface a)) (\<lambda>interface.
       Inr (seg, send_pending (a\<lparr>ea_interface := interface\<rparr>))))"

section \<open>Loss\<close>

definition should_drop :: "bool \<Rightarrow> FdAdapterConfig \<Rightarrow> 32 word \<Rightarrow> bool" where
  "should_drop uplink cfg rand =
     (let loss = (if uplink then fc_loss_rate_up cfg else fc_loss_rate_dn cfg) in
      loss \<noteq> 0 \<and> (ucast rand :: 16 word) < loss)"

text \<open>\<open>read\<close> and \<open>write\<close> of the wrapped adapter are arguments; \<open>config\<close> reads its configuration.\<close>

definition lossy_read ::
  "('a \<Rightarrow> FdAdapterConfig) \<Rightarrow> ('a \<Rightarrow> (TCPSegment option \<times> 'a) result) \<Rightarrow> 32 word \<Rightarrow> 'a \<Rightarrow> (TCPSegment option \<times> 'a) result" where
  "lossy_read config read_adapter rand a =
     result_bind (read_adapter a) (\<lambda>(ret, a).
       if should_drop False (config a) rand then Inr (None, a) else Inr (ret, a))"

definition lossy_write ::
  "('a \<Rightarrow> FdAdapterConfig) \<Rightarrow> (TCPSegment \<Rightarrow> 'a \<Rightarrow> (TCPSegment \<times> 'a) result) \<Rightarrow> 32 word \<Rightarrow> TCPSegment \<Rightarrow> 'a \<Rightarrow> (TCPSegment \<times> 'a) result" where
  "lossy_write config write_adapter rand seg a =
     (if should_drop True (config a) rand then Inr (seg, a) else write_adapter seg a)"

end
