(* ===== verification/Adapter_Properties.thy ===== *)
theory Adapter_Properties
  imports Adapters
begin

text \<open>
  Composition of the wire formats: a segment written by the adapter of one endpoint is read by the
  adapter of its peer, and a listening adapter takes its peer from the first SYN.
\<close>

section \<open>Wrapped segments\<close>

text \<open>A segment that fits an IPv4 datagram.\<close>

definition fits :: "TCPSegment \<Rightarrow> bool" where
  "fits seg \<longleftrightarrow> 5 \<le> th_doff (ts_header seg) \<and> th_doff (ts_header seg) < 16 \<and> Buffer_wf (ts_payload seg) \<and>
     20 + 4 * unat (th_doff (ts_header seg)) + length (Buffer_str (ts_payload seg)) < 65536"

definition wrapped_header :: "32 word \<Rightarrow> 32 word \<Rightarrow> TCPSegment \<Rightarrow> IPv4Header" where
  "wrapped_header src dst seg =
     IPv4Header_default\<lparr>ip_src := src, ip_dst := dst, ip_len :=
       word_of_nat (20 + unat (th_doff (ts_header seg)) * 4 + length (Buffer_str (ts_payload seg)))\<rparr>"

definition with_ports :: "16 word \<Rightarrow> 16 word \<Rightarrow> TCPSegment \<Rightarrow> TCPSegment" where
  "with_ports sport dport seg = seg\<lparr>ts_header := (ts_header seg)\<lparr>th_sport := sport, th_dport := dport\<rparr>\<rparr>"

lemma with_ports_simps [simp]:
  "fits (with_ports sport dport seg) \<longleftrightarrow> fits seg" "ts_payload (with_ports sport dport seg) = ts_payload seg"
  "th_doff (ts_header (with_ports sport dport seg)) = th_doff (ts_header seg)"
  "th_sport (ts_header (with_ports sport dport seg)) = sport" "th_dport (ts_header (with_ports sport dport seg)) = dport"
  "th_syn (ts_header (with_ports sport dport seg)) = th_syn (ts_header seg)"
  "th_rst (ts_header (with_ports sport dport seg)) = th_rst (ts_header seg)"
  by (simp_all add: fits_def with_ports_def)

lemma wrapped_header_simps [simp]:
  "ip_ver (wrapped_header src dst seg) = 4" "ip_hlen (wrapped_header src dst seg) = 5"
  "ip_src (wrapped_header src dst seg) = src" "ip_dst (wrapped_header src dst seg) = dst"
  "ip_proto (wrapped_header src dst seg) = PROTO_TCP" "IPv4Header_wf (wrapped_header src dst seg)"
  by (simp_all add: wrapped_header_def IPv4Header_default_def IPv4Header_LENGTH_def IPv4Header_wf_def)

lemma wrapped_header_len:
  assumes "fits seg"
  shows "unat (ip_len (wrapped_header src dst seg)) =
     20 + (4 * unat (th_doff (ts_header seg)) + length (Buffer_str (ts_payload seg)))" (is "_ = ?n")
proof -
  have "ip_len (wrapped_header src dst seg) = word_of_nat ?n" by (simp add: wrapped_header_def)
  moreover have "?n < 2 ^ LENGTH(16)" using assms by (simp add: fits_def)
  ultimately show ?thesis by (simp only: unsigned_of_nat take_bit_nat_eq_self of_nat_id)
qed

lemma unat_add_le: "unat (x + y) \<le> unat x + unat (y :: 'a::len word)"
  by (simp add: unat_word_ariths)

lemma pseudo_cksum_bound: "unat (pseudo_cksum h) \<le> 327930"
proof -
  have half: "unat (drop_bit 16 w + (w AND 0xffff)) \<le> 131070" for w :: "32 word"
  proof -
    have "unat (w AND 0xffff) \<le> 65535"
      using word_and_le1 [of w "0xffff"] by (simp add: word_le_nat_alt)
    moreover have "unat (drop_bit 16 w) \<le> 65535"
      using div_le_mono [of "unat w" 4294967295 65536] unat_width_less(3) [of w]
      by (simp add: drop_bit_eq_div unat_div del: unat_width_less)
    ultimately show ?thesis using unat_add_le [of "drop_bit 16 w" "w AND 0xffff"] by linarith
  qed
  have "unat (ucast (ip_proto h) :: 32 word) \<le> 255" "unat (ucast (payload_length h) :: 32 word) \<le> 65535"
    using unat_width_less(1) [of "ip_proto h"] unat_width_less(2) [of "payload_length h"]
    by (simp_all add: unsigned_ucast_eq take_bit_nat_eq_self del: unat_width_less)
  moreover
  have "unat (a + b + c + d) \<le> unat a + unat b + unat c + unat d" for a b c d :: "32 word"
    using unat_add_le [of "a + b + c" d] unat_add_le [of "a + b" c] unat_add_le [of a b] by linarith
  note this [of "drop_bit 16 (ip_src h) + (ip_src h AND 0xffff)" "drop_bit 16 (ip_dst h) + (ip_dst h AND 0xffff)"
      "ucast (ip_proto h)" "ucast (payload_length h)", folded pseudo_cksum_def]
  ultimately show ?thesis using half [of "ip_src h"] half [of "ip_dst h"] by linarith
qed

definition wrapped_init :: "32 word \<Rightarrow> 32 word \<Rightarrow> TCPSegment \<Rightarrow> 32 word" where
  "wrapped_init src dst seg = pseudo_cksum (wrapped_header src dst seg)"

lemma wrap_tcp_in_ip_eq:
  assumes "numeric_resolver rs" and "fits seg"
    and "fc_source (fa_cfg a) = ipv4_address src sport" and "fc_destination (fa_cfg a) = ipv4_address dst dport"
  shows "\<exists>bl. wrap_tcp_in_ip rs seg a =
      Inr (\<lparr>ipd_header = wrapped_header src dst seg, ipd_payload = bl\<rparr>, with_ports sport dport seg) \<and>
    BufferList_concatenate bl =
      wire_bytes (header_sent (with_ports sport dport seg) (wrapped_init src dst seg)) (Buffer_str (ts_payload seg))"
proof -
  from assms(2) have seg: "5 \<le> th_doff (ts_header (with_ports sport dport seg))"
    "Buffer_wf (ts_payload (with_ports sport dport seg))" by (simp_all add: fits_def)
  have h: "IPv4Header_default\<lparr>ip_src := src, ip_dst := dst, ip_len := word_of_nat
      (unat (ip_hlen (IPv4Header_default\<lparr>ip_src := src, ip_dst := dst\<rparr>)) * 4 +
       unat (th_doff (ts_header seg)) * 4 + Buffer_size (ts_payload seg))\<rparr> =
      wrapped_header src dst seg"
    by (simp add: wrapped_header_def IPv4Header_default_def IPv4Header_LENGTH_def Buffer_size_def)
  have ports: "set_ports rs a seg = Inr (with_ports sport dport seg)"
    using assms by (simp add: set_ports_def with_ports_def)
  show ?thesis
    using TCPSegment_serialize_eq [OF seg, of "wrapped_init src dst seg"] assms(3,4)
    unfolding wrap_tcp_in_ip_def ports Let_def
    by (auto simp only: result_bind_simps ipv4_numeric_ipv4_address h with_ports_simps wrapped_init_def)
qed


text \<open>What the device of the peer hands to \<open>unwrap_tcp_in_ip\<close> when it gets the bytes of a segment.\<close>

definition arrives :: "IPv4Datagram \<Rightarrow> IPv4Header \<Rightarrow> TCPSegment \<Rightarrow> bool" where
  "arrives d h seg \<longleftrightarrow> (ipd_header d)\<lparr>ip_cksum := 0\<rparr> = h \<and>
     (\<exists>b b'. ipd_payload d = [b] \<and>
        TCPSegment_parse TCPSegment_default b (pseudo_cksum (ipd_header d)) =
          Inr (NoError, TCPSegment_default\<lparr>ts_header := header_sent seg (pseudo_cksum h), ts_payload := b'\<rparr>) \<and>
        Buffer_str b' = Buffer_str (ts_payload seg))"

lemma fits_checksum:
  "fits seg \<Longrightarrow> unat (pseudo_cksum h) +
     65280 * (4 * unat (th_doff (ts_header seg)) + length (Buffer_str (ts_payload seg))) < 2 ^ 32"
  using pseudo_cksum_bound [of h] by (simp add: fits_def)

lemma pseudo_cksum_sent [simp]: "pseudo_cksum (ip_header_sent h) = pseudo_cksum h"
  by (simp add: pseudo_cksum_def ip_header_sent_def payload_length_def)

lemma ip_header_sent_cksum: "(ip_header_sent (wrapped_header src dst seg))\<lparr>ip_cksum := 0\<rparr> = wrapped_header src dst seg"
  by (simp add: ip_header_sent_def wrapped_header_def IPv4Header_default_def)

lemma tun_write_arrives:
  assumes "numeric_resolver rs" and "fits seg"
    and "fc_source (fa_cfg a) = ipv4_address src sport" and "fc_destination (fa_cfg a) = ipv4_address dst dport"
  shows "\<exists>bl d. tun_write rs seg a = Inr (bl, with_ports sport dport seg) \<and>
    IPv4Datagram_parse IPv4Datagram_default (Buffer_of_string (BufferList_concatenate bl)) = Inr (NoError, d) \<and>
    arrives d (wrapped_header src dst seg) (with_ports sport dport seg)"
proof -
  let ?seg = "with_ports sport dport seg" and ?h = "wrapped_header src dst seg"
  let ?th = "header_sent ?seg (wrapped_init src dst seg)" and ?ih = "ip_header_sent ?h"
  let ?tcp = "wire_bytes ?th (Buffer_str (ts_payload seg))"
  obtain pl where wrap: "wrap_tcp_in_ip rs seg a = Inr (\<lparr>ipd_header = ?h, ipd_payload = pl\<rparr>, ?seg)"
    and pl: "BufferList_concatenate pl = ?tcp" using wrap_tcp_in_ip_eq [OF assms] by blast
  have th: "5 \<le> th_doff ?th" "th_doff ?th < 16" using assms(2) by (simp_all add: header_sent_def fits_def)
  have len: "unat (ip_len ?h) = 4 * unat (ip_hlen ?h) + length ?tcp"
    using wrapped_header_len [OF assms(2), of src dst] th(1) by (simp add: length_wire_bytes header_sent_def)
  note len' = payload_length_eq [OF len]
  have "BufferList_size pl = unat (payload_length ?h)"
    using BufferList_size_loop [of 0 pl] len' by (simp add: BufferList_size_def pl unat16_below_SIZE_MOD)
  then have "IPv4Datagram_serialize \<lparr>ipd_header = ?h, ipd_payload = pl\<rparr> =
      Inr (BufferList_of_string (header_bytes ?ih) @ pl)"
    using IPv4Datagram_serialize_eq [of "\<lparr>ipd_header = ?h, ipd_payload = pl\<rparr>"] by simp
  with wrap have out: "tun_write rs seg a = Inr (BufferList_of_string (header_bytes ?ih) @ pl, ?seg)"
    by (simp add: tun_write_def)
  note check = parses_check_sent [OF _ _ len refl]
  obtain b where b: "IPv4Datagram_parse IPv4Datagram_default (Buffer_of_string (header_bytes ?ih @ ?tcp)) =
      Inr (NoError, IPv4Datagram_default\<lparr>ipd_header := ?ih, ipd_payload := [b]\<rparr>)" "Buffer_wf b" "Buffer_str b = ?tcp"
    using IPv4Datagram_parse_buffer [of ?ih _ _ ?tcp, OF _ _ _ check(2), of IPv4Datagram_default] check(1) len'
    by (auto simp: header_bytes_def)
  have "checksum (wrapped_init src dst seg) ?tcp = 0"
    using checksum_sent [of ?seg] fits_checksum [of ?seg ?h] assms(2) th by (simp add: wrapped_init_def fits_def)
  from TCPSegment_parse_wire [OF th this b(2,3), of TCPSegment_default] obtain b' where
    "TCPSegment_parse TCPSegment_default b (wrapped_init src dst seg) =
       Inr (NoError, TCPSegment_default\<lparr>ts_header := ?th, ts_payload := b'\<rparr>)"
    "Buffer_str b' = Buffer_str (ts_payload seg)" by blast
  then have "arrives (IPv4Datagram_default\<lparr>ipd_header := ?ih, ipd_payload := [b]\<rparr>) ?h ?seg"
    by (auto simp: arrives_def wrapped_init_def ip_header_sent_cksum)
  moreover have "BufferList_concatenate (BufferList_of_string (header_bytes ?ih) @ pl) = header_bytes ?ih @ ?tcp"
    using check(1) by (simp add: pl)
  ultimately show ?thesis using out b(1) by metis
qed


section \<open>Unwrapping\<close>

text \<open>Equal up to the checksum field, which \<open>serialize\<close> fills.\<close>

definition same_segment :: "TCPSegment \<Rightarrow> TCPSegment \<Rightarrow> bool" where
  "same_segment seg' seg \<longleftrightarrow> (ts_header seg')\<lparr>th_cksum := 0\<rparr> = (ts_header seg)\<lparr>th_cksum := 0\<rparr> \<and>
     Buffer_str (ts_payload seg') = Buffer_str (ts_payload seg)"

definition adopted :: "32 word \<Rightarrow> 32 word \<Rightarrow> TCPHeader \<Rightarrow> FdAdapterBase \<Rightarrow> FdAdapterBase" where
  "adopted src dst th a =
     \<lparr>fa_cfg = (fa_cfg a)\<lparr>fc_source := ipv4_address dst (th_dport th), fc_destination := ipv4_address src (th_sport th)\<rparr>,
      fa_listen = False\<rparr>"

lemma arrivesE:
  assumes "arrives d h seg"
  obtains b seg' where "ipd_payload d = [b]" "same_segment seg' seg"
    "TCPSegment_parse TCPSegment_default b (pseudo_cksum (ipd_header d)) = Inr (NoError, seg')"
    "ip_src (ipd_header d) = ip_src h" "ip_dst (ipd_header d) = ip_dst h" "ip_proto (ipd_header d) = ip_proto h"
    "th_sport (ts_header seg') = th_sport (ts_header seg)" "th_dport (ts_header seg') = th_dport (ts_header seg)"
    "th_syn (ts_header seg') = th_syn (ts_header seg)" "th_rst (ts_header seg') = th_rst (ts_header seg)"
proof -
  from assms obtain b b' where "ipd_payload d = [b]" "Buffer_str b' = Buffer_str (ts_payload seg)"
    "TCPSegment_parse TCPSegment_default b (pseudo_cksum (ipd_header d)) =
       Inr (NoError, TCPSegment_default\<lparr>ts_header := header_sent seg (pseudo_cksum h), ts_payload := b'\<rparr>)"
    by (auto simp: arrives_def)
  moreover from assms have "ip_src (ipd_header d) = ip_src h" "ip_dst (ipd_header d) = ip_dst h"
    "ip_proto (ipd_header d) = ip_proto h" by (auto simp: arrives_def)
  ultimately show ?thesis
    using that [of b "TCPSegment_default\<lparr>ts_header := header_sent seg (pseudo_cksum h), ts_payload := b'\<rparr>"]
    by (simp add: header_sent_def same_segment_def)
qed

lemma unwrap_connected:
  assumes "arrives d h seg" and "numeric_resolver rs" and "ip_proto h = PROTO_TCP" and "\<not> fa_listen a"
    and "fc_source (fa_cfg a) = ipv4_address (ip_dst h) (th_dport (ts_header seg))"
    and "fc_destination (fa_cfg a) = ipv4_address (ip_src h) (th_sport (ts_header seg))"
  shows "\<exists>seg'. unwrap_tcp_in_ip rs d a = Inr (Some seg', a) \<and> same_segment seg' seg"
  using assms(1)
  by (rule arrivesE) (use assms(2-) in \<open>simp add: unwrap_tcp_in_ip_def foreign_def BufferList_to_Buffer_def\<close>)

lemma unwrap_listening:
  assumes "arrives d h seg" and "numeric_resolver rs" and "ip_proto h = PROTO_TCP" and "fa_listen a"
    and "fc_source (fa_cfg a) = ipv4_address any (th_dport (ts_header seg))"
  shows "\<exists>seg'. unwrap_tcp_in_ip rs d a =
      (if th_syn (ts_header seg) \<and> \<not> th_rst (ts_header seg)
       then Inr (Some seg', adopted (ip_src h) (ip_dst h) (ts_header seg) a) else Inr (None, a)) \<and>
    same_segment seg' seg"
  using assms(1)
  by (rule arrivesE)
    (use assms(2-) in \<open>auto simp: unwrap_tcp_in_ip_def foreign_def BufferList_to_Buffer_def adopt_peer_def
       Address_of_ip_numeric set_listening_def adopted_def\<close>)

section \<open>Properties\<close>

text \<open>Two endpoints, a listener, and two segments, for concrete instances.\<close>

definition example_client :: FdAdapterBase where
  "example_client =
     \<lparr>fa_cfg = \<lparr>fc_source = ipv4_address 0x0a000001 1024, fc_destination = ipv4_address 0x0a000002 80,
                 fc_loss_rate_dn = 0, fc_loss_rate_up = 0\<rparr>, fa_listen = False\<rparr>"

definition example_server :: FdAdapterBase where
  "example_server =
     \<lparr>fa_cfg = \<lparr>fc_source = ipv4_address 0x0a000002 80, fc_destination = ipv4_address 0x0a000001 1024,
                 fc_loss_rate_dn = 0, fc_loss_rate_up = 0\<rparr>, fa_listen = False\<rparr>"

definition example_listener :: FdAdapterBase where
  "example_listener =
     \<lparr>fa_cfg = \<lparr>fc_source = ipv4_address 0 80, fc_destination = ipv4_address 0 0,
                 fc_loss_rate_dn = 0, fc_loss_rate_up = 0\<rparr>, fa_listen = True\<rparr>"

definition example_data :: TCPSegment where
  "example_data = TCPSegment_default\<lparr>ts_payload := Buffer_of_string [104, 105]\<rparr>"

definition example_syn :: TCPSegment where
  "example_syn = TCPSegment_default\<lparr>ts_header := TCPHeader_default\<lparr>th_syn := True\<rparr>\<rparr>"

lemma fits_examples [simp]: "fits example_data" "fits example_syn"
  by (simp_all add: example_data_def example_syn_def fits_def TCPSegment_default_def TCPHeader_default_def SIZE_MOD_def
      word_le_nat_alt)

lemma example_adapters [simp]:
  "fc_source (fa_cfg example_client) = ipv4_address 0x0a000001 1024"
  "fc_destination (fa_cfg example_client) = ipv4_address 0x0a000002 80"
  "fc_source (fa_cfg example_server) = ipv4_address 0x0a000002 80"
  "fc_destination (fa_cfg example_server) = ipv4_address 0x0a000001 1024"
  "fc_source (fa_cfg example_listener) = ipv4_address 0 80"
  "\<not> fa_listen example_server" "fa_listen example_listener"
  by (simp_all add: example_client_def example_server_def example_listener_def)

text \<open>
  C8. TCP over IPv4 delivers segments: when a connected adapter writes a segment that fits an IPv4
  datagram to its TUN device and the bytes reach the adapter of its peer, whose addresses are the same
  two the other way round, the peer's \<open>read\<close> returns the segment, with the ports of the two endpoints
  and the same payload, and stays as it was. The serializers, parsers and checksums of both protocols
  are those of the code.
\<close>

theorem tcp_over_ip_roundtrip:
  assumes "numeric_resolver rs" and "fits seg"
    and "fc_source (fa_cfg a) = ipv4_address src sport" and "fc_destination (fa_cfg a) = ipv4_address dst dport"
    and "fc_source (fa_cfg b) = ipv4_address dst dport" and "fc_destination (fa_cfg b) = ipv4_address src sport"
    and "\<not> fa_listen b"
  shows "\<exists>bl seg'. tun_write rs seg a = Inr (bl, with_ports sport dport seg) \<and>
    tun_read rs (BufferList_concatenate bl) b = Inr (Some seg', b) \<and> same_segment seg' (with_ports sport dport seg)"
proof -
  obtain bl d where *: "tun_write rs seg a = Inr (bl, with_ports sport dport seg)"
    "IPv4Datagram_parse IPv4Datagram_default (Buffer_of_string (BufferList_concatenate bl)) = Inr (NoError, d)"
    "arrives d (wrapped_header src dst seg) (with_ports sport dport seg)" using tun_write_arrives [OF assms(1-4)] by blast
  from unwrap_connected [OF *(3) assms(1) _ assms(7)] assms(5,6) *(1,2) show ?thesis by (auto simp: tun_read_def)
qed

theorem tcp_over_ip_roundtrip_witness:
  "\<exists>bl seg'. tun_write dotted_resolver example_data example_client = Inr (bl, with_ports 1024 80 example_data) \<and>
    tun_read dotted_resolver (BufferList_concatenate bl) example_server = Inr (Some seg', example_server) \<and>
    same_segment seg' (with_ports 1024 80 example_data)"
  by (rule tcp_over_ip_roundtrip [OF numeric_dotted_resolver]) simp_all

text \<open>
  C24. A listening adapter is connected by a SYN and by nothing else: of the segments sent to its port
  it answers every one without the SYN flag, or with the RST flag, by staying as it was and returning
  nothing; on the first SYN it returns the segment, takes the address it was sent to as its own and the
  address and port it came from as those of its peer, and stops listening.
\<close>

theorem listening_adapter_adopts_peer:
  assumes "numeric_resolver rs" and "fits seg"
    and "fc_source (fa_cfg a) = ipv4_address src sport" and "fc_destination (fa_cfg a) = ipv4_address dst dport"
    and "fc_source (fa_cfg b) = ipv4_address any dport" and "fa_listen b"
  shows "\<exists>bl seg'. tun_write rs seg a = Inr (bl, with_ports sport dport seg) \<and>
    same_segment seg' (with_ports sport dport seg) \<and>
    tun_read rs (BufferList_concatenate bl) b =
      (if th_syn (ts_header seg) \<and> \<not> th_rst (ts_header seg)
       then Inr (Some seg', \<lparr>fa_cfg = (fa_cfg b)\<lparr>fc_source := ipv4_address dst dport,
                                               fc_destination := ipv4_address src sport\<rparr>, fa_listen = False\<rparr>)
       else Inr (None, b))"
proof -
  obtain bl d where *: "tun_write rs seg a = Inr (bl, with_ports sport dport seg)"
    "IPv4Datagram_parse IPv4Datagram_default (Buffer_of_string (BufferList_concatenate bl)) = Inr (NoError, d)"
    "arrives d (wrapped_header src dst seg) (with_ports sport dport seg)" using tun_write_arrives [OF assms(1-4)] by blast
  have "fc_source (fa_cfg b) = ipv4_address any (th_dport (ts_header (with_ports sport dport seg)))"
    using assms(5) by simp
  from unwrap_listening [OF *(3) assms(1) _ assms(6) this] obtain seg' where
    "unwrap_tcp_in_ip rs d b = (if th_syn (ts_header seg) \<and> \<not> th_rst (ts_header seg)
       then Inr (Some seg', adopted src dst (ts_header (with_ports sport dport seg)) b) else Inr (None, b))"
    "same_segment seg' (with_ports sport dport seg)"
    unfolding wrapped_header_simps with_ports_simps by blast
  with *(1,2) show ?thesis by (intro exI [of _ bl] exI [of _ seg']) (simp add: tun_read_def adopted_def)
qed

theorem listening_adapter_adopts_peer_witness:
  "\<exists>bl seg'. tun_write dotted_resolver example_syn example_client = Inr (bl, with_ports 1024 80 example_syn) \<and>
    tun_read dotted_resolver (BufferList_concatenate bl) example_listener = Inr (Some seg', example_server)"
proof -
  have "(fa_cfg example_listener)\<lparr>fc_source := ipv4_address 0x0a000002 80, fc_destination := ipv4_address 0x0a000001 1024\<rparr> =
      fa_cfg example_server" by (simp add: example_listener_def example_server_def)
  moreover have "\<lparr>fa_cfg = fa_cfg example_server, fa_listen = False\<rparr> = example_server"
    by (simp add: example_server_def)
  moreover have "th_syn (ts_header example_syn)" "\<not> th_rst (ts_header example_syn)"
    by (simp_all add: example_syn_def TCPHeader_default_def)
  ultimately show ?thesis
    using listening_adapter_adopts_peer [OF numeric_dotted_resolver fits_examples(2) example_adapters(1,2,5,7)] by auto
qed

text \<open>
  C25. An adapter that is not listening passes on nothing but its connection: whatever datagram arrives,
  a segment is returned only when the datagram goes from the address and port of the peer to the
  address and port of the adapter, and the configuration never changes.
\<close>

theorem connected_adapter_filters:
  assumes "\<not> fa_listen a" and "unwrap_tcp_in_ip rs d a = Inr (res, a')"
  shows "a' = a \<and> (\<forall>seg. res = Some seg \<longrightarrow>
     ipv4_numeric (fc_source (fa_cfg a)) = Inr (ip_dst (ipd_header d)) \<and>
     ipv4_numeric (fc_destination (fa_cfg a)) = Inr (ip_src (ipd_header d)) \<and>
     Address_port rs (fc_source (fa_cfg a)) = Inr (th_dport (ts_header seg)) \<and>
     Address_port rs (fc_destination (fa_cfg a)) = Inr (th_sport (ts_header seg)) \<and>
     ip_proto (ipd_header d) = PROTO_TCP)"
  using assms
  by (auto simp: unwrap_tcp_in_ip_def foreign_def result_bind_Inr_iff split: if_splits)


theorem connected_adapter_filters_witness:
  "\<exists>d seg. unwrap_tcp_in_ip dotted_resolver d example_server = Inr (Some seg, example_server) \<and>
     ip_src (ipd_header d) = 0x0a000001 \<and> ip_dst (ipd_header d) = 0x0a000002 \<and>
     th_sport (ts_header seg) = 1024 \<and> th_dport (ts_header seg) = 80"
proof -
  obtain d where "arrives d (wrapped_header 0x0a000001 0x0a000002 example_data) (with_ports 1024 80 example_data)"
    using tun_write_arrives [OF numeric_dotted_resolver fits_examples(1) example_adapters(1,2)] by blast
  from unwrap_connected [OF this numeric_dotted_resolver _ example_adapters(6)] obtain seg where
    d: "unwrap_tcp_in_ip dotted_resolver d example_server = Inr (Some seg, example_server)" by auto
  from connected_adapter_filters [OF example_adapters(6) d] d show ?thesis
    by (auto simp: numeric_dotted_resolver)
qed

end
