(* ===== verification/File_Descriptor.thy ===== *)
theory File_Descriptor
  imports Addresses Buffers
begin

text \<open>
  File descriptors (util/file\_descriptor.hh, util/file\_descriptor.cc) and the system call wrapper of
  util/util.cc.

  The kernel is a parameter: a record of functions, one per system call the sources make, over a
  kernel state of any type. A call gives its return value, the value of errno after it, and what it
  wrote to the memory it was passed. Operations act on the program's system state, the FDWrapper
  objects behind the shared pointers and the kernel state, and keep it also when they throw.
\<close>

unbundle bit_operations_syntax

section \<open>Operations with effects\<close>

type_synonym ('s, 'a) io = "'s \<Rightarrow> 'a result \<times> 's"

definition io_return :: "'a \<Rightarrow> ('s, 'a) io" where
  "io_return x = (\<lambda>s. (Inr x, s))"

definition io_throw :: "cpp_error \<Rightarrow> ('s, 'a) io" where
  "io_throw e = (\<lambda>s. (Inl e, s))"

definition io_bind :: "('s, 'a) io \<Rightarrow> ('a \<Rightarrow> ('s, 'b) io) \<Rightarrow> ('s, 'b) io" where
  "io_bind m f = (\<lambda>s. case m s of (Inl e, s') \<Rightarrow> (Inl e, s') | (Inr x, s') \<Rightarrow> f x s')"

definition io_get :: "('s \<Rightarrow> 'a) \<Rightarrow> ('s, 'a) io" where
  "io_get g = (\<lambda>s. (Inr (g s), s))"

definition io_modify :: "('s \<Rightarrow> 's) \<Rightarrow> ('s, unit) io" where
  "io_modify g = (\<lambda>s. (Inr (), g s))"

definition io_lift :: "'a result \<Rightarrow> ('s, 'a) io" where
  "io_lift r = (\<lambda>s. (r, s))"

definition io_when :: "bool \<Rightarrow> ('s, unit) io \<Rightarrow> ('s, unit) io" where
  "io_when c m = (if c then m else io_return ())"

named_theorems io_simps \<open>how operations with effects run and when they return\<close>

lemma io_run [io_simps]:
  "io_return x s = (Inr x, s)" "io_throw e s = (Inl e, s)" "io_get g s = (Inr (g s), s)"
  "io_modify h s = (Inr (), h s)" "io_lift r s = (r, s)"
  by (simp_all add: io_return_def io_throw_def io_get_def io_modify_def io_lift_def)

lemma io_bind_Inr_iff [io_simps]:
  "io_bind m f s = (Inr y, s'') \<longleftrightarrow> (\<exists>x s'. m s = (Inr x, s') \<and> f x s' = (Inr y, s''))"
  by (auto simp: io_bind_def split: prod.splits sum.splits)

lemma io_bind_run:
  "m s = (Inr x, s') \<Longrightarrow> io_bind m f s = f x s'" "m s = (Inl e, s') \<Longrightarrow> io_bind m f s = (Inl e, s')"
  by (simp_all add: io_bind_def)

lemma io_when_run [io_simps]: "io_when c m s = (if c then m s else (Inr (), s))"
  by (simp add: io_when_def io_return_def)

section \<open>The kernel\<close>

type_synonym ('k, 'r) call = "'k \<Rightarrow> (int \<times> int \<times> 'r) \<times> 'k"

record pollfd =
  pf_fd :: int
  pf_events :: "16 word"
  pf_revents :: "16 word"

record 'k kernel =
  k_read :: "int \<Rightarrow> size_t \<Rightarrow> ('k, bytes) call"
  k_writev :: "int \<Rightarrow> iovec list \<Rightarrow> ('k, unit) call"
  k_close :: "int \<Rightarrow> ('k, unit) call"
  k_fcntl :: "int \<Rightarrow> int \<Rightarrow> int \<Rightarrow> ('k, unit) call"
  k_socket :: "int \<Rightarrow> int \<Rightarrow> int \<Rightarrow> ('k, unit) call"
  k_socketpair :: "int \<Rightarrow> int \<Rightarrow> int \<Rightarrow> ('k, int \<times> int) call"
  k_getsockopt :: "int \<Rightarrow> int \<Rightarrow> int \<Rightarrow> size_t \<Rightarrow> ('k, int \<times> size_t) call"
  k_setsockopt :: "int \<Rightarrow> int \<Rightarrow> int \<Rightarrow> int \<Rightarrow> ('k, unit) call"
  k_getsockname :: "int \<Rightarrow> size_t \<Rightarrow> ('k, bytes \<times> size_t) call"
  k_getpeername :: "int \<Rightarrow> size_t \<Rightarrow> ('k, bytes \<times> size_t) call"
  k_bind :: "int \<Rightarrow> bytes \<Rightarrow> size_t \<Rightarrow> ('k, unit) call"
  k_connect :: "int \<Rightarrow> bytes \<Rightarrow> size_t \<Rightarrow> ('k, unit) call"
  k_listen :: "int \<Rightarrow> int \<Rightarrow> ('k, unit) call"
  k_accept :: "int \<Rightarrow> ('k, unit) call"
  k_shutdown :: "int \<Rightarrow> int \<Rightarrow> ('k, unit) call"
  k_recvfrom :: "int \<Rightarrow> size_t \<Rightarrow> int \<Rightarrow> size_t \<Rightarrow> ('k, bytes \<times> bytes \<times> size_t) call"
  k_sendmsg :: "int \<Rightarrow> (bytes \<times> size_t) option \<Rightarrow> iovec list \<Rightarrow> int \<Rightarrow> ('k, unit) call"
  k_poll :: "pollfd list \<Rightarrow> int \<Rightarrow> ('k, 16 word list) call"
  k_open :: "string \<Rightarrow> int \<Rightarrow> ('k, unit) call"
  k_ioctl :: "int \<Rightarrow> int \<Rightarrow> 16 word \<Rightarrow> string \<Rightarrow> ('k, unit) call"
  k_clock :: "'k \<Rightarrow> nat \<times> 'k"

text \<open>The conversions the code makes between \<open>ssize_t\<close>, \<open>int\<close> and \<open>size_t\<close>.\<close>

definition to_int :: "int \<Rightarrow> int" where
  "to_int x = signed_take_bit 31 x"

definition to_ssize :: "size_t \<Rightarrow> int" where
  "to_ssize n = signed_take_bit 63 (int n)"

definition to_size :: "int \<Rightarrow> size_t" where
  "to_size x = nat (x mod 2 ^ 64)"

text \<open>\<open>SystemCall\<close>: its parameter is an \<open>int\<close>, so a wider return value is narrowed before it is tested.\<close>

definition SystemCall :: "int \<Rightarrow> int \<Rightarrow> int \<Rightarrow> int result" where
  "SystemCall return_value errno errno_mask =
     (if to_int return_value \<ge> 0 \<or> errno = errno_mask then Inr (to_int return_value) else Inl (SystemError errno))"

section \<open>FDWrapper\<close>

record FDWrapper =
  fw_fd :: int
  fw_eof :: bool
  fw_closed :: bool
  fw_read_count :: "32 word"
  fw_write_count :: "32 word"

definition FDWrapper_new :: "int \<Rightarrow> FDWrapper result" where
  "FDWrapper_new fd =
     (if fd < 0 then Inl RuntimeError
      else Inr \<lparr>fw_fd = fd, fw_eof = False, fw_closed = False, fw_read_count = 0, fw_write_count = 0\<rparr>)"

text \<open>
  A \<open>FileDescriptor\<close> is the address of the shared FDWrapper: duplicating one copies the address.
\<close>

type_synonym FileDescriptor = nat

record 'k system =
  sys_fds :: "FileDescriptor \<Rightarrow> FDWrapper"
  sys_next :: FileDescriptor
  sys_program_start :: "nat option"
  sys_kernel :: 'k

definition fd_update :: "FileDescriptor \<Rightarrow> (FDWrapper \<Rightarrow> FDWrapper) \<Rightarrow> 'k system \<Rightarrow> 'k system" where
  "fd_update d f s = s\<lparr>sys_fds := (sys_fds s)(d := f (sys_fds s d))\<rparr>"

definition fd_num :: "FileDescriptor \<Rightarrow> 'k system \<Rightarrow> int" where
  "fd_num d s = fw_fd (sys_fds s d)"

definition fd_eof :: "FileDescriptor \<Rightarrow> 'k system \<Rightarrow> bool" where
  "fd_eof d s = fw_eof (sys_fds s d)"

definition fd_closed :: "FileDescriptor \<Rightarrow> 'k system \<Rightarrow> bool" where
  "fd_closed d s = fw_closed (sys_fds s d)"

definition read_count :: "FileDescriptor \<Rightarrow> 'k system \<Rightarrow> 32 word" where
  "read_count d s = fw_read_count (sys_fds s d)"

definition write_count :: "FileDescriptor \<Rightarrow> 'k system \<Rightarrow> 32 word" where
  "write_count d s = fw_write_count (sys_fds s d)"

definition register_read :: "FileDescriptor \<Rightarrow> 'k system \<Rightarrow> 'k system" where
  "register_read d = fd_update d (\<lambda>w. w\<lparr>fw_read_count := fw_read_count w + 1\<rparr>)"

definition register_write :: "FileDescriptor \<Rightarrow> 'k system \<Rightarrow> 'k system" where
  "register_write d = fd_update d (\<lambda>w. w\<lparr>fw_write_count := fw_write_count w + 1\<rparr>)"

text \<open>A system call on the descriptor number of \<open>d\<close>, checked by \<open>SystemCall\<close>.\<close>

definition system_call :: "('k, 'r) call \<Rightarrow> ('k system, int \<times> 'r) io" where
  "system_call call s =
     (case call (sys_kernel s) of ((return_value, errno, out), k) \<Rightarrow>
        (result_bind (SystemCall return_value errno 0) (\<lambda>n. Inr (n, out)), s\<lparr>sys_kernel := k\<rparr>))"

definition fd_call :: "FileDescriptor \<Rightarrow> (int \<Rightarrow> ('k, 'r) call) \<Rightarrow> ('k system, int \<times> 'r) io" where
  "fd_call d call s = system_call (call (fd_num d s)) s"

text \<open>
  \<open>timestamp_ms\<close>: the clock counts nanoseconds; the static variable \<open>program_start\<close> is set by the first call.
\<close>

definition clock_now :: "'k kernel \<Rightarrow> ('k system, nat) io" where
  "clock_now kc s = (case k_clock kc (sys_kernel s) of (t, k) \<Rightarrow> (Inr t, s\<lparr>sys_kernel := k\<rparr>))"

definition timestamp_ms :: "'k kernel \<Rightarrow> ('k system, nat) io" where
  "timestamp_ms kc =
     io_bind (io_get sys_program_start) (\<lambda>start.
     io_bind (case start of
                Some t \<Rightarrow> io_return t
              | None \<Rightarrow> io_bind (clock_now kc) (\<lambda>t. io_bind (io_modify (\<lambda>s. s\<lparr>sys_program_start := Some t\<rparr>)) (\<lambda>_. io_return t)))
       (\<lambda>program_start.
     io_bind (clock_now kc) (\<lambda>now. io_return ((now - program_start) div 1000000))))"

definition FileDescriptor_new :: "int \<Rightarrow> ('k system, FileDescriptor) io" where
  "FileDescriptor_new fd s =
     (case FDWrapper_new fd of
        Inl e \<Rightarrow> (Inl e, s)
      | Inr w \<Rightarrow> (Inr (sys_next s), s\<lparr>sys_fds := (sys_fds s)(sys_next s := w), sys_next := sys_next s + 1\<rparr>))"

definition duplicate :: "FileDescriptor \<Rightarrow> FileDescriptor" where
  "duplicate d = d"

definition fd_close :: "'k kernel \<Rightarrow> FileDescriptor \<Rightarrow> ('k system, unit) io" where
  "fd_close kc d =
     io_bind (fd_call d (k_close kc)) (\<lambda>_. io_modify (fd_update d (\<lambda>w. w\<lparr>fw_eof := True, fw_closed := True\<rparr>)))"

text \<open>The destructor, run when the last \<open>FileDescriptor\<close> of the wrapper goes: it never throws.\<close>

definition FDWrapper_destroy :: "'k kernel \<Rightarrow> FileDescriptor \<Rightarrow> 'k system \<Rightarrow> 'k system" where
  "FDWrapper_destroy kc d s = (if fd_closed d s then s else snd (fd_close kc d s))"

section \<open>Reading and writing\<close>

definition BUFFER_SIZE :: size_t where
  "BUFFER_SIZE = 1024 * 1024"

text \<open>\<open>str.resize (bytes_read)\<close> on the buffer the kernel filled; a negative length is no size of a string.\<close>

definition resize_buffer :: "size_t \<Rightarrow> bytes \<Rightarrow> int \<Rightarrow> bytes result" where
  "resize_buffer size_to_read filled n =
     (if n < 0 then Inl OutOfBounds
      else Inr (take (nat n) (filled @ replicate (size_to_read - length filled) 0)))"

definition fd_read :: "'k kernel \<Rightarrow> FileDescriptor \<Rightarrow> size_t \<Rightarrow> ('k system, bytes) io" where
  "fd_read kc d limit =
     (let size_to_read = min BUFFER_SIZE limit in
      io_bind (fd_call d (\<lambda>fd. k_read kc fd size_to_read)) (\<lambda>(bytes_read, filled).
      io_bind (io_when (limit > 0 \<and> bytes_read = 0) (io_modify (fd_update d (\<lambda>w. w\<lparr>fw_eof := True\<rparr>)))) (\<lambda>_.
      if bytes_read > to_ssize size_to_read then io_throw RuntimeError
      else io_bind (io_lift (resize_buffer size_to_read filled bytes_read)) (\<lambda>str.
           io_bind (io_modify (register_read d)) (\<lambda>_. io_return str)))))"

text \<open>One pass of the loop of \<open>write\<close>: the number of bytes written and what is left of the buffer.\<close>

definition write_once :: "'k kernel \<Rightarrow> FileDescriptor \<Rightarrow> BufferViewList \<Rightarrow> ('k system, int \<times> BufferViewList) io" where
  "write_once kc d buffer =
     io_bind (fd_call d (\<lambda>fd. k_writev kc fd (BufferViewList_as_iovecs buffer))) (\<lambda>(bytes_written, _).
     if bytes_written = 0 \<and> BufferViewList_size buffer \<noteq> 0 then io_throw RuntimeError
     else if bytes_written > to_ssize (BufferViewList_size buffer) then io_throw RuntimeError
     else io_bind (io_modify (register_write d)) (\<lambda>_.
          io_bind (io_lift (BufferViewList_remove_prefix (to_size bytes_written) buffer)) (\<lambda>buffer.
          io_return (bytes_written, buffer))))"

lemma BufferViewList_size_mod: "BufferViewList_size vs = length (concat vs) mod SIZE_MOD"
proof -
  have "BufferViewList_size_loop ret vs = (ret + length (concat vs)) mod SIZE_MOD" if "ret < SIZE_MOD" for ret
    using that by (induction vs arbitrary: ret) (simp_all add: add64_def mod_simps add.assoc)
  then show ?thesis by (simp add: BufferViewList_size_def SIZE_MOD_def)
qed

lemma BufferViewList_remove_prefixD:
  "BufferViewList_remove_prefix n vs = Inr vs' \<Longrightarrow> n \<le> length (concat vs) \<and> concat vs' = drop n (concat vs)"
  by (induction n vs rule: BufferViewList_remove_prefix.induct) (auto split: if_splits)

lemma to_int_range: "- (2 ^ 31) \<le> to_int x" "to_int x < 2 ^ 31"
  unfolding to_int_def by (rule signed_take_bit_int_greater_eq_minus_exp signed_take_bit_int_less_exp)+

lemma to_int_id [simp]: "0 \<le> x \<Longrightarrow> x < 2 ^ 31 \<Longrightarrow> to_int x = x"
  by (simp add: to_int_def signed_take_bit_int_eq_self)

lemma to_size_id: "0 \<le> x \<Longrightarrow> x < 2 ^ 31 \<Longrightarrow> to_size x = nat x"
  by (simp add: to_size_def)

lemma to_size_pos: "x \<noteq> 0 \<Longrightarrow> - (2 ^ 31) \<le> x \<Longrightarrow> x < 2 ^ 31 \<Longrightarrow> 0 < to_size x"
  using mod_pos_pos_trivial [of "x + 2 ^ 64" "2 ^ 64"] by (cases "0 \<le> x") (simp_all add: to_size_def)

lemma write_once_Inr:
  assumes "write_once kc d buffer s = (Inr (n, buffer'), s')"
  obtains return_value where "n = to_int return_value" "n = 0 \<longrightarrow> BufferViewList_size buffer = 0"
    "BufferViewList_remove_prefix (to_size n) buffer = Inr buffer'"
  using assms
  by (auto simp: write_once_def io_simps fd_call_def system_call_def SystemCall_def result_bind_Inr_iff
      split: if_splits prod.splits)

lemma write_once_decreases:
  assumes "write_once kc d buffer s = (Inr (n, buffer'), s')" and "BufferViewList_size buffer' \<noteq> 0"
  shows "length (concat buffer') < length (concat buffer)"
proof -
  from assms(1) obtain r where r: "n = to_int r" "n = 0 \<longrightarrow> BufferViewList_size buffer = 0"
    "BufferViewList_remove_prefix (to_size n) buffer = Inr buffer'" by (rule write_once_Inr)
  note prefix = BufferViewList_remove_prefixD [OF r(3)]
  have "n \<noteq> 0" using r(2) prefix assms(2) by (auto simp: BufferViewList_size_mod to_size_def)
  then have "0 < to_size n" using to_int_range [of r] r(1) by (simp add: to_size_pos)
  moreover have "length (concat buffer') \<noteq> 0" using assms(2) unfolding BufferViewList_size_mod by (metis mod_0)
  moreover have "length (concat buffer') = length (concat buffer) - to_size n"
    by (simp only: prefix [THEN conjunct2] length_drop)
  ultimately show ?thesis by linarith
qed

function write_loop ::
  "'k kernel \<Rightarrow> FileDescriptor \<Rightarrow> bool \<Rightarrow> BufferViewList \<Rightarrow> size_t \<Rightarrow> ('k system, size_t) io" where
  "write_loop kc d write_all buffer total_bytes_written s =
     (case write_once kc d buffer s of
        (Inl e, s) \<Rightarrow> (Inl e, s)
      | (Inr (bytes_written, buffer), s) \<Rightarrow>
          let total_bytes_written = add64 total_bytes_written (to_size bytes_written) in
          if write_all \<and> BufferViewList_size buffer \<noteq> 0 then write_loop kc d write_all buffer total_bytes_written s
          else (Inr total_bytes_written, s))"
  by pat_completeness auto
termination write_loop
  by (relation "measure (\<lambda>(kc, d, write_all, buffer, total_bytes_written, s). length (concat buffer))")
    (auto dest: write_once_decreases [OF sym])

declare write_loop.simps [simp del]

definition fd_write :: "'k kernel \<Rightarrow> FileDescriptor \<Rightarrow> BufferViewList \<Rightarrow> bool \<Rightarrow> ('k system, size_t) io" where
  "fd_write kc d buffer write_all = write_loop kc d write_all buffer 0"

definition O_NONBLOCK :: int where
  "O_NONBLOCK = 2048"

definition F_GETFL :: int where
  "F_GETFL = 3"

definition F_SETFL :: int where
  "F_SETFL = 4"

definition set_blocking :: "'k kernel \<Rightarrow> FileDescriptor \<Rightarrow> bool \<Rightarrow> ('k system, unit) io" where
  "set_blocking kc d blocking_state =
     io_bind (fd_call d (\<lambda>fd. k_fcntl kc fd F_GETFL 0)) (\<lambda>(flags, _).
     let flags = (if blocking_state then flags XOR (flags AND O_NONBLOCK) else flags OR O_NONBLOCK) in
     io_bind (fd_call d (\<lambda>fd. k_fcntl kc fd F_SETFL flags)) (\<lambda>_. io_return ()))"

section \<open>What the code relies on of the kernel\<close>

text \<open>
  \<open>ins k fd\<close> and \<open>out k fd\<close>: the bytes read from and written to a descriptor so far.
  \<open>writev_conforms kc ins out\<close>: writev(2) either fails and sets errno, with nothing written, or writes a
  prefix of the data and returns its length, which is positive when there is data and fits an \<open>int\<close>
  (Linux transfers at most 0x7ffff000 bytes per call).
  \<open>read_conforms kc ins out\<close>: read(2) either fails and sets errno, with nothing read, or returns the
  length of what it stored, at most the size of the buffer.
  \<open>quiet out call\<close>: a call that transfers no data.
\<close>

definition writev_conforms :: "'k kernel \<Rightarrow> ('k \<Rightarrow> int \<Rightarrow> bytes) \<Rightarrow> ('k \<Rightarrow> int \<Rightarrow> bytes) \<Rightarrow> bool" where
  "writev_conforms kc ins out \<longleftrightarrow>
     (\<forall>fd iovecs k. case k_writev kc fd iovecs k of ((ret, err, _), k') \<Rightarrow>
        ins k' = ins k \<and>
        (ret = -1 \<and> err \<noteq> 0 \<and> out k' = out k \<or>
        0 \<le> ret \<and> ret < 2 ^ 31 \<and> nat ret \<le> length (concat (map iov_base iovecs)) \<and>
        (ret = 0 \<longrightarrow> concat (map iov_base iovecs) = []) \<and>
        out k' = (out k)(fd := out k fd @ take (nat ret) (concat (map iov_base iovecs)))))"

definition read_conforms :: "'k kernel \<Rightarrow> ('k \<Rightarrow> int \<Rightarrow> bytes) \<Rightarrow> ('k \<Rightarrow> int \<Rightarrow> bytes) \<Rightarrow> bool" where
  "read_conforms kc ins out \<longleftrightarrow>
     (\<forall>fd n k. case k_read kc fd n k of ((ret, err, filled), k') \<Rightarrow>
        out k' = out k \<and>
        (ret = -1 \<and> err \<noteq> 0 \<and> ins k' = ins k \<or>
         ret = int (length filled) \<and> length filled \<le> n \<and> ins k' = (ins k)(fd := ins k fd @ filled)))"

definition quiet :: "('k \<Rightarrow> int \<Rightarrow> bytes) \<Rightarrow> ('k \<Rightarrow> int \<Rightarrow> bytes) \<Rightarrow> ('k, 'r) call \<Rightarrow> bool" where
  "quiet ins out call \<longleftrightarrow> (\<forall>k. ins (snd (call k)) = ins k \<and> out (snd (call k)) = out k)"

text \<open>\<open>kernel_ok\<close>: the calls of an event loop and its rules conform, and only read and write transfer data.\<close>

definition kernel_ok :: "'k kernel \<Rightarrow> ('k \<Rightarrow> int \<Rightarrow> bytes) \<Rightarrow> ('k \<Rightarrow> int \<Rightarrow> bytes) \<Rightarrow> bool" where
  "kernel_ok kc ins out \<longleftrightarrow> writev_conforms kc ins out \<and> read_conforms kc ins out \<and>
     (\<forall>fd how. quiet ins out (k_shutdown kc fd how)) \<and> (\<forall>pollfds t. quiet ins out (k_poll kc pollfds t)) \<and>
     (\<forall>k. out (snd (k_clock kc k)) = out k)"

text \<open>
  A kernel that conforms: a descriptor has a queue of incoming bytes, of which a call reads at most two,
  and a log of outgoing bytes, of which a call writes at most two; every descriptor is always ready.
\<close>

definition done_call :: "'r \<Rightarrow> ('k, 'r) call" where
  "done_call r k = ((0, 0, r), k)"

record toy =
  toy_queue :: "int \<Rightarrow> bytes"
  toy_in :: "int \<Rightarrow> bytes"
  toy_out :: "int \<Rightarrow> bytes"

definition toy_kernel :: "toy kernel" where
  "toy_kernel =
     \<lparr>k_read = (\<lambda>fd n k. let bs = take (min n 2) (toy_queue k fd) in
         ((int (length bs), 0, bs), k\<lparr>toy_queue := (toy_queue k)(fd := drop (length bs) (toy_queue k fd)),
                                     toy_in := (toy_in k)(fd := toy_in k fd @ bs)\<rparr>)),
      k_writev = (\<lambda>fd iovecs k. let bs = take 2 (concat (map iov_base iovecs)) in
         ((int (length bs), 0, ()), k\<lparr>toy_out := (toy_out k)(fd := toy_out k fd @ bs)\<rparr>)),
      k_close = (\<lambda>_. done_call ()), k_fcntl = (\<lambda>_ _ _. done_call ()), k_socket = (\<lambda>_ _ _. done_call ()),
      k_socketpair = (\<lambda>_ _ _. done_call (0, 1)), k_getsockopt = (\<lambda>_ _ _ _. done_call (0, 4)),
      k_setsockopt = (\<lambda>_ _ _ _. done_call ()), k_getsockname = (\<lambda>_ _. done_call ([], 0)),
      k_getpeername = (\<lambda>_ _. done_call ([], 0)), k_bind = (\<lambda>_ _ _. done_call ()), k_connect = (\<lambda>_ _ _. done_call ()),
      k_listen = (\<lambda>_ _. done_call ()), k_accept = (\<lambda>_. done_call ()), k_shutdown = (\<lambda>_ _. done_call ()),
      k_recvfrom = (\<lambda>_ _ _ _. done_call ([], [], 0)), k_sendmsg = (\<lambda>_ _ _ _. done_call ()),
      k_poll = (\<lambda>pfds _ k. ((int (length pfds), 0, map pf_events pfds), k)),
      k_open = (\<lambda>_ _. done_call ()), k_ioctl = (\<lambda>_ _ _ _. done_call ()), k_clock = (\<lambda>k. (0, k))\<rparr>"

lemma toy_kernel_conforms:
  "writev_conforms toy_kernel toy_in toy_out" "read_conforms toy_kernel toy_in toy_out"
  by (auto simp: writev_conforms_def read_conforms_def toy_kernel_def Let_def min_def split: prod.splits)

lemma fd_register [simp]:
  "fd_num d' (register_read d s) = fd_num d' s" "fd_num d' (register_write d s) = fd_num d' s"
  "sys_kernel (register_read d s) = sys_kernel s" "sys_kernel (register_write d s) = sys_kernel s"
  "fd_num d' (s\<lparr>sys_kernel := k\<rparr>) = fd_num d' s" "sys_kernel (fd_update d f s) = sys_kernel s"
  "fd_num d' (s\<lparr>sys_program_start := t\<rparr>) = fd_num d' s"
  by (simp_all add: register_read_def register_write_def fd_update_def fd_num_def)

lemma iov_base_as_iovecs [simp]: "map iov_base (BufferViewList_as_iovecs vs) = vs"
  by (simp add: BufferViewList_as_iovecs_def comp_def)

lemma to_ssize_id: "n < 2 ^ 63 \<Longrightarrow> to_ssize n = int n"
  by (simp add: to_ssize_def signed_take_bit_int_eq_self)

definition wrote :: "('k \<Rightarrow> int \<Rightarrow> bytes) \<Rightarrow> ('k \<Rightarrow> int \<Rightarrow> bytes) \<Rightarrow> FileDescriptor \<Rightarrow> bytes \<Rightarrow> 'k system \<Rightarrow> 'k system \<Rightarrow> bool" where
  "wrote ins out d bs s s' \<longleftrightarrow> (\<forall>d'. fd_num d' s' = fd_num d' s) \<and> ins (sys_kernel s') = ins (sys_kernel s) \<and>
     out (sys_kernel s') = (out (sys_kernel s))(fd_num d s := out (sys_kernel s) (fd_num d s) @ bs)"

lemma wrote_trans: "wrote ins out d bs s s' \<Longrightarrow> wrote ins out d bs' s' s'' \<Longrightarrow> wrote ins out d (bs @ bs') s s''"
  by (simp add: wrote_def)

lemma write_once_conforms:
  assumes "writev_conforms kc ins out" and "length (concat buffer) < 2 ^ 63"
  shows "(\<exists>e s'. write_once kc d buffer s = (Inl (SystemError e), s') \<and> wrote ins out d [] s s') \<or>
    (\<exists>n buffer' s'. write_once kc d buffer s = (Inr (int n, buffer'), s') \<and> n < 2 ^ 31 \<and> n \<le> length (concat buffer) \<and>
       concat buffer' = drop n (concat buffer) \<and> wrote ins out d (take n (concat buffer)) s s' \<and>
       write_count d s' = write_count d s + 1)"
proof -
  obtain ret err u k' where call: "k_writev kc (fd_num d s) (BufferViewList_as_iovecs buffer) (sys_kernel s) = ((ret, err, u), k')"
    by (metis prod.collapse)
  have sz: "BufferViewList_size buffer = length (concat buffer)"
    using assms(2) by (simp add: BufferViewList_size_mod SIZE_MOD_def)
  note conforms = assms(1) [unfolded writev_conforms_def, rule_format,
    where fd = "fd_num d s" and iovecs = "BufferViewList_as_iovecs buffer" and k = "sys_kernel s",
    unfolded call prod.case iov_base_as_iovecs]
  consider (fail) "ret = -1" "err \<noteq> 0" "ins k' = ins (sys_kernel s)" "out k' = out (sys_kernel s)"
    | (ok) "ins k' = ins (sys_kernel s)" "0 \<le> ret" "ret < 2 ^ 31" "nat ret \<le> length (concat buffer)" "ret = 0 \<longrightarrow> concat buffer = []"
      "out k' = (out (sys_kernel s))(fd_num d s := out (sys_kernel s) (fd_num d s) @ take (nat ret) (concat buffer))"
    using conforms by blast
  then show ?thesis
  proof cases
    case fail
    then have "write_once kc d buffer s = (Inl (SystemError err), s\<lparr>sys_kernel := k'\<rparr>)"
      by (simp add: write_once_def io_bind_def fd_call_def system_call_def call SystemCall_def to_int_def)
    with fail show ?thesis by (auto simp: wrote_def)
  next
    case ok
    let ?s = "register_write d (s\<lparr>sys_kernel := k'\<rparr>)"
    obtain buffer' where b: "BufferViewList_remove_prefix (nat ret) buffer = Inr buffer'" "concat buffer' = drop (nat ret) (concat buffer)"
      using BufferViewList_remove_prefix_ok [OF ok(4)] by blast
    have "write_once kc d buffer s = (Inr (int (nat ret), buffer'), ?s)"
      using ok b assms(2) 
      by (simp add: write_once_def io_bind_def fd_call_def system_call_def call SystemCall_def sz to_ssize_id
          to_size_id io_run)
    moreover have "wrote ins out d (take (nat ret) (concat buffer)) s ?s" using ok(1,6) by (simp add: wrote_def)
    moreover have "write_count d ?s = write_count d s + 1"
      by (simp add: write_count_def register_write_def fd_update_def)
    moreover have "nat ret < 2 ^ 31" using ok(2,3) by (simp add: nat_less_iff)
    ultimately show ?thesis using ok(4) b(2)
      by (intro disjI2 exI [of _ "nat ret"] exI [of _ buffer'] exI [of _ ?s]) simp
  qed
qed

lemma write_loop_conforms:
  assumes "writev_conforms kc ins out" and "length (concat buffer) < 2 ^ 63" and "tot + length (concat buffer) < SIZE_MOD"
  shows "\<exists>r n s'. write_loop kc d write_all buffer tot s = (r, s') \<and> n \<le> length (concat buffer) \<and>
    wrote ins out d (take n (concat buffer)) s s' \<and>
    ((\<exists>e. r = Inl (SystemError e)) \<or> r = Inr (tot + n) \<and> (write_all \<longrightarrow> n = length (concat buffer)))"
  using assms(2,3)
proof (induction "length (concat buffer)" arbitrary: buffer tot s rule: less_induct)
  case less
  note loop = write_loop.simps [of kc d write_all buffer tot s]
  from write_once_conforms [OF assms(1) less.prems(1), of d s] show ?case
  proof (elim disjE exE conjE)
    fix e s' assume "write_once kc d buffer s = (Inl (SystemError e), s')" "wrote ins out d [] s s'"
    then show ?thesis by (intro exI [of _ "Inl (SystemError e)"] exI [of _ 0] exI [of _ s']) (simp add: loop)
  next
    fix n buffer' s' assume once: "write_once kc d buffer s = (Inr (int n, buffer'), s')"
      and n: "n < 2 ^ 31" "n \<le> length (concat buffer)" and rest: "concat buffer' = drop n (concat buffer)"
      and out: "wrote ins out d (take n (concat buffer)) s s'"
    have tot: "add64 tot (to_size (int n)) = tot + n"
      using n less.prems(2) by (simp add: to_size_id size_arith)
    have size: "BufferViewList_size buffer' = length (concat buffer) - n"
      using less.prems(1) by (simp add: BufferViewList_size_mod rest SIZE_MOD_def del: length_concat)
    show ?thesis
    proof (cases "write_all \<and> BufferViewList_size buffer' \<noteq> 0")
      case True
      have dec: "length (concat buffer') < length (concat buffer)" using write_once_decreases [OF once] True by blast
      have bounds: "length (concat buffer') < 2 ^ 63" "tot + n + length (concat buffer') < SIZE_MOD"
        using less.prems n(2) unfolding rest by simp_all
      from less.hyps [OF dec bounds, of s'] obtain r m s'' where
        "write_loop kc d write_all buffer' (tot + n) s' = (r, s'')" "m \<le> length (concat buffer')"
        "wrote ins out d (take m (concat buffer')) s' s''"
        "(\<exists>e. r = Inl (SystemError e)) \<or> r = Inr (tot + n + m) \<and> (write_all \<longrightarrow> m = length (concat buffer'))"
        by (elim exE conjE) (rule that)
      moreover from this(1) have "write_loop kc d write_all buffer tot s = (r, s'')"
        using loop [unfolded once] True tot by simp
      ultimately show ?thesis
        using wrote_trans [OF out] n(2)
        by (intro exI [of _ r] exI [of _ "n + m"] exI [of _ s'']) (auto simp: rest take_add simp del: length_concat)
    next
      case False
      then show ?thesis
        using once tot out n(2) size
        by (intro exI [of _ "Inr (tot + n)"] exI [of _ n] exI [of _ s']) (auto simp: loop simp del: length_concat)
    qed
  qed
qed

definition took ::
  "('k \<Rightarrow> int \<Rightarrow> bytes) \<Rightarrow> ('k \<Rightarrow> int \<Rightarrow> bytes) \<Rightarrow> FileDescriptor \<Rightarrow> bytes \<Rightarrow> 'k system \<Rightarrow> 'k system \<Rightarrow> bool" where
  "took ins out d bs s s' \<longleftrightarrow> (\<forall>d'. fd_num d' s' = fd_num d' s) \<and> out (sys_kernel s') = out (sys_kernel s) \<and>
     ins (sys_kernel s') = (ins (sys_kernel s))(fd_num d s := ins (sys_kernel s) (fd_num d s) @ bs)"

lemma fd_read_conforms:
  assumes "read_conforms kc ins out"
  shows "(\<exists>e s'. fd_read kc d limit s = (Inl (SystemError e), s') \<and> took ins out d [] s s') \<or>
    (\<exists>bs s'. fd_read kc d limit s = (Inr bs, s') \<and> length bs \<le> limit \<and> took ins out d bs s s' \<and>
       (fd_eof d s' \<longleftrightarrow> fd_eof d s \<or> limit > 0 \<and> bs = []) \<and> read_count d s' = read_count d s + 1)"
proof -
  let ?n = "min BUFFER_SIZE limit"
  obtain ret err bs k' where call: "k_read kc (fd_num d s) ?n (sys_kernel s) = ((ret, err, bs), k')"
    by (metis prod.collapse)
  note conforms = assms [unfolded read_conforms_def, rule_format, where fd = "fd_num d s" and n = ?n and k = "sys_kernel s",
    unfolded call prod.case]
  have n: "?n \<le> 1048576" by (simp add: BUFFER_SIZE_def)
  consider (fail) "out k' = out (sys_kernel s)" "ret = -1" "err \<noteq> 0" "ins k' = ins (sys_kernel s)"
    | (ok) "out k' = out (sys_kernel s)" "ret = int (length bs)" "length bs \<le> ?n"
      "ins k' = (ins (sys_kernel s))(fd_num d s := ins (sys_kernel s) (fd_num d s) @ bs)" using conforms by blast
  then show ?thesis
  proof cases
    case fail
    then have "fd_read kc d limit s = (Inl (SystemError err), s\<lparr>sys_kernel := k'\<rparr>)"
      by (simp add: fd_read_def Let_def io_bind_def fd_call_def system_call_def call SystemCall_def to_int_def)
    with fail show ?thesis by (auto simp: took_def)
  next
    case ok
    define s1 where "s1 = (if limit > 0 \<and> ret = 0 then fd_update d (\<lambda>w. w\<lparr>fw_eof := True\<rparr>) (s\<lparr>sys_kernel := k'\<rparr>) else s\<lparr>sys_kernel := k'\<rparr>)"
    have "length bs \<le> 1048576" using ok(3) n by linarith
    then have int: "to_int (int (length bs)) = int (length bs)" "to_ssize ?n = int ?n" using n by (simp_all add: to_ssize_id)
    have "fd_read kc d limit s = (Inr bs, register_read d s1)"
      using ok(2,3) unfolding fd_read_def Let_def s1_def
      by (simp add: io_bind_def fd_call_def system_call_def call SystemCall_def int io_simps resize_buffer_def)
        (cases bs; auto)
    moreover have "took ins out d bs s (register_read d s1)" "read_count d (register_read d s1) = read_count d s + 1"
      "fd_eof d (register_read d s1) \<longleftrightarrow> fd_eof d s \<or> limit > 0 \<and> bs = []"
      using ok by (simp_all add: s1_def took_def fd_num_def register_read_def fd_update_def read_count_def fd_eof_def)
    ultimately show ?thesis using ok(3) by fastforce
  qed
qed

lemma fd_write_some:
  assumes "writev_conforms kc ins out" and "length (concat buffer) < 2 ^ 63"
  shows "(\<exists>e s'. fd_write kc d buffer False s = (Inl (SystemError e), s') \<and> wrote ins out d [] s s') \<or>
    (\<exists>n s'. fd_write kc d buffer False s = (Inr n, s') \<and> n \<le> length (concat buffer) \<and>
       wrote ins out d (take n (concat buffer)) s s' \<and> write_count d s' = write_count d s + 1)"
  using write_once_conforms [OF assms, of d s]
proof (elim disjE exE conjE)
  fix n buffer' s' assume "write_once kc d buffer s = (Inr (int n, buffer'), s')" "n < 2 ^ 31"
  then have "fd_write kc d buffer False s = (Inr n, s')"
    by (simp add: fd_write_def write_loop.simps [of kc d False buffer] to_size_id size_arith SIZE_MOD_def)
  moreover assume "n \<le> length (concat buffer)" "wrote ins out d (take n (concat buffer)) s s'"
    "write_count d s' = write_count d s + 1"
  ultimately show ?thesis by blast
qed (simp add: fd_write_def write_loop.simps [of kc d False buffer])

section \<open>Properties\<close>

text \<open>
  C23. \<open>write\<close> hands every byte to the kernel once and in order: over a kernel whose writev takes any
  positive prefix it likes, the call returns the number of bytes written, which with \<open>write_all\<close> is
  the whole buffer, or throws the error of a failed system call; in each case what went out on the
  descriptor is exactly that prefix of the buffer. The loop always ends.
\<close>

theorem fd_write_delivers:
  assumes "writev_conforms kc ins out" and "length (concat buffer) < 2 ^ 63"
  shows "\<exists>r n s'. fd_write kc d buffer write_all s = (r, s') \<and> n \<le> length (concat buffer) \<and>
    wrote ins out d (take n (concat buffer)) s s' \<and>
    ((\<exists>e. r = Inl (SystemError e)) \<or> r = Inr n \<and> (write_all \<longrightarrow> n = length (concat buffer)))"
  using write_loop_conforms [OF assms, of 0 d write_all s] assms(2) by (simp add: fd_write_def SIZE_MOD_def)


theorem fd_write_delivers_witness:
  "\<exists>r n s'. fd_write toy_kernel 0 [[1, 2], [], [3, 4, 5]] True
      \<lparr>sys_fds = (\<lambda>_. \<lparr>fw_fd = 7, fw_eof = False, fw_closed = False, fw_read_count = 0, fw_write_count = 0\<rparr>),
       sys_next = 1, sys_program_start = None, sys_kernel = \<lparr>toy_queue = \<lambda>_. [], toy_in = \<lambda>_. [], toy_out = \<lambda>_. []\<rparr>\<rparr> = (r, s') \<and> n \<le> length (concat [[1, 2], [], [3, 4, 5 :: byte]]) \<and>
    wrote toy_in toy_out 0 (take n (concat [[1, 2], [], [3, 4, 5]]))
      \<lparr>sys_fds = (\<lambda>_. \<lparr>fw_fd = 7, fw_eof = False, fw_closed = False, fw_read_count = 0, fw_write_count = 0\<rparr>),
       sys_next = 1, sys_program_start = None, sys_kernel = \<lparr>toy_queue = \<lambda>_. [], toy_in = \<lambda>_. [], toy_out = \<lambda>_. []\<rparr>\<rparr> s' \<and>
    ((\<exists>e. r = Inl (SystemError e)) \<or> r = Inr n \<and> (True \<longrightarrow> n = length (concat [[1, 2], [], [3, 4, 5 :: byte]])))"
  by (rule fd_write_delivers [OF toy_kernel_conforms(1)]) simp

end
