(* ===== verification/Event_Loop.thy ===== *)
theory Event_Loop
  imports File_Descriptor
begin

text \<open>
  The event loop (util/eventloop.hh, util/eventloop.cc). Rules carry the functions the client
  registered, operations on a state of the client's choice; \<open>fds\<close> looks up the wrapper of a file
  descriptor in that state and \<open>poll\<close> is the system call on it. The list of rules is passed along, also
  when an operation throws.
\<close>

section \<open>Rules\<close>

datatype Direction = In | Out

definition POLLIN :: "16 word" where
  "POLLIN = 1"

definition POLLOUT :: "16 word" where
  "POLLOUT = 4"

definition POLLERR :: "16 word" where
  "POLLERR = 8"

definition POLLHUP :: "16 word" where
  "POLLHUP = 16"

definition POLLNVAL :: "16 word" where
  "POLLNVAL = 32"

definition EINTR :: int where
  "EINTR = 4"

fun direction_events :: "Direction \<Rightarrow> 16 word" where
  "direction_events In = POLLIN"
| "direction_events Out = POLLOUT"

record 'w Rule =
  ru_fd :: FileDescriptor
  ru_direction :: Direction
  ru_callback :: "('w, unit) io"
  ru_interest :: "('w, bool) io"
  ru_cancel :: "('w, unit) io"

datatype Result = Success | Timeout | Exit

definition service_count :: "('w \<Rightarrow> FileDescriptor \<Rightarrow> FDWrapper) \<Rightarrow> 'w Rule \<Rightarrow> 'w \<Rightarrow> 32 word" where
  "service_count fds r w =
     (if ru_direction r = In then fw_read_count (fds w (ru_fd r)) else fw_write_count (fds w (ru_fd r)))"

definition add_rule ::
  "FileDescriptor \<Rightarrow> Direction \<Rightarrow> ('w, unit) io \<Rightarrow> ('w, bool) io \<Rightarrow> ('w, unit) io \<Rightarrow> 'w Rule list \<Rightarrow> 'w Rule list" where
  "add_rule fd direction callback interest cancel rules =
     rules @ [\<lparr>ru_fd = duplicate fd, ru_direction = direction, ru_callback = callback, ru_interest = interest,
               ru_cancel = cancel\<rparr>]"

section \<open>wait\_next\_event\<close>

text \<open>The first loop: \<open>kept\<close> are the rules before the iterator, \<open>pollfds\<close> their entries.\<close>

fun setup_pollfds ::
  "('w \<Rightarrow> FileDescriptor \<Rightarrow> FDWrapper) \<Rightarrow> 'w Rule list \<Rightarrow> pollfd list \<Rightarrow> bool \<Rightarrow> 'w Rule list \<Rightarrow> 'w \<Rightarrow>
   (pollfd list \<times> bool) result \<times> 'w Rule list \<times> 'w" where
  "setup_pollfds fds kept pollfds something_to_poll [] w = (Inr (pollfds, something_to_poll), kept, w)"
| "setup_pollfds fds kept pollfds something_to_poll (r # rest) w =
     (if ru_direction r = In \<and> fw_eof (fds w (ru_fd r)) then
        (case ru_cancel r w of
           (Inl e, w) \<Rightarrow> (Inl e, kept @ r # rest, w)
         | (Inr _, w) \<Rightarrow> setup_pollfds fds kept pollfds something_to_poll rest w)
      else if fw_closed (fds w (ru_fd r)) then
        (case ru_cancel r w of
           (Inl e, w) \<Rightarrow> (Inl e, kept @ r # rest, w)
         | (Inr _, w) \<Rightarrow> setup_pollfds fds kept pollfds something_to_poll rest w)
      else
        (case ru_interest r w of
           (Inl e, w) \<Rightarrow> (Inl e, kept @ r # rest, w)
         | (Inr interested, w) \<Rightarrow>
             setup_pollfds fds (kept @ [r])
               (pollfds @ [\<lparr>pf_fd = fw_fd (fds w (ru_fd r)),
                            pf_events = (if interested then direction_events (ru_direction r) else 0), pf_revents = 0\<rparr>])
               (something_to_poll \<or> interested) rest w))"

text \<open>The kernel fills \<open>revents\<close> in place.\<close>

fun set_revents :: "pollfd list \<Rightarrow> 16 word list \<Rightarrow> pollfd list" where
  "set_revents (p # ps) (r # rs) = p\<lparr>pf_revents := r\<rparr> # set_revents ps rs"
| "set_revents ps _ = ps"

definition poll_error :: "pollfd \<Rightarrow> bool" where
  "poll_error p \<longleftrightarrow> pf_revents p AND (POLLERR OR POLLNVAL) \<noteq> 0"

definition poll_ready :: "pollfd \<Rightarrow> bool" where
  "poll_ready p \<longleftrightarrow> pf_revents p AND pf_events p \<noteq> 0"

definition poll_hup :: "pollfd \<Rightarrow> bool" where
  "poll_hup p \<longleftrightarrow> pf_revents p AND POLLHUP \<noteq> 0"

text \<open>Calling a ready rule, with the check for a busy wait.\<close>

definition serve_rule :: "('w \<Rightarrow> FileDescriptor \<Rightarrow> FDWrapper) \<Rightarrow> 'w Rule \<Rightarrow> ('w, unit) io" where
  "serve_rule fds r w =
     (let count_before = service_count fds r w in
      io_bind (ru_callback r) (\<lambda>_ w.
        if count_before = service_count fds r w then
          io_bind (ru_interest r) (\<lambda>interested. if interested then io_throw RuntimeError else io_return ()) w
        else (Inr (), w)) w)"

text \<open>The second loop; the entries are read in step with the rules.\<close>

fun poll_results ::
  "('w \<Rightarrow> FileDescriptor \<Rightarrow> FDWrapper) \<Rightarrow> 'w Rule list \<Rightarrow> 'w Rule list \<Rightarrow> pollfd list \<Rightarrow> 'w \<Rightarrow>
   Result result \<times> 'w Rule list \<times> 'w" where
  "poll_results fds kept [] pollfds w = (Inr Success, kept, w)"
| "poll_results fds kept (r # rest) [] w = (Inl OutOfBounds, kept @ r # rest, w)"
| "poll_results fds kept (r # rest) (p # pollfds) w =
     (if poll_error p then (Inl RuntimeError, kept @ r # rest, w)
      else if poll_hup p \<and> pf_events p \<noteq> 0 \<and> \<not> poll_ready p then
        (case ru_cancel r w of
           (Inl e, w) \<Rightarrow> (Inl e, kept @ r # rest, w)
         | (Inr _, w) \<Rightarrow> poll_results fds kept rest pollfds w)
      else if poll_ready p then
        (case serve_rule fds r w of
           (Inl e, w) \<Rightarrow> (Inl e, kept @ r # rest, w)
         | (Inr _, w) \<Rightarrow> poll_results fds (kept @ [r]) rest pollfds w)
      else poll_results fds (kept @ [r]) rest pollfds w)"

text \<open>
  \<open>SystemCall\<close> throws a unix\_error when poll fails; the handler returns on EINTR and otherwise falls out
  of the try block.
\<close>

definition wait_next_event ::
  "('w \<Rightarrow> FileDescriptor \<Rightarrow> FDWrapper) \<Rightarrow> (pollfd list \<Rightarrow> int \<Rightarrow> ('w, 16 word list) call) \<Rightarrow> int \<Rightarrow>
   'w Rule list \<Rightarrow> 'w \<Rightarrow> Result result \<times> 'w Rule list \<times> 'w" where
  "wait_next_event fds poll timeout_ms rules w =
     (case setup_pollfds fds [] [] False rules w of
        (Inl e, rules, w) \<Rightarrow> (Inl e, rules, w)
      | (Inr (pollfds, something_to_poll), rules, w) \<Rightarrow>
          if \<not> something_to_poll then (Inr Exit, rules, w)
          else case poll pollfds timeout_ms w of ((return_value, errno, revents), w) \<Rightarrow>
            case SystemCall return_value errno 0 of
              Inr n \<Rightarrow> if n = 0 then (Inr Timeout, rules, w)
                       else poll_results fds [] rules (set_revents pollfds revents) w
            | Inl e \<Rightarrow> if e = SystemError EINTR then (Inr Exit, rules, w)
                       else poll_results fds [] rules (set_revents pollfds revents) w)"

section \<open>The rules that remain\<close>

text \<open>Rules are only ever erased, in place: none is added, duplicated or moved.\<close>

definition thinned :: "'r list \<Rightarrow> 'r list \<Rightarrow> 'r list \<Rightarrow> bool" where
  "thinned kept rules rules' \<longleftrightarrow> (\<exists>rest. rules' = kept @ rest \<and> subseq rest rules)"

lemma thinnedI [intro]:
  "thinned kept [] kept" "thinned kept rest (kept @ rest)"
  "thinned kept rest rules' \<Longrightarrow> thinned kept (r # rest) rules'"
  "thinned (kept @ [r]) rest rules' \<Longrightarrow> thinned kept (r # rest) rules'"
  by (auto simp: thinned_def)

lemma setup_pollfds_keeps:
  "setup_pollfds fds kept pollfds b rules w = (res, rules', w') \<Longrightarrow> thinned kept rules rules'"
  by (induction rules arbitrary: kept pollfds b w)
    (auto split: if_splits prod.splits sum.splits)

lemma setup_pollfds_length:
  "setup_pollfds fds kept pollfds b rules w = (Inr (pollfds', b'), rules', w') \<Longrightarrow> length pollfds = length kept \<Longrightarrow>
   length pollfds' = length rules'"
  by (induction rules arbitrary: kept pollfds b w)
    (fastforce split: if_splits prod.splits sum.splits)+

lemma length_set_revents [simp]: "length (set_revents ps rs) = length ps"
  by (induction ps rs rule: set_revents.induct) auto

lemma poll_results_keeps:
  "poll_results fds kept rules pollfds w = (res, rules', w') \<Longrightarrow> thinned kept rules rules'"
  by (induction fds kept rules pollfds w rule: poll_results.induct)
    (auto split: if_splits prod.splits sum.splits)


text \<open>\<open>never e r\<close>: no function of the rule throws \<open>e\<close>.\<close>

definition never :: "cpp_error \<Rightarrow> 'w Rule \<Rightarrow> bool" where
  "never e r \<longleftrightarrow> (\<forall>w. fst (ru_callback r w) \<noteq> Inl e \<and> fst (ru_interest r w) \<noteq> Inl e \<and> fst (ru_cancel r w) \<noteq> Inl e)"

lemma neverD:
  assumes "never e r"
  shows "ru_callback r w \<noteq> (Inl e, w')" "ru_interest r w \<noteq> (Inl e, w')" "ru_cancel r w \<noteq> (Inl e, w')"
  using assms unfolding never_def by (metis fst_conv)+

lemma setup_pollfds_never:
  "list_all (never e) rules \<Longrightarrow> setup_pollfds fds kept pollfds b rules w \<noteq> (Inl e, rules', w')"
  by (induction rules arbitrary: kept pollfds b w)
    (auto split: if_splits prod.splits sum.splits dest: neverD)

lemma serve_rule_never: "never e r \<Longrightarrow> e \<noteq> RuntimeError \<Longrightarrow> serve_rule fds r w \<noteq> (Inl e, w')"
  by (auto simp: serve_rule_def Let_def io_bind_def io_simps split: if_splits prod.splits sum.splits dest: neverD)

lemma poll_results_in_bounds:
  "list_all (never OutOfBounds) rules \<Longrightarrow> length rules \<le> length pollfds \<Longrightarrow>
   poll_results fds kept rules pollfds w \<noteq> (Inl OutOfBounds, rules', w')"
  by (induction fds kept rules pollfds w rule: poll_results.induct)
    (auto split: if_splits prod.splits sum.splits dest: neverD serve_rule_never)

lemma list_all_subseq: "subseq xs ys \<Longrightarrow> list_all P ys \<Longrightarrow> list_all P xs"
  by (induction xs ys rule: list_emb.induct) auto

lemma event_loop_rules:
  assumes "wait_next_event fds poll timeout_ms rules w = (res, rules', w')"
  shows "subseq rules' rules"
proof -
  obtain r1 rules1 w1 where first: "setup_pollfds fds [] [] False rules w = (r1, rules1, w1)" by (metis prod_cases3)
  then have sub: "subseq rules1 rules" using setup_pollfds_keeps [OF first] by (simp add: thinned_def)
  have later: "subseq rules' rules" if "poll_results fds [] rules1 ps w2 = (res, rules', w')" for ps w2
    using poll_results_keeps [OF that] sub by (auto simp: thinned_def intro: subseq_order.order_trans)
  show ?thesis
    using assms first sub later by (auto simp: wait_next_event_def split: if_splits prod.splits sum.splits)
qed

section \<open>Serving the ready rules\<close>

definition entry :: "('w \<Rightarrow> FileDescriptor \<Rightarrow> FDWrapper) \<Rightarrow> 'w \<Rightarrow> 'w Rule \<Rightarrow> pollfd" where
  "entry fds w r =
     \<lparr>pf_fd = fw_fd (fds w (ru_fd r)),
      pf_events = (if fst (ru_interest r w) = Inr True then direction_events (ru_direction r) else 0), pf_revents = 0\<rparr>"

text \<open>\<open>open_rule\<close>: a rule that is not cancelled. \<open>diligent\<close>: one whose functions return, and whose callback reads or writes.\<close>

definition open_rule :: "('w \<Rightarrow> FileDescriptor \<Rightarrow> FDWrapper) \<Rightarrow> 'w \<Rightarrow> 'w Rule \<Rightarrow> bool" where
  "open_rule fds w r \<longleftrightarrow> \<not> fw_closed (fds w (ru_fd r)) \<and> \<not> (ru_direction r = In \<and> fw_eof (fds w (ru_fd r)))"

definition diligent :: "('w \<Rightarrow> FileDescriptor \<Rightarrow> FDWrapper) \<Rightarrow> 'w Rule \<Rightarrow> bool" where
  "diligent fds r \<longleftrightarrow> (\<forall>w. (\<exists>b. ru_interest r w = (Inr b, w)) \<and>
     (\<exists>w'. ru_callback r w = (Inr (), w') \<and> service_count fds r w' \<noteq> service_count fds r w))"

lemma setup_pollfds_open:
  assumes "list_all (open_rule fds w) rules" and "list_all (diligent fds) rules"
  shows "setup_pollfds fds kept pollfds b rules w =
    (Inr (pollfds @ map (entry fds w) rules, b \<or> (\<exists>r\<in>set rules. fst (ru_interest r w) = Inr True)), kept @ rules, w)"
  using assms
proof (induction rules arbitrary: kept pollfds b)
  case (Cons r rules)
  obtain i where "ru_interest r w = (Inr i, w)" using Cons.prems(2) by (auto simp: diligent_def)
  with Cons show ?case by (cases i) (auto simp: open_rule_def entry_def)
qed simp

definition ready_rules :: "'w Rule list \<Rightarrow> pollfd list \<Rightarrow> 'w Rule list" where
  "ready_rules rules pollfds = map fst (filter (\<lambda>(r, p). poll_ready p) (zip rules pollfds))"

lemma poll_results_serves:
  assumes "list_all (diligent fds) rules" and "length pollfds = length rules"
    and "list_all (\<lambda>p. \<not> poll_error p \<and> \<not> poll_hup p) pollfds"
  shows "poll_results fds kept rules pollfds w =
    (Inr Success, kept @ rules, foldl (\<lambda>w r. snd (ru_callback r w)) w (ready_rules rules pollfds))"
  using assms
proof (induction rules arbitrary: kept pollfds w)
  case (Cons r rules)
  then obtain p ps where p: "pollfds = p # ps" by (cases pollfds) auto
  obtain w' where "ru_callback r w = (Inr (), w')" "service_count fds r w' \<noteq> service_count fds r w"
    using Cons.prems(1) by (auto simp: diligent_def)
  then have "serve_rule fds r w = (Inr (), snd (ru_callback r w))" by (simp add: serve_rule_def io_bind_def)
  with Cons p show ?case by (auto simp: ready_rules_def)
qed (simp add: ready_rules_def)

text \<open>Entries without any event: nothing is served.\<close>

lemma poll_results_silent:
  assumes "length rules \<le> length pollfds" and "list_all (\<lambda>p. pf_revents p = 0) pollfds"
  shows "poll_results fds kept rules pollfds w = (Inr Success, kept @ rules, w)"
  using assms
proof (induction rules arbitrary: kept pollfds)
  case (Cons r rules)
  then obtain p ps where "pollfds = p # ps" by (cases pollfds) auto
  with Cons show ?case by (simp add: poll_error_def poll_hup_def poll_ready_def)
qed simp

lemma set_revents_zero:
  "list_all (\<lambda>p. pf_revents p = 0) ps \<Longrightarrow> list_all (\<lambda>r. r = 0) rs \<Longrightarrow> list_all (\<lambda>p. pf_revents p = 0) (set_revents ps rs)"
  by (induction ps rs rule: set_revents.induct) auto

lemma setup_pollfds_zero:
  "setup_pollfds fds kept pollfds b rules w = (Inr (pollfds', b'), rules', w') \<Longrightarrow>
   list_all (\<lambda>p. pf_revents p = 0) pollfds \<Longrightarrow> list_all (\<lambda>p. pf_revents p = 0) pollfds'"
  by (induction rules arbitrary: kept pollfds b w)
    (fastforce split: if_splits prod.splits sum.splits)+

section \<open>Properties\<close>

text \<open>
  C22. The event loop keeps its bookkeeping straight whatever the rules do: the list after a call, also
  one that throws, is the list before it with some rules erased, in the same order, and the entry of a
  rule in the array passed to poll is always within its bounds.
\<close>

theorem event_loop_bookkeeping:
  assumes "wait_next_event fds poll timeout_ms rules w = (res, rules', w')"
  shows "subseq rules' rules \<and> (list_all (never OutOfBounds) rules \<longrightarrow> res \<noteq> Inl OutOfBounds)"
proof (intro conjI impI)
  show "subseq rules' rules" by (rule event_loop_rules [OF assms])
  assume never: "list_all (never OutOfBounds) rules"
  obtain r1 rules1 w1 where first: "setup_pollfds fds [] [] False rules w = (r1, rules1, w1)" by (metis prod_cases3)
  have never1: "list_all (never OutOfBounds) rules1"
    using setup_pollfds_keeps [OF first] never list_all_subseq by (auto simp: thinned_def)
  show "res \<noteq> Inl OutOfBounds"
  proof (cases r1)
    case (Inl e)
    with assms first setup_pollfds_never [OF never] show ?thesis by (auto simp: wait_next_event_def)
  next
    case (Inr x)
    obtain pollfds b where x: "x = (pollfds, b)" by (cases x)
    have "length rules1 \<le> length (set_revents pollfds revents)" for revents
      using setup_pollfds_length [of fds "[]" "[]" False rules w pollfds b rules1 w1] first Inr x by simp
    note poll_results_in_bounds [OF never1 this]
    with assms first Inr x show ?thesis
      by (auto simp: wait_next_event_def split: if_splits prod.splits sum.splits)
  qed
qed

text \<open>Rules that read from their descriptor, and a poll that reports the second of two as readable.\<close>

definition example_rule :: "FileDescriptor \<Rightarrow> unit system Rule" where
  "example_rule d =
     \<lparr>ru_fd = d, ru_direction = In, ru_callback = io_modify (register_read d), ru_interest = io_return True,
      ru_cancel = io_return ()\<rparr>"

definition example_poll :: "int \<Rightarrow> 16 word list \<Rightarrow> pollfd list \<Rightarrow> int \<Rightarrow> ('w, 16 word list) call" where
  "example_poll ret revents pollfds timeout_ms w = ((ret, 12, revents), w)"

definition example_system :: "unit system" where
  "example_system =
     \<lparr>sys_fds = (\<lambda>d. \<lparr>fw_fd = int d, fw_eof = False, fw_closed = False, fw_read_count = 0, fw_write_count = 0\<rparr>),
      sys_next = 2, sys_program_start = None, sys_kernel = ()\<rparr>"

lemmas example_defs = example_rule_def example_poll_def example_system_def

lemma example_rules:
  "list_all (open_rule sys_fds example_system) [example_rule 0, example_rule 1]"
  "list_all (diligent sys_fds) [example_rule 0, example_rule 1]"
  "list_all (never OutOfBounds) [example_rule 0, example_rule 1]"
  by (auto simp: open_rule_def diligent_def never_def example_defs io_run service_count_def register_read_def
      fd_update_def)

theorem event_loop_bookkeeping_witness:
  "\<exists>res rules' w'. wait_next_event sys_fds (example_poll 1 [0, POLLIN]) 10 [example_rule 0, example_rule 1] example_system =
     (res, rules', w') \<and> subseq rules' [example_rule 0, example_rule 1] \<and> res \<noteq> Inl OutOfBounds"
proof -
  obtain res rules' w' where r: "wait_next_event sys_fds (example_poll 1 [0, POLLIN]) 10 [example_rule 0, example_rule 1]
      example_system = (res, rules', w')" by (metis prod_cases3)
  with event_loop_bookkeeping [OF r] example_rules(3) show ?thesis by blast
qed

text \<open>
  C21. The event loop serves every ready rule once, in the order of registration: when no descriptor is
  closed or at its end, some rule is interested, poll reports readiness and no error or hangup, and the
  callbacks do their work (they return, and read or write their descriptor), the call returns Success,
  keeps all rules, and its effect is that of the callbacks of the ready rules, one after the other.
\<close>

theorem event_loop_serves_ready:
  assumes "list_all (open_rule fds w) rules" and "list_all (diligent fds) rules"
    and "r \<in> set rules" and "fst (ru_interest r w) = Inr True"
    and "poll (map (entry fds w) rules) timeout_ms w = ((n, errno, revents), w1)" and "0 < n" and "n < 2 ^ 31"
    and "list_all (\<lambda>p. \<not> poll_error p \<and> \<not> poll_hup p) (set_revents (map (entry fds w) rules) revents)"
  shows "wait_next_event fds poll timeout_ms rules w =
    (Inr Success, rules,
     foldl (\<lambda>w r. snd (ru_callback r w)) w1 (ready_rules rules (set_revents (map (entry fds w) rules) revents)))"
proof -
  have "\<exists>r\<in>set rules. fst (ru_interest r w) = Inr True" using assms(3,4) by blast
  moreover have "SystemCall n errno 0 = Inr n" using assms(6,7) by (simp add: SystemCall_def)
  ultimately show ?thesis
    using setup_pollfds_open [OF assms(1,2), of "[]" "[]" False] assms(5,6)
      poll_results_serves [OF assms(2) _ assms(8), of "[]" w1]
    by (simp add: wait_next_event_def)
qed

theorem event_loop_serves_ready_witness:
  "wait_next_event sys_fds (example_poll 1 [0, POLLIN]) 10 [example_rule 0, example_rule 1] example_system =
     (Inr Success, [example_rule 0, example_rule 1], register_read 1 example_system)"
proof -
  let ?rules = "[example_rule 0, example_rule 1]"
  have e: "set_revents (map (entry sys_fds example_system) ?rules) [0, POLLIN] =
      [\<lparr>pf_fd = 0, pf_events = 1, pf_revents = 0\<rparr>, \<lparr>pf_fd = 1, pf_events = 1, pf_revents = 1\<rparr>]"
    by (simp add: entry_def example_defs io_run POLLIN_def)
  have "wait_next_event sys_fds (example_poll 1 [0, POLLIN]) 10 ?rules example_system =
      (Inr Success, ?rules, foldl (\<lambda>w r. snd (ru_callback r w)) example_system
        (ready_rules ?rules (set_revents (map (entry sys_fds example_system) ?rules) [0, POLLIN])))"
    by (rule event_loop_serves_ready [OF example_rules(1,2), where r = "example_rule 0" and n = 1 and errno = 12])
      (simp_all add: e, simp_all add: example_defs io_run poll_error_def poll_hup_def POLLERR_def POLLHUP_def POLLNVAL_def
        POLLIN_def)
  also have "ready_rules ?rules (set_revents (map (entry sys_fds example_system) ?rules) [0, POLLIN]) = [example_rule 1]"
    unfolding e by (simp add: ready_rules_def poll_ready_def)
  finally show ?thesis by (simp add: example_rule_def io_run)
qed

text \<open>
  C38. A failure of poll other than an interruption is swallowed: although the documentation of the
  function promises a runtime\_error, the handler only returns for EINTR, so the call goes on with the
  entries the kernel did not fill in, serves nothing, and reports Success.
\<close>

theorem event_loop_swallows_poll_errors:
  assumes "setup_pollfds fds [] [] False rules w = (Inr (pollfds, True), rules1, w1)"
    and "poll pollfds timeout_ms w1 = ((-1, errno, revents), w2)" and "errno \<noteq> 0" and "errno \<noteq> EINTR"
    and "list_all (\<lambda>r. r = 0) revents"
  shows "wait_next_event fds poll timeout_ms rules w = (Inr Success, rules1, w2)"
proof -
  have "length pollfds = length rules1" using setup_pollfds_length [OF assms(1)] by simp
  moreover have "list_all (\<lambda>p. pf_revents p = 0) (set_revents pollfds revents)"
    using setup_pollfds_zero [OF assms(1)] set_revents_zero assms(5) by simp
  moreover have "SystemCall (-1) errno 0 = Inl (SystemError errno)"
    using assms(3) by (simp add: SystemCall_def to_int_def)
  ultimately show ?thesis using assms(1,2,4) poll_results_silent [of rules1] by (simp add: wait_next_event_def)
qed

theorem event_loop_swallows_poll_errors_witness:
  "wait_next_event sys_fds (example_poll (-1) [0, 0]) 10 [example_rule 0, example_rule 1] example_system =
     (Inr Success, [example_rule 0, example_rule 1], example_system)"
proof -
  have "setup_pollfds sys_fds [] [] False [example_rule 0, example_rule 1] example_system =
      (Inr (map (entry sys_fds example_system) [example_rule 0, example_rule 1], True), [example_rule 0, example_rule 1],
       example_system)"
    using setup_pollfds_open [OF example_rules(1,2), of "[]" "[]" False] by (simp add: example_rule_def io_run)
  from event_loop_swallows_poll_errors [OF this, of "example_poll (-1) [0, 0]" 10 12 "[0, 0]" example_system]
  show ?thesis by (simp add: example_poll_def EINTR_def)
qed

end
