(* ===== verification/Sockets.thy ===== *)
theory Sockets
  imports File_Descriptor Adapters
begin

text \<open>
  Sockets (util/socket.hh, util/socket.cc) and TUN and TAP devices (util/tun.cc) over the kernel of the
  file descriptor theory, and the adapters of tcp\_helpers with the socket or device they own.

  The descriptor of an object whose constructor throws is closed, as its base class is destroyed.
\<close>

section \<open>Sockets\<close>

definition AF_UNIX :: int where
  "AF_UNIX = 1"

definition SOCK_STREAM :: int where
  "SOCK_STREAM = 1"

definition SOCK_DGRAM :: int where
  "SOCK_DGRAM = 2"

definition SOL_SOCKET :: int where
  "SOL_SOCKET = 1"

definition SO_REUSEADDR :: int where
  "SO_REUSEADDR = 2"

definition SO_TYPE :: int where
  "SO_TYPE = 3"

definition SO_DOMAIN :: int where
  "SO_DOMAIN = 39"

definition sizeof_int :: size_t where
  "sizeof_int = 4"

definition io_cleanup :: "('s, 'a) io \<Rightarrow> ('s \<Rightarrow> 's) \<Rightarrow> ('s, 'a) io" where
  "io_cleanup m clean s = (case m s of (Inl e, s) \<Rightarrow> (Inl e, clean s) | (Inr x, s) \<Rightarrow> (Inr x, s))"

definition Socket_new :: "'k kernel \<Rightarrow> int \<Rightarrow> int \<Rightarrow> ('k system, FileDescriptor) io" where
  "Socket_new kc domain typ = io_bind (system_call (k_socket kc domain typ 0)) (\<lambda>(fd, _). FileDescriptor_new fd)"

definition verify_option :: "'k kernel \<Rightarrow> FileDescriptor \<Rightarrow> int \<Rightarrow> int \<Rightarrow> ('k system, unit) io" where
  "verify_option kc d option expected =
     io_bind (fd_call d (\<lambda>fd. k_getsockopt kc fd SOL_SOCKET option sizeof_int)) (\<lambda>(_, actual_value, len).
       if len \<noteq> sizeof_int \<or> actual_value \<noteq> expected then io_throw RuntimeError else io_return ())"

definition Socket_of_fd :: "'k kernel \<Rightarrow> FileDescriptor \<Rightarrow> int \<Rightarrow> int \<Rightarrow> ('k system, FileDescriptor) io" where
  "Socket_of_fd kc d domain typ =
     io_cleanup
       (io_bind (verify_option kc d SO_DOMAIN domain) (\<lambda>_.
        io_bind (verify_option kc d SO_TYPE typ) (\<lambda>_. io_return d)))
       (FDWrapper_destroy kc d)"

definition get_address :: "FileDescriptor \<Rightarrow> (int \<Rightarrow> size_t \<Rightarrow> ('k, bytes \<times> size_t) call) \<Rightarrow> ('k system, Address) io" where
  "get_address d call =
     io_bind (fd_call d (\<lambda>fd. call fd sizeof_sockaddr_storage)) (\<lambda>(_, address, size).
       io_lift (Address_of_sockaddr address size))"

definition local_address :: "'k kernel \<Rightarrow> FileDescriptor \<Rightarrow> ('k system, Address) io" where
  "local_address kc d = get_address d (k_getsockname kc)"

definition peer_address :: "'k kernel \<Rightarrow> FileDescriptor \<Rightarrow> ('k system, Address) io" where
  "peer_address kc d = get_address d (k_getpeername kc)"

definition socket_bind :: "'k kernel \<Rightarrow> FileDescriptor \<Rightarrow> Address \<Rightarrow> ('k system, unit) io" where
  "socket_bind kc d a = io_bind (fd_call d (\<lambda>fd. k_bind kc fd (ad_storage a) (ad_size a))) (\<lambda>_. io_return ())"

definition socket_connect :: "'k kernel \<Rightarrow> FileDescriptor \<Rightarrow> Address \<Rightarrow> ('k system, unit) io" where
  "socket_connect kc d a = io_bind (fd_call d (\<lambda>fd. k_connect kc fd (ad_storage a) (ad_size a))) (\<lambda>_. io_return ())"

definition SHUT_RD :: int where
  "SHUT_RD = 0"

definition SHUT_WR :: int where
  "SHUT_WR = 1"

definition SHUT_RDWR :: int where
  "SHUT_RDWR = 2"

definition shutdown :: "'k kernel \<Rightarrow> FileDescriptor \<Rightarrow> int \<Rightarrow> ('k system, unit) io" where
  "shutdown kc d how =
     io_bind (fd_call d (\<lambda>fd. k_shutdown kc fd how)) (\<lambda>_.
       if how = SHUT_RD then io_modify (register_read d)
       else if how = SHUT_WR then io_modify (register_write d)
       else if how = SHUT_RDWR then io_modify (\<lambda>s. register_write d (register_read d s))
       else io_throw RuntimeError)"

definition set_reuseaddr :: "'k kernel \<Rightarrow> FileDescriptor \<Rightarrow> ('k system, unit) io" where
  "set_reuseaddr kc d = io_bind (fd_call d (\<lambda>fd. k_setsockopt kc fd SOL_SOCKET SO_REUSEADDR 1)) (\<lambda>_. io_return ())"

section \<open>UDP\<close>

definition MSG_TRUNC :: int where
  "MSG_TRUNC = 0x20"

definition UDPSocket_new :: "'k kernel \<Rightarrow> ('k system, FileDescriptor) io" where
  "UDPSocket_new kc = Socket_new kc (uint AF_INET) SOCK_DGRAM"

definition UDPSocket_of_fd :: "'k kernel \<Rightarrow> FileDescriptor \<Rightarrow> ('k system, FileDescriptor) io" where
  "UDPSocket_of_fd kc d = Socket_of_fd kc d (uint AF_INET) SOCK_DGRAM"

record received_datagram =
  rd_source_address :: Address
  rd_payload :: bytes

definition udp_recv :: "'k kernel \<Rightarrow> FileDescriptor \<Rightarrow> size_t \<Rightarrow> ('k system, received_datagram) io" where
  "udp_recv kc d mtu =
     io_bind (fd_call d (\<lambda>fd. k_recvfrom kc fd mtu MSG_TRUNC sizeof_sockaddr_storage)) (\<lambda>(recv_len, filled, source, fromlen).
     if recv_len > to_ssize mtu then io_throw RuntimeError
     else io_bind (io_modify (register_read d)) (\<lambda>_.
          io_bind (io_lift (Address_of_sockaddr source fromlen)) (\<lambda>address.
          io_bind (io_lift (resize_buffer mtu filled recv_len)) (\<lambda>payload.
          io_return \<lparr>rd_source_address = address, rd_payload = payload\<rparr>))))"

definition sendmsg_helper :: "'k kernel \<Rightarrow> FileDescriptor \<Rightarrow> (bytes \<times> size_t) option \<Rightarrow> BufferViewList \<Rightarrow> ('k system, unit) io" where
  "sendmsg_helper kc d destination payload =
     io_bind (fd_call d (\<lambda>fd. k_sendmsg kc fd destination (BufferViewList_as_iovecs payload) 0)) (\<lambda>(bytes_sent, _).
       if to_size bytes_sent \<noteq> BufferViewList_size payload then io_throw RuntimeError else io_return ())"

definition sendto :: "'k kernel \<Rightarrow> FileDescriptor \<Rightarrow> Address \<Rightarrow> BufferViewList \<Rightarrow> ('k system, unit) io" where
  "sendto kc d destination payload =
     io_bind (sendmsg_helper kc d (Some (ad_storage destination, ad_size destination)) payload) (\<lambda>_.
       io_modify (register_write d))"

definition udp_send :: "'k kernel \<Rightarrow> FileDescriptor \<Rightarrow> BufferViewList \<Rightarrow> ('k system, unit) io" where
  "udp_send kc d payload = io_bind (sendmsg_helper kc d None payload) (\<lambda>_. io_modify (register_write d))"

section \<open>TCP and local sockets\<close>

definition TCPSocket_new :: "'k kernel \<Rightarrow> ('k system, FileDescriptor) io" where
  "TCPSocket_new kc = Socket_new kc (uint AF_INET) SOCK_STREAM"

definition TCPSocket_of_fd :: "'k kernel \<Rightarrow> FileDescriptor \<Rightarrow> ('k system, FileDescriptor) io" where
  "TCPSocket_of_fd kc d = Socket_of_fd kc d (uint AF_INET) SOCK_STREAM"

definition LocalStreamSocket_of_fd :: "'k kernel \<Rightarrow> FileDescriptor \<Rightarrow> ('k system, FileDescriptor) io" where
  "LocalStreamSocket_of_fd kc d = Socket_of_fd kc d AF_UNIX SOCK_STREAM"

definition tcp_listen :: "'k kernel \<Rightarrow> FileDescriptor \<Rightarrow> int \<Rightarrow> ('k system, unit) io" where
  "tcp_listen kc d backlog = io_bind (fd_call d (\<lambda>fd. k_listen kc fd backlog)) (\<lambda>_. io_return ())"

definition tcp_accept :: "'k kernel \<Rightarrow> FileDescriptor \<Rightarrow> ('k system, FileDescriptor) io" where
  "tcp_accept kc d =
     io_bind (io_modify (register_read d)) (\<lambda>_.
     io_bind (fd_call d (k_accept kc)) (\<lambda>(fd, _).
     io_bind (FileDescriptor_new fd) (TCPSocket_of_fd kc)))"

section \<open>TUN and TAP devices\<close>

definition CLONEDEV :: string where
  "CLONEDEV = ''/dev/net/tun''"

definition O_RDWR :: int where
  "O_RDWR = 2"

definition TUNSETIFF :: int where
  "TUNSETIFF = 0x400454ca"

definition IFNAMSIZ :: size_t where
  "IFNAMSIZ = 16"

text \<open>\<open>ifr_name\<close>: the name up to its first null character, cut to leave room for the final one.\<close>

definition ifr_name :: "string \<Rightarrow> string" where
  "ifr_name devname = takeWhile (\<lambda>c. c \<noteq> CHR 0x00) (take (IFNAMSIZ - 1) devname)"

definition ifr_flags :: "bool \<Rightarrow> 16 word" where
  "ifr_flags is_tun = (if is_tun then 1 else 2) OR 0x1000"

definition TunTapFD_new :: "'k kernel \<Rightarrow> string \<Rightarrow> bool \<Rightarrow> ('k system, FileDescriptor) io" where
  "TunTapFD_new kc devname is_tun =
     io_bind (system_call (k_open kc CLONEDEV O_RDWR)) (\<lambda>(fd, _).
     io_bind (FileDescriptor_new fd) (\<lambda>d.
     io_cleanup
       (io_bind (fd_call d (\<lambda>fd. k_ioctl kc fd TUNSETIFF (ifr_flags is_tun) (ifr_name devname))) (\<lambda>_. io_return d))
       (FDWrapper_destroy kc d)))"

section \<open>Adapters with their socket or device\<close>

text \<open>
  The template parameter of TCPSpongeSocket: an adapter of type \<open>'a\<close> with the operations the class
  template calls on it.
\<close>

record ('a, 'k) AdaptT =
  at_fd :: "'a \<Rightarrow> FileDescriptor"
  at_read :: "('a \<times> 'k system, TCPSegment option) io"
  at_write :: "TCPSegment \<Rightarrow> ('a \<times> 'k system, TCPSegment) io"
  at_tick :: "size_t \<Rightarrow> ('a \<times> 'k system, unit) io"
  at_config :: "'a \<Rightarrow> FdAdapterConfig"
  at_set_config :: "FdAdapterConfig \<Rightarrow> 'a \<Rightarrow> 'a"
  at_set_listening :: "bool \<Rightarrow> 'a \<Rightarrow> 'a"

definition on_device :: "('k system, 'b) io \<Rightarrow> ('a \<times> 'k system, 'b) io" where
  "on_device m = (\<lambda>(a, s). case m s of (r, s) \<Rightarrow> (r, (a, s)))"

definition on_base :: "(FdAdapterBase \<Rightarrow> ('b \<times> FdAdapterBase) result) \<Rightarrow> ((FileDescriptor \<times> FdAdapterBase) \<times> 'k system, 'b) io" where
  "on_base f = (\<lambda>((d, a), s). case f a of Inl e \<Rightarrow> (Inl e, ((d, a), s)) | Inr (x, a) \<Rightarrow> (Inr x, ((d, a), s)))"

definition owned_read ::
  "(FileDescriptor \<Rightarrow> ('k system, 'i) io) \<Rightarrow> ('i \<Rightarrow> FdAdapterBase \<Rightarrow> (TCPSegment option \<times> FdAdapterBase) result) \<Rightarrow>
   ((FileDescriptor \<times> FdAdapterBase) \<times> 'k system, TCPSegment option) io" where
  "owned_read receive decode = io_bind (\<lambda>((d, a), s). on_device (receive d) ((d, a), s)) (\<lambda>i. on_base (decode i))"

definition SIZE_MAX :: size_t where
  "SIZE_MAX = SIZE_MOD - 1"

definition tun_adapter :: "'k kernel \<Rightarrow> resolver \<Rightarrow> (FileDescriptor \<times> FdAdapterBase, 'k) AdaptT" where
  "tun_adapter kc rs =
     \<lparr>at_fd = fst,
      at_read = owned_read (\<lambda>d. fd_read kc d SIZE_MAX) (tun_read rs),
      at_write = (\<lambda>seg. io_bind (io_get (\<lambda>((d, a), s). (d, a))) (\<lambda>(d, a).
        io_bind (io_lift (tun_write rs seg a)) (\<lambda>(out, seg).
        io_bind (on_device (fd_write kc d (BufferViewList_of_BufferList out) True)) (\<lambda>_. io_return seg)))),
      at_tick = (\<lambda>ms. io_modify (\<lambda>((d, a), s). ((d, base_tick ms a), s))),
      at_config = (\<lambda>(d, a). fa_cfg a),
      at_set_config = (\<lambda>cfg (d, a). (d, a\<lparr>fa_cfg := cfg\<rparr>)),
      at_set_listening = (\<lambda>l (d, a). (d, set_listening l a))\<rparr>"

definition udp_adapter :: "'k kernel \<Rightarrow> resolver \<Rightarrow> (FileDescriptor \<times> FdAdapterBase, 'k) AdaptT" where
  "udp_adapter kc rs =
     \<lparr>at_fd = fst,
      at_read = owned_read (\<lambda>d. udp_recv kc d 65536) (\<lambda>dg. udp_read (rd_source_address dg, rd_payload dg)),
      at_write = (\<lambda>seg. io_bind (io_get (\<lambda>((d, a), s). (d, a))) (\<lambda>(d, a).
        io_bind (io_lift (udp_write rs seg a)) (\<lambda>((destination, payload), seg).
        io_bind (on_device (sendto kc d destination (BufferViewList_of_BufferList payload))) (\<lambda>_. io_return seg)))),
      at_tick = (\<lambda>ms. io_modify (\<lambda>((d, a), s). ((d, base_tick ms a), s))),
      at_config = (\<lambda>(d, a). fa_cfg a),
      at_set_config = (\<lambda>cfg (d, a). (d, a\<lparr>fa_cfg := cfg\<rparr>)),
      at_set_listening = (\<lambda>l (d, a). (d, set_listening l a))\<rparr>"

text \<open>
  The adapter over Ethernet with its TAP device. \<open>send_pending\<close> pops a frame once it is written, so that
  frames are left in the interface when a write throws.
\<close>

type_synonym 'k tap_state = "(FileDescriptor \<times> TCPOverIPv4OverEthernetAdapter) \<times> 'k system"

definition on_interface :: "(NetworkInterface \<Rightarrow> ('b \<times> NetworkInterface) result) \<Rightarrow> ('k tap_state, 'b) io" where
  "on_interface f = (\<lambda>((d, a), s).
     case f (ea_interface a) of
       Inl e \<Rightarrow> (Inl e, ((d, a), s))
     | Inr (x, interface) \<Rightarrow> (Inr x, ((d, a\<lparr>ea_interface := interface\<rparr>), s)))"

fun tap_send_frames :: "'k kernel \<Rightarrow> EthernetFrame list \<Rightarrow> ('k tap_state, unit) io" where
  "tap_send_frames kc [] = io_return ()"
| "tap_send_frames kc (f # frames_out) =
     io_bind (io_get (\<lambda>((d, a), s). d)) (\<lambda>d.
     io_bind (on_device (fd_write kc d (BufferViewList_of_BufferList (EthernetFrame_serialize f)) True)) (\<lambda>_.
     io_bind (on_interface (\<lambda>interface. Inr ((), interface\<lparr>ni_frames_out := frames_out\<rparr>))) (\<lambda>_.
     tap_send_frames kc frames_out)))"

definition tap_send_pending :: "'k kernel \<Rightarrow> ('k tap_state, unit) io" where
  "tap_send_pending kc = io_bind (io_get (\<lambda>((d, a), s). ni_frames_out (ea_interface a))) (tap_send_frames kc)"

definition tap_unwrap :: "resolver \<Rightarrow> IPv4Datagram \<Rightarrow> ('k tap_state, TCPSegment option) io" where
  "tap_unwrap rs dgram = (\<lambda>((d, a), s).
     case unwrap_tcp_in_ip rs dgram (ea_base a) of
       Inl e \<Rightarrow> (Inl e, ((d, a), s))
     | Inr (seg, base) \<Rightarrow> (Inr seg, ((d, a\<lparr>ea_base := base\<rparr>), s)))"

definition tap_read :: "'k kernel \<Rightarrow> resolver \<Rightarrow> ('k tap_state, TCPSegment option) io" where
  "tap_read kc rs =
     io_bind (io_get (\<lambda>((d, a), s). d)) (\<lambda>d.
     io_bind (on_device (fd_read kc d SIZE_MAX)) (\<lambda>input.
     io_bind (io_lift (EthernetFrame_parse EthernetFrame_default (Buffer_of_string input))) (\<lambda>(res, frame).
     if res \<noteq> NoError then io_return None
     else
       io_bind (on_interface (recv_frame frame)) (\<lambda>ip_dgram.
       io_bind (tap_send_pending kc) (\<lambda>_.
       case ip_dgram of None \<Rightarrow> io_return None | Some dgram \<Rightarrow> tap_unwrap rs dgram)))))"

definition tap_write :: "'k kernel \<Rightarrow> resolver \<Rightarrow> TCPSegment \<Rightarrow> ('k tap_state, TCPSegment) io" where
  "tap_write kc rs seg =
     io_bind (io_get (\<lambda>((d, a), s). a)) (\<lambda>a.
     io_bind (io_lift (wrap_tcp_in_ip rs seg (ea_base a))) (\<lambda>(dgram, seg).
     io_bind (on_interface (\<lambda>interface.
       result_bind (send_datagram dgram (ea_next_hop a) interface) (\<lambda>interface. Inr ((), interface)))) (\<lambda>_.
     io_bind (tap_send_pending kc) (\<lambda>_. io_return seg))))"

definition tap_tick :: "'k kernel \<Rightarrow> size_t \<Rightarrow> ('k tap_state, unit) io" where
  "tap_tick kc ms =
     io_bind (on_interface (\<lambda>interface. Inr ((), ni_tick ms interface))) (\<lambda>_. tap_send_pending kc)"

definition ethernet_adapter :: "'k kernel \<Rightarrow> resolver \<Rightarrow> (FileDescriptor \<times> TCPOverIPv4OverEthernetAdapter, 'k) AdaptT" where
  "ethernet_adapter kc rs =
     \<lparr>at_fd = fst, at_read = tap_read kc rs, at_write = tap_write kc rs, at_tick = tap_tick kc,
      at_config = (\<lambda>(d, a). fa_cfg (ea_base a)),
      at_set_config = (\<lambda>cfg (d, a). (d, a\<lparr>ea_base := (ea_base a)\<lparr>fa_cfg := cfg\<rparr>\<rparr>)),
      at_set_listening = (\<lambda>l (d, a). (d, a\<lparr>ea_base := set_listening l (ea_base a)\<rparr>))\<rparr>"

end
