(* ===== verification/Sponge_Socket.thy ===== *)
theory Sponge_Socket
  imports Event_Loop Sockets TCP_Connection
begin

text \<open>
  TCPSpongeSocket (tcp\_helpers/tcp\_sponge\_socket.hh, tcp\_sponge\_socket.cc): the event loop that joins a
  TCPConnection, a datagram adapter and the local socket of the application, and the classes for the
  CS144 TUN device and the full stack.

  The thread of the connection and the one of its owner share the flag \<open>_abort\<close> and the pair of local
  sockets; what the owner does between two steps is part of the kernel state and of \<open>ss_abort\<close>. Messages
  on cerr are left out, but the text of the addresses in them is computed, as that may throw. The random
  initial sequence number and port are arguments.
\<close>

section \<open>State\<close>

record ('a, 'k) TCPSpongeSocket =
  ss_sys :: "'k system"
  ss_socket :: FileDescriptor
  ss_thread_data :: FileDescriptor
  ss_datagram_adapter :: 'a
  ss_tcp :: "TCPConnection option"
  ss_joinable :: bool
  ss_abort :: bool
  ss_inbound_shutdown :: bool
  ss_outbound_shutdown :: bool
  ss_fully_acked :: bool

record ('a, 'k) env =
  en_kernel :: "'k kernel"
  en_resolver :: resolver
  en_adapter :: "('a, 'k) AdaptT"

definition on_sys :: "('k system, 'b) io \<Rightarrow> (('a, 'k) TCPSpongeSocket, 'b) io" where
  "on_sys m s = (case m (ss_sys s) of (r, sys) \<Rightarrow> (r, s\<lparr>ss_sys := sys\<rparr>))"

definition on_adapter :: "('a \<times> 'k system, 'b) io \<Rightarrow> (('a, 'k) TCPSpongeSocket, 'b) io" where
  "on_adapter m s =
     (case m (ss_datagram_adapter s, ss_sys s) of (r, (a, sys)) \<Rightarrow> (r, s\<lparr>ss_datagram_adapter := a, ss_sys := sys\<rparr>))"

text \<open>\<open>_tcp->\<close> of an empty optional is undefined; \<open>_tcp.value ()\<close> throws.\<close>

definition tcp_ptr :: "(('a, 'k) TCPSpongeSocket, TCPConnection) io" where
  "tcp_ptr s = (case ss_tcp s of None \<Rightarrow> (Inl OutOfBounds, s) | Some c \<Rightarrow> (Inr c, s))"

definition tcp_value :: "(('a, 'k) TCPSpongeSocket, TCPConnection) io" where
  "tcp_value s = (case ss_tcp s of None \<Rightarrow> (Inl BadOptionalAccess, s) | Some c \<Rightarrow> (Inr c, s))"

definition set_tcp :: "TCPConnection \<Rightarrow> (('a, 'k) TCPSpongeSocket, unit) io" where
  "set_tcp c = io_modify (\<lambda>s. s\<lparr>ss_tcp := Some c\<rparr>)"

definition set_inbound :: "ByteStream \<Rightarrow> TCPConnection \<Rightarrow> TCPConnection" where
  "set_inbound st c =
     c\<lparr>tc_receiver := (tc_receiver c)\<lparr>tr_reassembler := (tr_reassembler (tc_receiver c))\<lparr>sr_output := st\<rparr>\<rparr>\<rparr>"

definition destination_text :: "('a, 'k) env \<Rightarrow> (('a, 'k) TCPSpongeSocket, string) io" where
  "destination_text env s =
     (Address_to_string (en_resolver env) (fc_destination (at_config (en_adapter env) (ss_datagram_adapter s))), s)"

section \<open>The rules of the event loop\<close>

text \<open>Rule 1: read from the filtered packet stream into the TCPConnection.\<close>

definition deliver_segment :: "TCPSegment option \<Rightarrow> (('a, 'k) TCPSpongeSocket, unit) io" where
  "deliver_segment seg =
     (case seg of
        None \<Rightarrow> io_return ()
      | Some seg \<Rightarrow> io_bind tcp_ptr (\<lambda>c. io_bind (io_lift (tc_segment_received c seg)) set_tcp))"

definition debug_fully_acked :: "('a, 'k) env \<Rightarrow> (('a, 'k) TCPSpongeSocket, unit) io" where
  "debug_fully_acked env =
     io_bind (io_get (\<lambda>s. fd_eof (ss_thread_data s) (ss_sys s))) (\<lambda>at_eof.
     io_when at_eof
       (io_bind tcp_value (\<lambda>c.
        io_bind (io_get ss_fully_acked) (\<lambda>fully_acked.
        io_when (tc_bytes_in_flight c = 0 \<and> \<not> fully_acked)
          (io_bind (destination_text env) (\<lambda>_. io_modify (\<lambda>s. s\<lparr>ss_fully_acked := True\<rparr>)))))))"

definition rule1_callback :: "('a, 'k) env \<Rightarrow> (('a, 'k) TCPSpongeSocket, unit) io" where
  "rule1_callback env =
     io_bind (on_adapter (at_read (en_adapter env))) (\<lambda>seg.
     io_bind (deliver_segment seg) (\<lambda>_. debug_fully_acked env))"

definition rule1_interest :: "(('a, 'k) TCPSpongeSocket, bool) io" where
  "rule1_interest = io_bind tcp_ptr (\<lambda>c. io_return (tc_active_now c))"

text \<open>Rule 2: read from the pipe into the outbound buffer.\<close>

definition rule2_cancel :: "(('a, 'k) TCPSpongeSocket, unit) io" where
  "rule2_cancel =
     io_bind tcp_ptr (\<lambda>c. io_bind (io_lift (end_input_stream c)) (\<lambda>c.
     io_bind (set_tcp c) (\<lambda>_. io_modify (\<lambda>s. s\<lparr>ss_outbound_shutdown := True\<rparr>))))"

definition rule2_eof :: "('a, 'k) env \<Rightarrow> FileDescriptor \<Rightarrow> (('a, 'k) TCPSpongeSocket, unit) io" where
  "rule2_eof env thread_data =
     io_bind (io_get (\<lambda>s. fd_eof thread_data (ss_sys s))) (\<lambda>at_eof.
     io_when at_eof
       (io_bind rule2_cancel (\<lambda>_. io_bind (destination_text env) (\<lambda>_. io_bind tcp_value (\<lambda>_. io_return ())))))"

definition rule2_callback :: "('a, 'k) env \<Rightarrow> (('a, 'k) TCPSpongeSocket, unit) io" where
  "rule2_callback env =
     io_bind tcp_ptr (\<lambda>c.
     io_bind (io_get ss_thread_data) (\<lambda>thread_data.
     io_bind (on_sys (fd_read (en_kernel env) thread_data (remaining_outbound_capacity c))) (\<lambda>data.
     io_bind tcp_ptr (\<lambda>c.
     io_bind (io_lift (tc_write c data)) (\<lambda>(c, amount_written).
     io_bind (set_tcp c) (\<lambda>_.
     if amount_written \<noteq> length data then io_throw RuntimeError else rule2_eof env thread_data))))))"

definition rule2_interest :: "(('a, 'k) TCPSpongeSocket, bool) io" where
  "rule2_interest =
     io_bind tcp_ptr (\<lambda>c. io_bind (io_get ss_outbound_shutdown) (\<lambda>outbound_shutdown.
       io_return (tc_active_now c \<and> \<not> outbound_shutdown \<and> remaining_outbound_capacity c > 0)))"

text \<open>Rule 3: read from the inbound buffer into the pipe.\<close>

definition finish_inbound :: "('a, 'k) env \<Rightarrow> FileDescriptor \<Rightarrow> (('a, 'k) TCPSpongeSocket, unit) io" where
  "finish_inbound env thread_data =
     io_bind (on_sys (shutdown (en_kernel env) thread_data SHUT_WR)) (\<lambda>_.
     io_bind (io_modify (\<lambda>s. s\<lparr>ss_inbound_shutdown := True\<rparr>)) (\<lambda>_.
     io_bind (destination_text env) (\<lambda>_. io_bind tcp_value (\<lambda>_. io_return ()))))"

definition rule3_callback :: "('a, 'k) env \<Rightarrow> (('a, 'k) TCPSpongeSocket, unit) io" where
  "rule3_callback env =
     io_bind tcp_ptr (\<lambda>c.
     io_bind (io_get ss_thread_data) (\<lambda>thread_data.
     let inbound = tc_inbound_stream c; amount_to_write = min 65536 (buffer_size inbound) in
     io_bind (io_lift (peek_output True inbound amount_to_write)) (\<lambda>buffer.
     io_bind (on_sys (fd_write (en_kernel env) thread_data (BufferViewList_of_string buffer) False)) (\<lambda>bytes_written.
     io_bind (io_lift (pop_output inbound bytes_written)) (\<lambda>inbound.
     io_bind (set_tcp (set_inbound inbound c)) (\<lambda>_.
     io_when (eof inbound \<or> bs_error inbound) (finish_inbound env thread_data)))))))"

definition rule3_interest :: "(('a, 'k) TCPSpongeSocket, bool) io" where
  "rule3_interest =
     io_bind tcp_ptr (\<lambda>c. io_bind (io_get ss_inbound_shutdown) (\<lambda>inbound_shutdown.
       io_return (\<not> buffer_empty (tc_inbound_stream c) \<or>
         (eof (tc_inbound_stream c) \<or> bs_error (tc_inbound_stream c)) \<and> \<not> inbound_shutdown)))"

text \<open>Rule 4: send the segments of the TCPConnection as datagrams.\<close>

fun send_segments :: "('a, 'k) env \<Rightarrow> TCPSegment list \<Rightarrow> (('a, 'k) TCPSpongeSocket, unit) io" where
  "send_segments env [] = io_return ()"
| "send_segments env (seg # segments_out) =
     io_bind (on_adapter (at_write (en_adapter env) seg)) (\<lambda>_.
     io_bind tcp_ptr (\<lambda>c.
     io_bind (set_tcp (c\<lparr>tc_segments_out := segments_out\<rparr>)) (\<lambda>_. send_segments env segments_out)))"

definition rule4_callback :: "('a, 'k) env \<Rightarrow> (('a, 'k) TCPSpongeSocket, unit) io" where
  "rule4_callback env = io_bind tcp_ptr (\<lambda>c. send_segments env (tc_segments_out c))"

definition rule4_interest :: "(('a, 'k) TCPSpongeSocket, bool) io" where
  "rule4_interest = io_bind tcp_ptr (\<lambda>c. io_return (tc_segments_out c \<noteq> []))"

definition tcp_rules :: "('a, 'k) env \<Rightarrow> FileDescriptor \<Rightarrow> FileDescriptor \<Rightarrow>
    ('a, 'k) TCPSpongeSocket Rule list \<Rightarrow> ('a, 'k) TCPSpongeSocket Rule list" where
  "tcp_rules env adapter_fd thread_data rules =
     add_rule adapter_fd Out (rule4_callback env) rule4_interest (io_return ())
     (add_rule thread_data Out (rule3_callback env) rule3_interest (io_return ())
     (add_rule thread_data In (rule2_callback env) rule2_interest rule2_cancel
     (add_rule adapter_fd In (rule1_callback env) rule1_interest (io_return ()) rules)))"

section \<open>The loop of the connection\<close>

type_synonym ('a, 'k) sponge = "('a, 'k) TCPSpongeSocket Rule list \<times> ('a, 'k) TCPSpongeSocket"

definition initialize_TCP :: "('a, 'k) env \<Rightarrow> TCPConfig \<Rightarrow> 32 word \<Rightarrow> ('a, 'k) sponge \<Rightarrow> ('a, 'k) sponge" where
  "initialize_TCP env config random_isn = (\<lambda>(rules, s).
     (tcp_rules env (at_fd (en_adapter env) (ss_datagram_adapter s)) (ss_thread_data s) rules,
      s\<lparr>ss_tcp := Some (TCPConnection_new config random_isn)\<rparr>))"

definition TCP_TICK_MS :: int where
  "TCP_TICK_MS = 10"

definition sponge_poll :: "('a, 'k) env \<Rightarrow> pollfd list \<Rightarrow> int \<Rightarrow> (('a, 'k) TCPSpongeSocket, 16 word list) call" where
  "sponge_poll env pollfds timeout_ms s =
     (case k_poll (en_kernel env) pollfds timeout_ms (sys_kernel (ss_sys s)) of (out, k) \<Rightarrow>
        (out, s\<lparr>ss_sys := (ss_sys s)\<lparr>sys_kernel := k\<rparr>\<rparr>))"

definition sponge_wait :: "('a, 'k) env \<Rightarrow> (('a, 'k) sponge, Result) io" where
  "sponge_wait env = (\<lambda>(rules, s).
     wait_next_event (\<lambda>s. sys_fds (ss_sys s)) (sponge_poll env) TCP_TICK_MS rules s)"

definition on_socket :: "(('a, 'k) TCPSpongeSocket, 'b) io \<Rightarrow> (('a, 'k) sponge, 'b) io" where
  "on_socket m = (\<lambda>(rules, s). case m s of (r, s) \<Rightarrow> (r, (rules, s)))"

text \<open>
  One pass of the loop body: \<open>None\<close> when it breaks, otherwise the new base time.
\<close>

definition loop_body :: "('a, 'k) env \<Rightarrow> nat \<Rightarrow> (('a, 'k) sponge, nat option) io" where
  "loop_body env base_time =
     io_bind (sponge_wait env) (\<lambda>ret.
     io_bind (on_socket (io_get ss_abort)) (\<lambda>abort.
     if ret = Exit \<or> abort then io_return None
     else
       io_bind (on_socket tcp_value) (\<lambda>c.
       if tc_active_now c then
         io_bind (on_socket (on_sys (timestamp_ms (en_kernel env)))) (\<lambda>next_time.
         io_bind (on_socket (set_tcp (tc_tick c (sub64 next_time base_time)))) (\<lambda>_.
         io_bind (on_socket (on_adapter (at_tick (en_adapter env) (sub64 next_time base_time)))) (\<lambda>_.
           io_return (Some next_time))))
       else io_return (Some base_time))))"

partial_function (option) tcp_loop ::
  "('a, 'k) env \<Rightarrow> (('a, 'k) TCPSpongeSocket, bool) io \<Rightarrow> nat \<Rightarrow> ('a, 'k) sponge \<Rightarrow> (unit result \<times> ('a, 'k) sponge) option" where
  "tcp_loop env condition base_time sp =
     (case on_socket condition sp of
        (Inl e, sp) \<Rightarrow> Some (Inl e, sp)
      | (Inr go, sp) \<Rightarrow>
          if \<not> go then Some (Inr (), sp)
          else case loop_body env base_time sp of
            (Inl e, sp) \<Rightarrow> Some (Inl e, sp)
          | (Inr None, sp) \<Rightarrow> Some (Inr (), sp)
          | (Inr (Some next_time), sp) \<Rightarrow> tcp_loop env condition next_time sp)"

definition run_tcp_loop ::
  "('a, 'k) env \<Rightarrow> (('a, 'k) TCPSpongeSocket, bool) io \<Rightarrow> ('a, 'k) sponge \<Rightarrow> (unit result \<times> ('a, 'k) sponge) option" where
  "run_tcp_loop env condition sp =
     (case on_socket (on_sys (timestamp_ms (en_kernel env))) sp of
        (Inl e, sp) \<Rightarrow> Some (Inl e, sp)
      | (Inr base_time, sp) \<Rightarrow> tcp_loop env condition base_time sp)"

section \<open>Connecting\<close>

definition in_state :: "State list \<Rightarrow> (('a, 'k) TCPSpongeSocket, bool) io" where
  "in_state states = io_bind tcp_ptr (\<lambda>c. io_return (\<exists>st\<in>set states. TCPState_eq (tc_state c) (TCPState_of_State st)))"

definition set_adapter_config :: "('a, 'k) env \<Rightarrow> FdAdapterConfig \<Rightarrow> ('a, 'k) TCPSpongeSocket \<Rightarrow> ('a, 'k) TCPSpongeSocket" where
  "set_adapter_config env c_ad s = s\<lparr>ss_datagram_adapter := at_set_config (en_adapter env) c_ad (ss_datagram_adapter s)\<rparr>"

definition start_connect :: "('a, 'k) env \<Rightarrow> TCPConfig \<Rightarrow> FdAdapterConfig \<Rightarrow> 32 word \<Rightarrow> (('a, 'k) sponge, unit) io" where
  "start_connect env c_tcp c_ad random_isn =
     io_bind (on_socket (io_get ss_tcp)) (\<lambda>tcp.
     if tcp \<noteq> None then io_throw RuntimeError
     else
       io_bind (io_modify (initialize_TCP env c_tcp random_isn)) (\<lambda>_.
       io_bind (on_socket (io_modify (set_adapter_config env c_ad))) (\<lambda>_.
       io_bind (io_lift (Address_to_string (en_resolver env) (fc_destination c_ad))) (\<lambda>_.
       io_bind (on_socket tcp_ptr) (\<lambda>c.
       io_bind (io_lift (connect c)) (\<lambda>c.
       io_bind (on_socket (set_tcp c)) (\<lambda>_.
       io_bind (on_socket (in_state [SYN_SENT])) (\<lambda>as_expected.
         if as_expected then io_return () else io_throw RuntimeError))))))))"

definition start_listen :: "('a, 'k) env \<Rightarrow> TCPConfig \<Rightarrow> FdAdapterConfig \<Rightarrow> 32 word \<Rightarrow> (('a, 'k) sponge, unit) io" where
  "start_listen env c_tcp c_ad random_isn =
     io_bind (on_socket (io_get ss_tcp)) (\<lambda>tcp.
     if tcp \<noteq> None then io_throw RuntimeError
     else
       io_bind (io_modify (initialize_TCP env c_tcp random_isn)) (\<lambda>_.
       io_bind (on_socket (io_modify (set_adapter_config env c_ad))) (\<lambda>_.
       on_socket (io_modify (\<lambda>s. s\<lparr>ss_datagram_adapter :=
         at_set_listening (en_adapter env) True (ss_datagram_adapter s)\<rparr>)))))"

text \<open>Running the loop until the handshake is over, printing the address and starting the thread.\<close>

definition finish_handshake ::
  "('a, 'k) env \<Rightarrow> State list \<Rightarrow> (('a, 'k) TCPSpongeSocket, string) io \<Rightarrow> ('a, 'k) sponge \<Rightarrow>
   (unit result \<times> ('a, 'k) sponge) option" where
  "finish_handshake env states address_text sp =
     Option.bind (run_tcp_loop env (in_state states) sp) (\<lambda>(r, sp).
       case r of
         Inl e \<Rightarrow> Some (Inl e, sp)
       | Inr _ \<Rightarrow> Some (on_socket (io_bind address_text (\<lambda>_. io_modify (\<lambda>s. s\<lparr>ss_joinable := True\<rparr>))) sp))"

definition sponge_connect ::
  "('a, 'k) env \<Rightarrow> TCPConfig \<Rightarrow> FdAdapterConfig \<Rightarrow> 32 word \<Rightarrow> ('a, 'k) sponge \<Rightarrow> (unit result \<times> ('a, 'k) sponge) option" where
  "sponge_connect env c_tcp c_ad random_isn sp =
     (case start_connect env c_tcp c_ad random_isn sp of
        (Inl e, sp) \<Rightarrow> Some (Inl e, sp)
      | (Inr _, sp) \<Rightarrow> finish_handshake env [SYN_SENT]
          (io_lift (Address_to_string (en_resolver env) (fc_destination c_ad))) sp)"

definition listen_and_accept ::
  "('a, 'k) env \<Rightarrow> TCPConfig \<Rightarrow> FdAdapterConfig \<Rightarrow> 32 word \<Rightarrow> ('a, 'k) sponge \<Rightarrow> (unit result \<times> ('a, 'k) sponge) option" where
  "listen_and_accept env c_tcp c_ad random_isn sp =
     (case start_listen env c_tcp c_ad random_isn sp of
        (Inl e, sp) \<Rightarrow> Some (Inl e, sp)
      | (Inr _, sp) \<Rightarrow> finish_handshake env [LISTEN, SYN_RCVD, SYN_SENT] (destination_text env) sp)"

text \<open>The main function of the connection's thread; destroying the TCPConnection at its end drops the segments it queues.\<close>

definition tcp_finish :: "('a, 'k) env \<Rightarrow> (('a, 'k) sponge, unit) io" where
  "tcp_finish env =
     io_bind (on_socket (\<lambda>s. on_sys (shutdown (en_kernel env) (ss_socket s) SHUT_RDWR) s)) (\<lambda>_.
     io_bind (on_socket tcp_value) (\<lambda>_.
     on_socket (io_modify (\<lambda>s. s\<lparr>ss_tcp := None\<rparr>))))"

definition tcp_main :: "('a, 'k) env \<Rightarrow> ('a, 'k) sponge \<Rightarrow> (unit result \<times> ('a, 'k) sponge) option" where
  "tcp_main env sp =
     (if ss_tcp (snd sp) = None then Some (Inl RuntimeError, sp)
      else Option.bind (run_tcp_loop env (io_return True) sp) (\<lambda>(r, sp).
        case r of Inl e \<Rightarrow> Some (Inl e, sp) | Inr _ \<Rightarrow> Some (tcp_finish env sp)))"

text \<open>
  The same function in steps, to interleave it with the thread of the owner: the start, the passes of its loop,
  the last one with what follows the loop. \<open>Died\<close>: an exception has left it, which ends the process.
\<close>

datatype thread = Starting | Looping nat | Done | Died cpp_error

definition thread_step :: "('a, 'k) env \<Rightarrow> thread \<times> ('a, 'k) sponge \<Rightarrow> thread \<times> ('a, 'k) sponge" where
  "thread_step env = (\<lambda>(th, sp).
     case th of
       Starting \<Rightarrow>
         if ss_tcp (snd sp) = None then (Died RuntimeError, sp)
         else (case on_socket (on_sys (timestamp_ms (en_kernel env))) sp of
                 (Inl e, sp) \<Rightarrow> (Died e, sp)
               | (Inr base_time, sp) \<Rightarrow> (Looping base_time, sp))
     | Looping base_time \<Rightarrow>
         (case loop_body env base_time sp of
            (Inl e, sp) \<Rightarrow> (Died e, sp)
          | (Inr (Some next_time), sp) \<Rightarrow> (Looping next_time, sp)
          | (Inr None, sp) \<Rightarrow>
              (case tcp_finish env sp of (Inl e, sp) \<Rightarrow> (Died e, sp) | (Inr _, sp) \<Rightarrow> (Done, sp)))
     | _ \<Rightarrow> (th, sp))"

section \<open>Construction and destruction\<close>

definition socket_pair_helper :: "'k kernel \<Rightarrow> int \<Rightarrow> ('k system, FileDescriptor \<times> FileDescriptor) io" where
  "socket_pair_helper kc typ =
     io_bind (system_call (k_socketpair kc AF_UNIX typ 0)) (\<lambda>(_, fd0, fd1).
     io_bind (FileDescriptor_new fd0) (\<lambda>d0.
     io_cleanup (io_bind (FileDescriptor_new fd1) (\<lambda>d1. io_return (d0, d1))) (FDWrapper_destroy kc d0)))"

definition local_sockets :: "'k kernel \<Rightarrow> ('k system, FileDescriptor \<times> FileDescriptor) io" where
  "local_sockets kc =
     io_bind (socket_pair_helper kc SOCK_STREAM) (\<lambda>(d0, d1).
     io_bind (io_cleanup (LocalStreamSocket_of_fd kc d0) (FDWrapper_destroy kc d1)) (\<lambda>_.
     io_cleanup
       (io_bind (LocalStreamSocket_of_fd kc d1) (\<lambda>_.
        io_bind (io_cleanup (set_blocking kc d1 False) (FDWrapper_destroy kc d1)) (\<lambda>_. io_return (d0, d1))))
       (FDWrapper_destroy kc d0)))"

definition TCPSpongeSocket_new ::
  "('a, 'k) env \<Rightarrow> 'a \<Rightarrow> 'k system \<Rightarrow> ('a, 'k) TCPSpongeSocket result \<times> 'k system" where
  "TCPSpongeSocket_new env datagram_interface sys =
     (case local_sockets (en_kernel env) sys of
        (Inl e, sys) \<Rightarrow> (Inl e, sys)
      | (Inr (d0, d1), sys) \<Rightarrow>
          (Inr \<lparr>ss_sys = sys, ss_socket = d0, ss_thread_data = d1, ss_datagram_adapter = datagram_interface,
                ss_tcp = None, ss_joinable = False, ss_abort = False, ss_inbound_shutdown = False,
                ss_outbound_shutdown = False, ss_fully_acked = False\<rparr>, sys))"

text \<open>Joining the thread waits until \<open>tcp_main\<close> has returned.\<close>

definition TCPSpongeSocket_destroy :: "('a, 'k) TCPSpongeSocket \<Rightarrow> ('a, 'k) TCPSpongeSocket" where
  "TCPSpongeSocket_destroy s = (if ss_joinable s then s\<lparr>ss_abort := True, ss_joinable := False\<rparr> else s)"

definition wait_until_closed :: "('a, 'k) env \<Rightarrow> (('a, 'k) TCPSpongeSocket, unit) io" where
  "wait_until_closed env =
     io_bind (io_get ss_socket) (\<lambda>d.
     io_bind (on_sys (shutdown (en_kernel env) d SHUT_RDWR)) (\<lambda>_.
       io_modify (\<lambda>s. if ss_joinable s then s\<lparr>ss_joinable := False\<rparr> else s)))"

section \<open>The CS144 socket and the full stack\<close>

definition client_config :: "resolver \<Rightarrow> string \<Rightarrow> 16 word \<Rightarrow> Address \<Rightarrow> FdAdapterConfig result" where
  "client_config rs local_ip random_port address =
     result_bind (FdAdapterConfig_new rs) (\<lambda>multiplexer_config.
     result_bind (Address_of_hostname rs local_ip (dec_string (unat random_port))) (\<lambda>source.
       Inr (multiplexer_config\<lparr>fc_source := source, fc_destination := address\<rparr>)))"

definition client_connect ::
  "('a, 'k) env \<Rightarrow> string \<Rightarrow> 16 word \<Rightarrow> 32 word \<Rightarrow> Address \<Rightarrow> ('a, 'k) sponge \<Rightarrow> (unit result \<times> ('a, 'k) sponge) option" where
  "client_connect env local_ip random_port random_isn address sp =
     (case client_config (en_resolver env) local_ip random_port address of
        Inl e \<Rightarrow> Some (Inl e, sp)
      | Inr multiplexer_config \<Rightarrow>
          sponge_connect env (TCPConfig_default\<lparr>cfg_rt_timeout := 100\<rparr>) multiplexer_config random_isn sp)"

definition CS144TCPSocket_connect ::
  "('a, 'k) env \<Rightarrow> 16 word \<Rightarrow> 32 word \<Rightarrow> Address \<Rightarrow> ('a, 'k) sponge \<Rightarrow> (unit result \<times> ('a, 'k) sponge) option" where
  "CS144TCPSocket_connect env = client_connect env ''169.254.144.9''"

definition LOCAL_TAP_IP_ADDRESS :: string where
  "LOCAL_TAP_IP_ADDRESS = ''169.254.10.9''"

definition LOCAL_TAP_NEXT_HOP_ADDRESS :: string where
  "LOCAL_TAP_NEXT_HOP_ADDRESS = ''169.254.10.1''"

definition FullStackSocket_connect ::
  "('a, 'k) env \<Rightarrow> 16 word \<Rightarrow> 32 word \<Rightarrow> Address \<Rightarrow> ('a, 'k) sponge \<Rightarrow> (unit result \<times> ('a, 'k) sponge) option" where
  "FullStackSocket_connect env = client_connect env LOCAL_TAP_IP_ADDRESS"

definition FullStackSocket_adapter :: "resolver \<Rightarrow> EthernetAddress \<Rightarrow> TCPOverIPv4OverEthernetAdapter result" where
  "FullStackSocket_adapter rs eth_address =
     result_bind (Address_of_hostname rs LOCAL_TAP_IP_ADDRESS ''0'') (\<lambda>ip_address.
     result_bind (Address_of_hostname rs LOCAL_TAP_NEXT_HOP_ADDRESS ''0'') (\<lambda>next_hop.
       EthernetAdapter_new rs eth_address ip_address next_hop))"

definition random_private_ethernet_address :: "32 word list \<Rightarrow> EthernetAddress" where
  "random_private_ethernet_address random =
     (let addr = map ucast (take 6 random) in addr[0 := (addr ! 0 OR 0x02) AND 0xfe])"

end
