(* ===== verification/Loop_Invariants.thy ===== *)
theory Loop_Invariants
  imports Event_Loop
begin

text \<open>
  Invariants of a client of the event loop. \<open>keeps I P m Q\<close>: run from a state with \<open>I\<close> and \<open>P\<close>, the
  operation \<open>m\<close> keeps \<open>I\<close>, also when it throws, and \<open>Q\<close> holds of what it returns. \<open>maintains I m\<close>: it keeps
  \<open>I\<close>. An invariant that is kept by the functions of the rules and by poll is kept by
  \<open>wait_next_event\<close>.
\<close>

named_theorems keeps_rules \<open>rules that follow the structure of an operation\<close>
named_theorems maintains_rules \<open>rules for operations that keep an invariant\<close>

definition keeps :: "('s \<Rightarrow> bool) \<Rightarrow> ('s \<Rightarrow> bool) \<Rightarrow> ('s, 'a) io \<Rightarrow> ('a \<Rightarrow> 's \<Rightarrow> bool) \<Rightarrow> bool" where
  "keeps I P m Q \<longleftrightarrow> (\<forall>s. I s \<and> P s \<longrightarrow> (case m s of (Inl _, s') \<Rightarrow> I s' | (Inr x, s') \<Rightarrow> I s' \<and> Q x s'))"

definition maintains :: "('s \<Rightarrow> bool) \<Rightarrow> ('s, 'a) io \<Rightarrow> bool" where
  "maintains I m \<longleftrightarrow> (\<forall>s. I s \<longrightarrow> I (snd (m s)))"

lemma keepsD:
  assumes "keeps I P m Q" and "I s" and "P s" and "m s = (r, s')"
  shows "I s'" and "r = Inr x \<Longrightarrow> Q x s'"
  using assms unfolding keeps_def by (fastforce split: sum.splits)+

lemma keepsI:
  assumes "\<And>s r s'. I s \<Longrightarrow> P s \<Longrightarrow> m s = (r, s') \<Longrightarrow> I s' \<and> (\<forall>x. r = Inr x \<longrightarrow> Q x s')"
  shows "keeps I P m Q"
  using assms unfolding keeps_def by (fastforce split: sum.splits prod.splits)

lemma keeps_maintains: "keeps I (\<lambda>_. True) m (\<lambda>_ _. True) \<longleftrightarrow> maintains I m"
proof -
  have "(case m s of (Inl _, s') \<Rightarrow> I s' | (Inr x, s') \<Rightarrow> I s' \<and> True) = I (snd (m s))" for s
    by (auto split: prod.splits sum.splits)
  then show ?thesis by (simp add: keeps_def maintains_def)
qed

lemma keeps_bind:
  assumes "keeps I P m Q" and "\<And>x. keeps I (Q x) (f x) R"
  shows "keeps I P (io_bind m f) R"
proof (rule keepsI)
  fix s r s' assume s: "I s" "P s" and run: "io_bind m f s = (r, s')"
  obtain r1 s1 where m: "m s = (r1, s1)" by (cases "m s")
  note m' = keepsD [OF assms(1) s m]
  show "I s' \<and> (\<forall>x. r = Inr x \<longrightarrow> R x s')"
  proof (cases r1)
    case (Inl e)
    with run m m'(1) show ?thesis by (auto simp: io_bind_def)
  next
    case (Inr x)
    with run m have "f x s1 = (r, s')" by (simp add: io_bind_def)
    from keepsD [OF assms(2) m'(1) m'(2) [OF Inr] this] show ?thesis by blast
  qed
qed

lemma keeps_basic [keeps_rules]:
  "keeps I P (io_throw e) Q"
  "(\<And>s. I s \<Longrightarrow> P s \<Longrightarrow> Q x s) \<Longrightarrow> keeps I P (io_return x) Q"
  "(\<And>s. I s \<Longrightarrow> P s \<Longrightarrow> Q (g s) s) \<Longrightarrow> keeps I P (io_get g) Q"
  "(\<And>x s. I s \<Longrightarrow> P s \<Longrightarrow> v = Inr x \<Longrightarrow> Q x s) \<Longrightarrow> keeps I P (io_lift v) Q"
  by (auto simp: keeps_def io_run split: sum.splits)

lemma keeps_modify [keeps_rules]: "(\<And>s. I s \<Longrightarrow> P s \<Longrightarrow> I (h s) \<and> Q () (h s)) \<Longrightarrow> keeps I P (io_modify h) Q"
  by (auto simp: keeps_def io_run)

lemma keeps_when [keeps_rules]: "(c \<Longrightarrow> keeps I P m Q) \<Longrightarrow> (\<not> c \<Longrightarrow> (\<And>s. I s \<Longrightarrow> P s \<Longrightarrow> Q () s)) \<Longrightarrow> keeps I P (io_when c m) Q"
  by (auto simp: keeps_def io_when_run)

lemma keeps_weaken: "keeps I P m Q \<Longrightarrow> (\<And>s. I s \<Longrightarrow> P' s \<Longrightarrow> P s) \<Longrightarrow> (\<And>x s. I s \<Longrightarrow> Q x s \<Longrightarrow> Q' x s) \<Longrightarrow> keeps I P' m Q'"
  unfolding keeps_def by (fastforce split: sum.splits prod.splits)

lemma keeps_assume: "(q \<Longrightarrow> keeps I (\<lambda>_. True) m Q) \<Longrightarrow> keeps I (\<lambda>_. q) m Q"
  by (cases q) (simp_all add: keeps_def)

lemma maintainsD: "maintains I m \<Longrightarrow> I s \<Longrightarrow> m s = (r, s') \<Longrightarrow> I s'"
  by (auto simp: maintains_def)

lemma maintains_return [simp]: "maintains I (io_return x)"
  by (simp add: maintains_def io_run)

lemma maintains_basic [maintains_rules]:
  "maintains I (io_throw e)" "maintains I (io_return x)" "maintains I (io_get g)" "maintains I (io_lift v)"
  by (simp_all add: maintains_def io_run)

lemma maintains_bind [maintains_rules]:
  "maintains I m \<Longrightarrow> (\<And>x. maintains I (f x)) \<Longrightarrow> maintains I (io_bind m f)"
  unfolding maintains_def io_bind_def by (auto split: prod.splits sum.splits)

lemma maintains_when [maintains_rules]: "maintains I m \<Longrightarrow> maintains I (io_when c m)"
  by (simp add: maintains_def io_when_run)

lemma maintains_if [maintains_rules]: "maintains I m \<Longrightarrow> maintains I m' \<Longrightarrow> maintains I (if c then m else m')"
  by simp

lemma maintains_case [maintains_rules]:
  "maintains I m \<Longrightarrow> (\<And>x. maintains I (f x)) \<Longrightarrow> maintains I (case v of None \<Rightarrow> m | Some x \<Rightarrow> f x)"
  "(\<And>x y. maintains I (g x y)) \<Longrightarrow> maintains I (case w of (x, y) \<Rightarrow> g x y)"
  by (simp_all split: option.splits prod.splits)

lemma maintains_let [maintains_rules]: "maintains I (f x) \<Longrightarrow> maintains I (let y = x in f y)"
  by simp

text \<open>What is read from the state may be used with what the invariant says of it.\<close>

lemma maintains_get_bind:
  "(\<And>s. I s \<Longrightarrow> maintains I (f (g s))) \<Longrightarrow> maintains I (io_bind (io_get g) f)"
  by (simp add: maintains_def io_bind_def io_run)

section \<open>Invariants and the event loop\<close>

definition steady :: "('w \<Rightarrow> bool) \<Rightarrow> 'w Rule \<Rightarrow> bool" where
  "steady I r \<longleftrightarrow> maintains I (ru_callback r) \<and> maintains I (ru_interest r) \<and> maintains I (ru_cancel r)"

lemma steadyD:
  "steady I r \<Longrightarrow> I w \<Longrightarrow> ru_callback r w = (x, w') \<Longrightarrow> I w'"
  "steady I r \<Longrightarrow> I w \<Longrightarrow> ru_interest r w = (y, w') \<Longrightarrow> I w'"
  "steady I r \<Longrightarrow> I w \<Longrightarrow> ru_cancel r w = (x, w') \<Longrightarrow> I w'"
  unfolding steady_def by (blast dest: maintainsD)+

lemma setup_pollfds_maintains:
  "setup_pollfds fds kept pollfds b rules w = (res, rules', w') \<Longrightarrow> list_all (steady I) rules \<Longrightarrow> I w \<Longrightarrow> I w'"
  by (induction rules arbitrary: kept pollfds b w)
    (auto split: if_splits prod.splits sum.splits dest: steadyD)

lemma serve_rule_maintains: "serve_rule fds r w = (res, w') \<Longrightarrow> steady I r \<Longrightarrow> I w \<Longrightarrow> I w'"
  by (auto simp: serve_rule_def Let_def io_bind_def io_run split: if_splits prod.splits sum.splits dest: steadyD)

lemma poll_results_maintains:
  "poll_results fds kept rules pollfds w = (res, rules', w') \<Longrightarrow> list_all (steady I) rules \<Longrightarrow> I w \<Longrightarrow> I w'"
  by (induction fds kept rules pollfds w rule: poll_results.induct)
    (auto split: if_splits prod.splits sum.splits dest: steadyD serve_rule_maintains)

lemma wait_next_event_maintains:
  assumes "wait_next_event fds poll timeout_ms rules w = (res, rules', w')" and "list_all (steady I) rules" and "I w"
    and "\<And>pollfds w. I w \<Longrightarrow> I (snd (poll pollfds timeout_ms w))"
  shows "I w'" and "list_all (steady I) rules'"
proof -
  obtain r1 rules1 w1 where first: "setup_pollfds fds [] [] False rules w = (r1, rules1, w1)" by (metis prod_cases3)
  have w1: "I w1" by (rule setup_pollfds_maintains [OF first assms(2,3)])
  have rules1: "list_all (steady I) rules1"
    using setup_pollfds_keeps [OF first] assms(2) list_all_subseq by (auto simp: thinned_def)
  have poll: "I w2" if "poll p timeout_ms w1 = (x, w2)" for p x w2
    using assms(4) [OF w1, of p] that by simp
  show "I w'"
    using assms(1) first w1 poll poll_results_maintains [OF _ rules1]
    by (auto simp: wait_next_event_def split: if_splits prod.splits sum.splits)
  show "list_all (steady I) rules'"
    using event_loop_rules [OF assms(1)] assms(2) list_all_subseq by blast
qed

end
