(* ===== verification/Sponge_Properties.thy ===== *)
theory Sponge_Properties
  imports Sponge_Socket Loop_Invariants Connection_Contract Adapter_Properties
begin

text \<open>
  What TCPSpongeSocket does with the bytes of its application: those read from the local socket enter the
  stream of the connection, all of them and once, and those written to it are, in every state the event
  loop can reach, a prefix of the stream of the peer.

  \<open>ins k fd\<close> and \<open>out k fd\<close> are the bytes read from and written to a descriptor in kernel state \<open>k\<close>.
\<close>

section \<open>The pipe to the application\<close>

definition pipe_fd :: "('a, 'k) TCPSpongeSocket \<Rightarrow> int" where
  "pipe_fd s = fd_num (ss_thread_data s) (ss_sys s)"

definition pipe_log :: "('k \<Rightarrow> int \<Rightarrow> bytes) \<Rightarrow> ('a, 'k) TCPSpongeSocket \<Rightarrow> bytes" where
  "pipe_log log s = log (sys_kernel (ss_sys s)) (pipe_fd s)"

definition destination_known :: "('a, 'k) env \<Rightarrow> ('a, 'k) TCPSpongeSocket \<Rightarrow> bool" where
  "destination_known env s \<longleftrightarrow>
     (\<exists>t. Address_to_string (en_resolver env) (fc_destination (at_config (en_adapter env) (ss_datagram_adapter s))) = Inr t)"

lemma tcp_run: "ss_tcp s = Some c \<Longrightarrow> tcp_ptr s = (Inr c, s)" "ss_tcp s = Some c \<Longrightarrow> tcp_value s = (Inr c, s)"
  by (simp_all add: tcp_ptr_def tcp_value_def)

lemmas sponge_run = io_bind_def io_run io_when_run on_sys_def set_tcp_def

section \<open>Bytes to the application\<close>

text \<open>
  \<open>nums sys\<close> is the table of descriptor numbers, which nothing the loop does changes. \<open>adapter_ok\<close>: the
  adapter, in the states \<open>A\<close> and with the table \<open>num\<close>, leaves the pipe alone and returns nothing but resets and
  segments of the stream \<open>S\<close>.
\<close>

definition nums :: "'k system \<Rightarrow> FileDescriptor \<Rightarrow> int" where
  "nums sys = (\<lambda>d. fd_num d sys)"

definition kept :: "('k \<Rightarrow> int \<Rightarrow> bytes) \<Rightarrow> FileDescriptor \<Rightarrow> 'k system \<Rightarrow> 'k system \<Rightarrow> bool" where
  "kept out td sys sys' \<longleftrightarrow>
     nums sys' = nums sys \<and> out (sys_kernel sys') (fd_num td sys) = out (sys_kernel sys) (fd_num td sys)"

lemma kept_iff:
  "kept out td sys sys' \<longleftrightarrow> (\<forall>d. fd_num d sys' = fd_num d sys) \<and>
     out (sys_kernel sys') (fd_num td sys) = out (sys_kernel sys) (fd_num td sys)"
  by (simp add: kept_def nums_def fun_eq_iff)

lemma kept_nums: "kept out td sys sys' \<Longrightarrow> nums sys' = nums sys"
  by (simp add: kept_def)

definition frame_of :: "bytes \<Rightarrow> WrappingInt32 \<Rightarrow> TCPSegment \<Rightarrow> bool" where
  "frame_of S isn seg \<longleftrightarrow> th_rst (ts_header seg) \<or> (\<exists>a. segment_of S isn a seg)"

definition adapter_ok ::
  "('a, 'k) AdaptT \<Rightarrow> ('k \<Rightarrow> int \<Rightarrow> bytes) \<Rightarrow> ('a \<Rightarrow> bool) \<Rightarrow> FileDescriptor \<Rightarrow> (FileDescriptor \<Rightarrow> int) \<Rightarrow> bytes \<Rightarrow> WrappingInt32 \<Rightarrow> bool" where
  "adapter_ok ad out A td num S isn \<longleftrightarrow> (\<forall>a sys. A a \<and> nums sys = num \<longrightarrow>
     (case at_read ad (a, sys) of (r, a', sys') \<Rightarrow>
        A a' \<and> kept out td sys sys' \<and> (\<forall>seg. r = Inr (Some seg) \<longrightarrow> frame_of S isn seg)) \<and>
     (\<forall>seg. case at_write ad seg (a, sys) of (r, a', sys') \<Rightarrow> A a' \<and> kept out td sys sys') \<and>
     (\<forall>ms. case at_tick ad ms (a, sys) of (r, a', sys') \<Rightarrow> A a' \<and> kept out td sys sys'))"

definition receiver_reads :: "('k \<Rightarrow> int \<Rightarrow> bytes) \<Rightarrow> bytes \<Rightarrow> WrappingInt32 \<Rightarrow> TCPConnection \<Rightarrow> ('a, 'k) TCPSpongeSocket \<Rightarrow> bool" where
  "receiver_reads out S isn c s \<longleftrightarrow>
     tr_run_inv S isn (tc_receiver c) \<and> pipe_log out s = take (bs_bytes_read (tc_inbound_stream c)) S"

definition sponge_reads ::
  "('k \<Rightarrow> int \<Rightarrow> bytes) \<Rightarrow> ('a \<Rightarrow> bool) \<Rightarrow> FileDescriptor \<Rightarrow> (FileDescriptor \<Rightarrow> int) \<Rightarrow> bytes \<Rightarrow> WrappingInt32 \<Rightarrow> ('a, 'k) TCPSpongeSocket \<Rightarrow> bool" where
  "sponge_reads out A td num S isn s \<longleftrightarrow> ss_thread_data s = td \<and> nums (ss_sys s) = num \<and> A (ss_datagram_adapter s) \<and>
     prefix (pipe_log out s) S \<and> (\<forall>c. ss_tcp s = Some c \<longrightarrow> receiver_reads out S isn c s)"

lemma pipe_log_update [simp]:
  "pipe_log log (s\<lparr>ss_tcp := t\<rparr>) = pipe_log log s" "pipe_log log (s\<lparr>ss_datagram_adapter := a\<rparr>) = pipe_log log s"
  "pipe_log log (s\<lparr>ss_outbound_shutdown := b\<rparr>) = pipe_log log s" "pipe_log log (s\<lparr>ss_inbound_shutdown := b\<rparr>) = pipe_log log s"
  "pipe_log log (s\<lparr>ss_fully_acked := b\<rparr>) = pipe_log log s"
  by (simp_all add: pipe_log_def pipe_fd_def)

lemma pipe_log_kept:
  "ss_thread_data s = td \<Longrightarrow> kept out td (ss_sys s) sys' \<Longrightarrow> pipe_log out (s\<lparr>ss_sys := sys'\<rparr>) = pipe_log out s"
  by (auto simp: pipe_log_def pipe_fd_def kept_iff)

lemma sponge_reads_flags [simp]:
  "sponge_reads out A td num S isn (s\<lparr>ss_outbound_shutdown := b\<rparr>) = sponge_reads out A td num S isn s"
  "sponge_reads out A td num S isn (s\<lparr>ss_inbound_shutdown := b\<rparr>) = sponge_reads out A td num S isn s"
  "sponge_reads out A td num S isn (s\<lparr>ss_fully_acked := b\<rparr>) = sponge_reads out A td num S isn s"
  by (simp_all add: sponge_reads_def receiver_reads_def)

lemma sponge_reads_sys:
  "sponge_reads out A td num S isn s \<Longrightarrow> kept out td (ss_sys s) sys' \<Longrightarrow> sponge_reads out A td num S isn (s\<lparr>ss_sys := sys'\<rparr>)"
  by (auto simp: sponge_reads_def receiver_reads_def pipe_log_kept kept_nums)

lemma sponge_reads_tcp:
  "sponge_reads out A td num S isn s \<Longrightarrow> receiver_reads out S isn c s \<Longrightarrow> sponge_reads out A td num S isn (s\<lparr>ss_tcp := Some c\<rparr>)"
  by (simp add: sponge_reads_def receiver_reads_def)

lemma sponge_readsD: "sponge_reads out A td num S isn s \<Longrightarrow> ss_tcp s = Some c \<Longrightarrow> receiver_reads out S isn c s"
  by (simp add: sponge_reads_def)

text \<open>The building blocks of the callbacks.\<close>

lemma keeps_tcp_ptr [keeps_rules]:
  "(\<And>c s. I s \<Longrightarrow> P s \<Longrightarrow> ss_tcp s = Some c \<Longrightarrow> Q c s) \<Longrightarrow> keeps I P tcp_ptr Q"
  "(\<And>c s. I s \<Longrightarrow> P s \<Longrightarrow> ss_tcp s = Some c \<Longrightarrow> Q c s) \<Longrightarrow> keeps I P tcp_value Q"
  by (auto simp: keeps_def tcp_ptr_def tcp_value_def split: option.splits)

lemma keeps_text [keeps_rules]: "(\<And>x s. I s \<Longrightarrow> P s \<Longrightarrow> Q x s) \<Longrightarrow> keeps I P (destination_text env) Q"
  by (auto simp: keeps_def destination_text_def split: sum.splits)

lemma keeps_set_tcp:
  assumes "\<And>s. sponge_reads out A td num S isn s \<Longrightarrow> P s \<Longrightarrow> receiver_reads out S isn c s \<and> Q () (s\<lparr>ss_tcp := Some c\<rparr>)"
  shows "keeps (sponge_reads out A td num S isn) P (set_tcp c) Q"
  unfolding set_tcp_def using assms sponge_reads_tcp by (intro keeps_modify) blast

lemma keeps_on_sys:
  assumes "\<And>sys. nums sys = num \<Longrightarrow> kept out td sys (snd (m sys))"
  shows "keeps (sponge_reads out A td num S isn) (\<lambda>s. P (ss_tcp s)) (on_sys m) (\<lambda>_ s. P (ss_tcp s))"
proof (rule keepsI)
  fix s r s' assume I: "sponge_reads out A td num S isn s" and P: "P (ss_tcp s)" and run: "on_sys m s = (r, s')"
  from I run have "nums (ss_sys s) = num" "s' = s\<lparr>ss_sys := snd (m (ss_sys s))\<rparr>"
    by (auto simp: sponge_reads_def on_sys_def split: prod.splits)
  with P sponge_reads_sys [OF I assms] show "sponge_reads out A td num S isn s' \<and> (\<forall>x. r = Inr x \<longrightarrow> P (ss_tcp s'))" by simp
qed

lemma keeps_on_adapter:
  assumes "\<And>a sys. A a \<Longrightarrow> nums sys = num \<Longrightarrow>
    case m (a, sys) of (r, a', sys') \<Rightarrow> A a' \<and> kept out td sys sys' \<and> (\<forall>x. r = Inr x \<longrightarrow> Q x)"
  shows "keeps (sponge_reads out A td num S isn) P (on_adapter m) (\<lambda>x _. Q x)"
proof (rule keepsI)
  fix s r s' assume I: "sponge_reads out A td num S isn s" and run: "on_adapter m s = (r, s')"
  obtain a' sys' where m: "m (ss_datagram_adapter s, ss_sys s) = (r, a', sys')"
    and s': "s' = s\<lparr>ss_datagram_adapter := a', ss_sys := sys'\<rparr>"
    using run by (auto simp: on_adapter_def split: prod.splits)
  have a: "A a'" "kept out td (ss_sys s) sys'" "\<forall>x. r = Inr x \<longrightarrow> Q x"
    using assms [of "ss_datagram_adapter s" "ss_sys s"] I m by (auto simp: sponge_reads_def)
  have "sponge_reads out A td num S isn (s\<lparr>ss_sys := sys'\<rparr>)" by (rule sponge_reads_sys [OF I a(2)])
  then have "sponge_reads out A td num S isn s'"
    using a(1) by (auto simp: sponge_reads_def receiver_reads_def pipe_log_def pipe_fd_def s')
  with a(3) show "sponge_reads out A td num S isn s' \<and> (\<forall>x. r = Inr x \<longrightarrow> Q x)" by simp
qed


text \<open>Steps of the connection that leave its receiver alone, or only mark its stream as failed, and the receipt of a segment.\<close>

lemma receiver_reads_same:
  "receiver_reads out S isn c s \<Longrightarrow> tc_receiver c' = tc_receiver c \<or> tc_receiver c' = tr_set_error (tc_receiver c) \<Longrightarrow>
   receiver_reads out S isn c' s"
  by (auto simp: receiver_reads_def tr_set_error_inv)

lemma receiver_reads_segment:
  assumes "length S + 3 \<le> 2 ^ 31" and "receiver_reads out S isn c s" and "frame_of S isn seg"
    and "tc_segment_received c seg = Inr c'"
  shows "receiver_reads out S isn c' s"
proof -
  have "tc_exec (Tc_receive seg) [] (pipe_log out s) c = Inr ([], pipe_log out s, c')" using assms(4) by simp
  from tc_exec_delivers [OF assms(1) _ _ _ this, of isn] assms(2,3) show ?thesis
    by (auto simp: receiver_reads_def frame_of_def)
qed

lemma end_input_stream_receiver: "end_input_stream c = Inr c' \<Longrightarrow> tc_receiver c' = tc_receiver c"
  by (auto simp: end_input_stream_def result_bind_Inr_iff receiver_kept(2) dest: receiver_kept(4))

lemma tc_write_receiver: "tc_write c data = Inr (c', n) \<Longrightarrow> tc_receiver c' = tc_receiver c"
  by (auto simp: tc_write_def result_bind_Inr_iff split: prod.splits dest: receiver_kept(4))

lemma tc_tick_receiver: "tc_receiver (tc_tick c ms) = tc_receiver c \<or> tc_receiver (tc_tick c ms) = tr_set_error (tc_receiver c)"
  using exec_keeps_receiver [of "Tc_tick ms" "[]" "[]" c "[]" "[]" "tc_tick c ms"] by simp

lemma fd_read_kept: "kernel_ok kc ins out \<Longrightarrow> kept out td sys (snd (fd_read kc td n sys))"
  using fd_read_conforms [of kc ins out td n sys] by (auto simp: kernel_ok_def took_def kept_iff)

lemma system_call_kept: "quiet ins out call \<Longrightarrow> kept out td sys (snd (system_call call sys))"
  by (auto simp: system_call_def kept_iff quiet_def fd_num_def split: prod.splits) (metis snd_conv)

lemma register_kept [simp]:
  "kept out td sys (register_read d sys') = kept out td sys sys'"
  "kept out td sys (register_write d sys') = kept out td sys sys'"
  by (simp_all add: kept_iff)

lemma shutdown_kept: "kernel_ok kc ins out \<Longrightarrow> kept out td sys (snd (shutdown kc d how sys))"
  using system_call_kept [of ins out "k_shutdown kc (fd_num d sys) how" td sys]
  by (auto simp: shutdown_def kernel_ok_def io_bind_def io_run fd_call_def split: prod.splits sum.splits)


abbreviation always :: "'s \<Rightarrow> bool" where
  "always \<equiv> \<lambda>_. True"

abbreviation same_receiver :: "TCPConnection \<Rightarrow> ('a, 'k) TCPSpongeSocket \<Rightarrow> bool" where
  "same_receiver c' s \<equiv> \<exists>c. ss_tcp s = Some c \<and> (tc_receiver c' = tc_receiver c \<or> tc_receiver c' = tr_set_error (tc_receiver c))"

lemma keeps_update_tcp:
  "keeps (sponge_reads out A td num S isn) (same_receiver c') (set_tcp c') (\<lambda>_. always)"
  by (rule keeps_set_tcp) (use receiver_reads_same sponge_readsD in blast)

lemma rule2_cancel_keeps: "keeps (sponge_reads out A td num S isn) P rule2_cancel (\<lambda>_. always)"
  unfolding rule2_cancel_def
proof (rule keeps_bind)
  show "keeps (sponge_reads out A td num S isn) P tcp_ptr (\<lambda>c s. ss_tcp s = Some c)" by (rule keeps_rules)
  show "keeps (sponge_reads out A td num S isn) (\<lambda>s. ss_tcp s = Some c)
      (io_bind (io_lift (end_input_stream c)) (\<lambda>c. io_bind (set_tcp c) (\<lambda>_. io_modify (ss_outbound_shutdown_update (\<lambda>_. True)))))
      (\<lambda>_. always)" for c
  proof (rule keeps_bind)
    show "keeps (sponge_reads out A td num S isn) (\<lambda>s. ss_tcp s = Some c) (io_lift (end_input_stream c)) same_receiver"
      by (rule keeps_basic(4)) (auto dest: end_input_stream_receiver)
    show "keeps (sponge_reads out A td num S isn) (same_receiver c')
       (io_bind (set_tcp c') (\<lambda>_. io_modify (ss_outbound_shutdown_update (\<lambda>_. True)))) (\<lambda>_. always)" for c'
      by (rule keeps_bind [OF keeps_update_tcp keeps_modify]) simp
  qed
qed


lemma debug_text_keeps:
  "keeps I P (io_bind (destination_text env) (\<lambda>_. io_bind tcp_value (\<lambda>_. io_return ()))) (\<lambda>_. always)"
  by (rule keeps_bind [where Q = "\<lambda>_. always"] keeps_rules TrueI)+

lemma rule2_eof_keeps: "keeps (sponge_reads out A td num S isn) P (rule2_eof env d) (\<lambda>_. always)"
  unfolding rule2_eof_def
  by (rule keeps_bind [OF keeps_basic(3) [where Q = "\<lambda>_. always"] keeps_when [OF keeps_bind [OF rule2_cancel_keeps debug_text_keeps]]])
    simp_all

lemma rule2_keeps:
  assumes "kernel_ok (en_kernel env) ins out"
  shows "keeps (sponge_reads out A td num S isn) always (rule2_callback env) (\<lambda>_. always)"
proof -
  have read: "keeps (sponge_reads out A td num S isn) (\<lambda>_. d = td) (on_sys (fd_read (en_kernel env) d n)) (\<lambda>_. always)" for d n
    by (rule keeps_assume, rule keeps_on_sys [where P = always]) (simp add: fd_read_kept [OF assms])
  have finish: "keeps (sponge_reads out A td num S isn) always
      (if n \<noteq> (m :: nat) then io_throw RuntimeError else rule2_eof env d) (\<lambda>_. always)" for n m d
    by (simp add: rule2_eof_keeps keeps_basic(1))
  have store: "keeps (sponge_reads out A td num S isn) (\<lambda>s. case x of (c, _) \<Rightarrow> same_receiver c s) (case x of (c, n) \<Rightarrow>
      io_bind (set_tcp c) (\<lambda>_. if n \<noteq> length (data :: bytes) then io_throw RuntimeError else rule2_eof env d)) (\<lambda>_. always)" for x data d
    by (cases x) (simp only: prod.case, rule keeps_bind [OF keeps_update_tcp finish])
  have writes: "keeps (sponge_reads out A td num S isn) (\<lambda>s. ss_tcp s = Some c) (io_lift (tc_write c data))
      (\<lambda>x s. case x of (c, _) \<Rightarrow> same_receiver c s)" for c data
    by (rule keeps_basic(4)) (auto dest: tc_write_receiver)
  show ?thesis
    unfolding rule2_callback_def
    by (rule keeps_bind [OF keeps_tcp_ptr(1) [where Q = "\<lambda>_. always"]], simp,
        rule keeps_bind [OF keeps_basic(3) [where Q = "\<lambda>d _. d = td"]], simp add: sponge_reads_def,
        rule keeps_bind [OF read], rule keeps_bind [OF keeps_tcp_ptr(1) [where Q = "\<lambda>c s. ss_tcp s = Some c"]], simp,
        rule keeps_bind [OF writes store])
qed


lemma deliver_segment_keeps:
  assumes "length S + 3 \<le> 2 ^ 31"
  shows "keeps (sponge_reads out A td num S isn) (\<lambda>_. \<forall>x. seg = Some x \<longrightarrow> frame_of S isn x) (deliver_segment seg) (\<lambda>_. always)"
proof (cases seg)
  case None
  then show ?thesis by (simp add: deliver_segment_def keeps_basic(2))
next
  case (Some x)
  have receive: "keeps (sponge_reads out A td num S isn) (\<lambda>s. frame_of S isn x \<and> ss_tcp s = Some c) (io_lift (tc_segment_received c x))
      (\<lambda>c' s. receiver_reads out S isn c' s)" for c
    by (rule keeps_basic(4)) (use receiver_reads_segment [OF assms] sponge_readsD in blast)
  have "keeps (sponge_reads out A td num S isn) (\<lambda>s. receiver_reads out S isn c' s) (set_tcp c') (\<lambda>_. always)" for c'
    by (rule keeps_set_tcp) simp
  then show ?thesis
    unfolding deliver_segment_def Some option.case
    by (intro keeps_bind [OF keeps_tcp_ptr(1) [where Q = "\<lambda>c s. frame_of S isn x \<and> ss_tcp s = Some c"]] keeps_bind [OF receive])
      simp_all
qed

lemma debug_fully_acked_keeps: "keeps (sponge_reads out A td num S isn) P (debug_fully_acked env) (\<lambda>_. always)"
proof -
  have "keeps (sponge_reads out A td num S isn) always (io_bind (destination_text env)
      (\<lambda>_. io_modify (\<lambda>s. s\<lparr>ss_fully_acked := True\<rparr>))) (\<lambda>_. always)"
    by (rule keeps_bind [OF keeps_text [where Q = "\<lambda>_. always"] keeps_modify]) simp_all
  then show ?thesis
    unfolding debug_fully_acked_def
    by (intro keeps_bind [OF keeps_basic(3) [where Q = "\<lambda>_. always"]] keeps_when
        keeps_bind [OF keeps_tcp_ptr(2) [where Q = "\<lambda>_. always"]]) simp_all
qed

lemma rule1_keeps:
  assumes "length S + 3 \<le> 2 ^ 31" and "adapter_ok (en_adapter env) out A td num S isn"
  shows "keeps (sponge_reads out A td num S isn) always (rule1_callback env) (\<lambda>_. always)"
proof -
  have "keeps (sponge_reads out A td num S isn) always (on_adapter (at_read (en_adapter env)))
      (\<lambda>seg _. \<forall>x. seg = Some x \<longrightarrow> frame_of S isn x)"
    by (rule keeps_on_adapter) (use assms(2) in \<open>auto simp: adapter_ok_def split: prod.splits\<close>)
  then show ?thesis
    unfolding rule1_callback_def
    by (rule keeps_bind) (rule keeps_bind [OF deliver_segment_keeps [OF assms(1)] debug_fully_acked_keeps])
qed

lemma send_segments_keeps:
  assumes "adapter_ok (en_adapter env) out A td num S isn"
  shows "keeps (sponge_reads out A td num S isn) P (send_segments env segs) (\<lambda>_. always)"
proof (induction segs arbitrary: P)
  case (Cons seg segs)
  have sent: "keeps (sponge_reads out A td num S isn) P (on_adapter (at_write (en_adapter env) seg)) (\<lambda>_. always)"
    by (rule keeps_on_adapter) (use assms in \<open>auto simp: adapter_ok_def split: prod.splits\<close>)
  have pop: "keeps (sponge_reads out A td num S isn) (\<lambda>s. ss_tcp s = Some c) (set_tcp (c\<lparr>tc_segments_out := segs\<rparr>)) (\<lambda>_. always)" for c
    by (rule keeps_weaken [OF keeps_update_tcp]) auto
  show ?case
    unfolding send_segments.simps
    by (rule keeps_bind [OF sent], rule keeps_bind [OF keeps_tcp_ptr(1) [where Q = "\<lambda>c s. ss_tcp s = Some c"]], simp,
        rule keeps_bind [OF pop Cons.IH])
qed (simp add: keeps_basic(2))

lemma rule4_keeps:
  assumes "adapter_ok (en_adapter env) out A td num S isn"
  shows "keeps (sponge_reads out A td num S isn) always (rule4_callback env) (\<lambda>_. always)"
  unfolding rule4_callback_def
  by (rule keeps_bind [OF keeps_tcp_ptr(1) [where Q = "\<lambda>_. always"] send_segments_keeps [OF assms]]) simp


lemma inbound_inv: "tr_run_inv S isn (tc_receiver c) \<Longrightarrow> ByteStream_inv (tc_inbound_stream c)"
  by (simp add: tr_run_inv_def run_inv_def sr_inv_def)

text \<open>Popping what was written keeps the pipe in step with the stream.\<close>

lemma receiver_reads_pop:
  assumes "receiver_reads out S isn c s" and "n \<le> length (bs_contents (tc_inbound_stream c))"
    and "wrote ins out (ss_thread_data s) (take n (bs_contents (tc_inbound_stream c))) (ss_sys s) sys'"
  shows "\<exists>o'. pop_output (tc_inbound_stream c) n = Inr o' \<and> receiver_reads out S isn (set_inbound o' c) (s\<lparr>ss_sys := sys'\<rparr>)"
proof -
  let ?re = "tr_reassembler (tc_receiver c)" and ?cs = "bs_contents (tc_inbound_stream c)"
  have inv: "tr_run_inv S isn (tc_receiver c)" and log: "pipe_log out s = take (bs_bytes_read (tc_inbound_stream c)) S"
    using assms(1) by (simp_all add: receiver_reads_def)
  from bs_read_spec [OF inbound_inv [OF inv], of n] obtain o' where
    o': "bs_read True (tc_inbound_stream c) n = Inr (take n ?cs, o')" "pop_output (tc_inbound_stream c) n = Inr o'" by blast
  then have "sr_consume ?re n = Inr (take n ?cs, ?re\<lparr>sr_output := o'\<rparr>)" by (simp add: sr_consume_def)
  moreover have "run_inv S ?re" using inv by (simp add: tr_run_inv_def)
  ultimately have step: "run_inv S (?re\<lparr>sr_output := o'\<rparr>)"
    "take (bs_bytes_read (tc_inbound_stream c)) S @ take n ?cs = take (bs_bytes_read o') S"
    using run_consume_step [of S ?re n "take n ?cs" "?re\<lparr>sr_output := o'\<rparr>"] by simp_all
  have "pipe_log out (s\<lparr>ss_sys := sys'\<rparr>) = pipe_log out s @ take n ?cs"
    using assms(3) by (simp add: pipe_log_def pipe_fd_def wrote_def)
  with step log inv o'(2) show ?thesis by (simp add: receiver_reads_def set_inbound_def tr_run_inv_def)
qed


lemma finish_inbound_keeps:
  assumes "kernel_ok (en_kernel env) ins out"
  shows "keeps (sponge_reads out A td num S isn) P (finish_inbound env d) (\<lambda>_. always)"
  unfolding finish_inbound_def
  by (rule keeps_bind [OF keeps_weaken [OF keeps_on_sys [where P = always]]], rule shutdown_kept [OF assms], simp, simp,
      rule keeps_bind [OF keeps_modify [where Q = "\<lambda>_. always"] debug_text_keeps]) simp

lemma rule3_keeps:
  assumes "kernel_ok (en_kernel env) ins out"
  shows "keeps (sponge_reads out A td num S isn) always (rule3_callback env) (\<lambda>_. always)"
proof (rule keepsI)
  fix s r s' assume I: "sponge_reads out A td num S isn s" and run: "rule3_callback env s = (r, s')"
  show "sponge_reads out A td num S isn s' \<and> (\<forall>x. r = Inr x \<longrightarrow> True)"
  proof (cases "ss_tcp s")
    case None
    with run I show ?thesis by (auto simp: rule3_callback_def io_bind_def tcp_ptr_def)
  next
    case (Some c)
    let ?o = "tc_inbound_stream c" and ?d = "ss_thread_data s"
    let ?data = "take (min 65536 (buffer_size ?o)) (bs_contents ?o)"
    have reads: "receiver_reads out S isn c s" by (rule sponge_readsD [OF I Some])
    then have o: "ByteStream_inv ?o" unfolding receiver_reads_def by (blast intro: inbound_inv)
    have conforms: "writev_conforms (en_kernel env) ins out" using assms by (simp add: kernel_ok_def)
    have "length (concat [?data]) < 2 ^ 63" by simp
    from fd_write_some [OF conforms this, of ?d "ss_sys s"] show ?thesis
    proof (elim disjE exE conjE)
      fix e sys' assume w: "fd_write (en_kernel env) ?d [?data] False (ss_sys s) = (Inl (SystemError e), sys')"
        "wrote ins out ?d [] (ss_sys s) sys'"
      then have "kept out td (ss_sys s) sys'" using I by (simp add: kept_iff wrote_def sponge_reads_def)
      with run w(1) Some o sponge_reads_sys [OF I] show ?thesis
        by (auto simp: rule3_callback_def sponge_run tcp_run Let_def peek_output_release BufferViewList_of_string_def)
    next
      fix n sys' assume w: "fd_write (en_kernel env) ?d [?data] False (ss_sys s) = (Inr n, sys')"
        and n: "n \<le> length (concat [?data])" and wrote: "wrote ins out ?d (take n (concat [?data])) (ss_sys s) sys'"
      have "take n (concat [?data]) = take n (bs_contents ?o)" "n \<le> length (bs_contents ?o)" using n by simp_all
      with receiver_reads_pop [OF reads] wrote obtain o' where
        o': "pop_output ?o n = Inr o'" "receiver_reads out S isn (set_inbound o' c) (s\<lparr>ss_sys := sys'\<rparr>)" by metis
      let ?s = "s\<lparr>ss_sys := sys', ss_tcp := Some (set_inbound o' c)\<rparr>"
      have st: "sponge_reads out A td num S isn ?s"
        using I o'(2) wrote by (auto simp: sponge_reads_def receiver_reads_def wrote_def take_is_prefix nums_def)
      from run w o'(1) Some o have tail: "io_when (eof o' \<or> bs_error o') (finish_inbound env ?d) ?s = (r, s')"
        by (simp add: rule3_callback_def sponge_run tcp_run Let_def peek_output_release BufferViewList_of_string_def)
      have k: "keeps (sponge_reads out A td num S isn) always (io_when (eof o' \<or> bs_error o') (finish_inbound env ?d)) (\<lambda>_. always)"
        by (rule keeps_when [OF finish_inbound_keeps [OF assms]]) simp
      show ?thesis using keepsD(1) [OF k st TrueI tail] by blast
    qed
  qed
qed

lemma interests_keep:
  "maintains I rule1_interest" "maintains I rule2_interest" "maintains I rule3_interest" "maintains I rule4_interest"
  by (auto simp: maintains_def rule1_interest_def rule2_interest_def rule3_interest_def rule4_interest_def io_bind_def
      tcp_ptr_def io_run split: option.splits)


section \<open>The loop of the connection\<close>

definition sponge_inv ::
  "('k \<Rightarrow> int \<Rightarrow> bytes) \<Rightarrow> ('a \<Rightarrow> bool) \<Rightarrow> FileDescriptor \<Rightarrow> (FileDescriptor \<Rightarrow> int) \<Rightarrow> bytes \<Rightarrow> WrappingInt32 \<Rightarrow> ('a, 'k) sponge \<Rightarrow> bool" where
  "sponge_inv out A td num S isn sp \<longleftrightarrow> sponge_reads out A td num S isn (snd sp) \<and>
     list_all (steady (sponge_reads out A td num S isn)) (fst sp)"

lemma tcp_rules_steady:
  assumes "kernel_ok (en_kernel env) ins out" and "adapter_ok (en_adapter env) out A td num S isn" and "length S + 3 \<le> 2 ^ 31"
  shows "list_all (steady (sponge_reads out A td num S isn)) (tcp_rules env fd td' [])"
  using rule1_keeps [OF assms(3,2)] rule2_keeps [OF assms(1), of A td num S isn] rule3_keeps [OF assms(1), of A td num S isn]
    rule4_keeps [OF assms(2)] rule2_cancel_keeps [of out A td num S isn always]
  by (simp add: tcp_rules_def add_rule_def steady_def keeps_maintains interests_keep)

lemma keeps_on_socket:
  "keeps (sponge_reads out A td num S isn) P m Q \<Longrightarrow>
   keeps (sponge_inv out A td num S isn) (\<lambda>sp. P (snd sp)) (on_socket m) (\<lambda>x sp. Q x (snd sp))"
  unfolding keeps_def on_socket_def sponge_inv_def by (fastforce split: sum.splits prod.splits)

lemma sponge_poll_keeps:
  assumes "kernel_ok (en_kernel env) ins out" and "sponge_reads out A td num S isn s"
  shows "sponge_reads out A td num S isn (snd (sponge_poll env pollfds t s))"
proof -
  obtain x k where poll: "k_poll (en_kernel env) pollfds t (sys_kernel (ss_sys s)) = (x, k)" by fastforce
  have "quiet ins out (k_poll (en_kernel env) pollfds t)" using assms(1) by (simp add: kernel_ok_def)
  then have "out k = out (sys_kernel (ss_sys s))" using poll by (auto simp: quiet_def dest!: spec [of _ "sys_kernel (ss_sys s)"])
  then have "kept out td (ss_sys s) ((ss_sys s)\<lparr>sys_kernel := k\<rparr>)" by (simp add: kept_iff)
  with sponge_reads_sys [OF assms(2)] poll show ?thesis by (simp add: sponge_poll_def)
qed

lemma sponge_wait_keeps:
  assumes "kernel_ok (en_kernel env) ins out"
  shows "keeps (sponge_inv out A td num S isn) always (sponge_wait env) (\<lambda>_. always)"
proof (rule keepsI)
  fix sp r sp' assume inv: "sponge_inv out A td num S isn sp" and run: "sponge_wait env sp = (r, sp')"
  obtain rules s rules' s' where sp: "sp = (rules, s)" "sp' = (rules', s')" by (cases sp; cases sp')
  have wait: "wait_next_event (\<lambda>s. sys_fds (ss_sys s)) (sponge_poll env) TCP_TICK_MS rules s = (r, rules', s')"
    using run sp by (simp add: sponge_wait_def)
  have start: "list_all (steady (sponge_reads out A td num S isn)) rules" "sponge_reads out A td num S isn s"
    using inv sp by (simp_all add: sponge_inv_def)
  show "sponge_inv out A td num S isn sp' \<and> (\<forall>x. r = Inr x \<longrightarrow> True)"
    using wait_next_event_maintains [OF wait start] sponge_poll_keeps [OF assms] sp(2) by (simp add: sponge_inv_def)
qed

lemma timestamp_kept:
  assumes "kernel_ok kc ins out"
  shows "kept out td sys (snd (timestamp_ms kc sys))"
proof -
  have clock: "out k' = out k" if "k_clock kc k = (t, k')" for k k' t
    using assms that by (auto simp: kernel_ok_def dest!: spec [of _ k])
  show ?thesis
    by (auto simp: timestamp_ms_def clock_now_def io_bind_def io_run kept_iff fd_num_def split: option.splits prod.splits
        dest!: clock)
qed

lemma loop_body_keeps:
  assumes "kernel_ok (en_kernel env) ins out" and "adapter_ok (en_adapter env) out A td num S isn"
  shows "keeps (sponge_inv out A td num S isn) always (loop_body env t) (\<lambda>_. always)"
proof -
  let ?I = "sponge_inv out A td num S isn"
  have clock: "keeps ?I (\<lambda>sp. ss_tcp (snd sp) = Some c) (on_socket (on_sys (timestamp_ms (en_kernel env))))
      (\<lambda>_ sp. ss_tcp (snd sp) = Some c)" for c
    by (rule keeps_on_socket [where Q = "\<lambda>_ s. ss_tcp s = Some c"])
      (rule keeps_on_sys [where P = "\<lambda>x. x = Some c"], rule timestamp_kept [OF assms(1)])
  have tick: "keeps ?I (\<lambda>sp. ss_tcp (snd sp) = Some c) (on_socket (set_tcp (tc_tick c ms))) (\<lambda>_. always)" for c ms
    by (rule keeps_on_socket [where Q = "\<lambda>_. always"], rule keeps_weaken [OF keeps_update_tcp]) (use tc_tick_receiver in auto)
  have adapter: "keeps ?I always (on_socket (on_adapter (at_tick (en_adapter env) ms))) (\<lambda>_. always)" for ms
    by (rule keeps_on_socket [where P = always and Q = "\<lambda>_. always"], rule keeps_on_adapter)
      (use assms(2) in \<open>auto simp: adapter_ok_def split: prod.splits\<close>)
  have tcp: "keeps ?I always (on_socket tcp_value) (\<lambda>c sp. ss_tcp (snd sp) = Some c)"
    by (rule keeps_on_socket [where P = always and Q = "\<lambda>c s. ss_tcp s = Some c"], rule keeps_tcp_ptr(2))
  have abort: "keeps ?I always (on_socket (io_get ss_abort)) (\<lambda>_. always)"
    by (rule keeps_on_socket [where P = always and Q = "\<lambda>_. always"], rule keeps_basic(3)) simp
  have active: "keeps ?I (\<lambda>sp. ss_tcp (snd sp) = Some c) (io_bind (on_socket (on_sys (timestamp_ms (en_kernel env)))) (\<lambda>next_time.
         io_bind (on_socket (set_tcp (tc_tick c (sub64 next_time t)))) (\<lambda>_.
         io_bind (on_socket (on_adapter (at_tick (en_adapter env) (sub64 next_time t)))) (\<lambda>_.
           io_return (Some next_time))))) (\<lambda>_. always)" for c
    by (rule keeps_bind [OF clock], rule keeps_bind [OF tick], rule keeps_bind [OF adapter], rule keeps_basic(2)) simp
  show ?thesis
    unfolding loop_body_def
    by (rule keeps_bind [OF sponge_wait_keeps [OF assms(1)]], rule keeps_bind [OF abort])
      (auto intro!: keeps_basic(2) keeps_bind [OF tcp] active)
qed

fun passes :: "('a, 'k) env \<Rightarrow> nat \<Rightarrow> nat \<Rightarrow> (('a, 'k) sponge, nat option) io" where
  "passes env 0 t = io_return (Some t)"
| "passes env (Suc n) t = io_bind (loop_body env t) (\<lambda>r. case r of None \<Rightarrow> io_return None | Some t \<Rightarrow> passes env n t)"

lemma passes_keep:
  assumes "kernel_ok (en_kernel env) ins out" and "adapter_ok (en_adapter env) out A td num S isn"
  shows "keeps (sponge_inv out A td num S isn) always (passes env n t) (\<lambda>_. always)"
proof (induction n arbitrary: t)
  case (Suc n)
  then have "keeps (sponge_inv out A td num S isn) always (case r of None \<Rightarrow> io_return None | Some t \<Rightarrow> passes env n t) (\<lambda>_. always)" for r
    by (cases r) (simp_all add: keeps_basic(2))
  then show ?case by (simp add: keeps_bind [OF loop_body_keeps [OF assms]])
qed (simp add: keeps_basic(2))


text \<open>A connection that has been started has written nothing to its application yet.\<close>

lemma receiver_reads_new:
  assumes "length S + cfg_recv_capacity cfg + 1 < SIZE_MOD" and "pipe_log out s = []"
    and "tc_receiver c = tc_receiver (TCPConnection_new cfg random_isn)"
  shows "receiver_reads out S isn c s"
  using assms tr_run_inv_new [of S "cfg_recv_capacity cfg" isn]
  by (simp add: receiver_reads_def TCPConnection_new_def TCPReceiver_new_simps)

lemma start_connect_Inr:
  assumes "start_connect env c_tcp c_ad random_isn ([], s) = (Inr (), sp)"
  obtains c where "connect (TCPConnection_new c_tcp random_isn) = Inr c"
    "sp = (tcp_rules env (at_fd (en_adapter env) (ss_datagram_adapter s)) (ss_thread_data s) [],
           (set_adapter_config env c_ad s)\<lparr>ss_tcp := Some c\<rparr>)"
  using assms
  by (auto simp: start_connect_def io_bind_def io_run on_socket_def initialize_TCP_def set_tcp_def set_adapter_config_def
      tcp_ptr_def in_state_def split: if_splits sum.splits prod.splits)

lemma start_listen_Inr:
  assumes "start_listen env c_tcp c_ad random_isn ([], s) = (Inr (), sp)"
  shows "sp = (tcp_rules env (at_fd (en_adapter env) (ss_datagram_adapter s)) (ss_thread_data s) [],
    s\<lparr>ss_tcp := Some (TCPConnection_new c_tcp random_isn), ss_datagram_adapter :=
        at_set_listening (en_adapter env) True (at_set_config (en_adapter env) c_ad (ss_datagram_adapter s))\<rparr>)"
  using assms
  by (auto simp: start_listen_def io_bind_def io_run on_socket_def initialize_TCP_def set_adapter_config_def
      split: if_splits)

text \<open>
  From the start of connecting or listening on, after any number of passes and also when one of them
  throws, what has been written to the application is a prefix of \<open>S\<close>.
\<close>

lemma passes_deliver_prefix:
  assumes "kernel_ok (en_kernel env) ins out"
    and "adapter_ok (en_adapter env) out A (ss_thread_data s) (nums (ss_sys s)) S isn"
    and "length S + 3 \<le> 2 ^ 31" and "length S + cfg_recv_capacity c_tcp + 1 < SIZE_MOD" and "pipe_log out s = []"
    and "A (at_set_config (en_adapter env) c_ad (ss_datagram_adapter s))"
    and "A (at_set_listening (en_adapter env) True (at_set_config (en_adapter env) c_ad (ss_datagram_adapter s)))"
    and "start_connect env c_tcp c_ad random_isn ([], s) = (Inr (), sp) \<or>
      start_listen env c_tcp c_ad random_isn ([], s) = (Inr (), sp)"
    and "passes env n t sp = (r, sp')"
  shows "prefix (pipe_log out (snd sp')) S"
proof -
  let ?I = "sponge_inv out A (ss_thread_data s) (nums (ss_sys s)) S isn"
  have rules: "list_all (steady (sponge_reads out A (ss_thread_data s) (nums (ss_sys s)) S isn)) (tcp_rules env fd td' [])" for fd td'
    by (rule tcp_rules_steady [OF assms(1-3)])
  have new: "receiver_reads out S isn c s" if "tc_receiver c = tc_receiver (TCPConnection_new c_tcp random_isn)" for c
    by (rule receiver_reads_new [OF assms(4,5) that])
  from assms(8) have "?I sp"
  proof
    assume "start_connect env c_tcp c_ad random_isn ([], s) = (Inr (), sp)"
    then obtain c where c: "connect (TCPConnection_new c_tcp random_isn) = Inr c"
      "sp = (tcp_rules env (at_fd (en_adapter env) (ss_datagram_adapter s)) (ss_thread_data s) [],
             (set_adapter_config env c_ad s)\<lparr>ss_tcp := Some c\<rparr>)" by (rule start_connect_Inr)
    have "tc_receiver c = tc_receiver (TCPConnection_new c_tcp random_isn)"
      using c(1) receiver_kept(2,4) by (auto simp: connect_def result_bind_Inr_iff)
    from new [OF this] show ?thesis
      using rules assms(5,6) c(2)
      by (simp add: sponge_inv_def sponge_reads_def receiver_reads_def set_adapter_config_def pipe_fd_def)
  next
    assume "start_listen env c_tcp c_ad random_isn ([], s) = (Inr (), sp)"
    from start_listen_Inr [OF this] new [OF refl] show ?thesis
      using rules assms(5,7) by (simp add: sponge_inv_def sponge_reads_def receiver_reads_def pipe_fd_def)
  qed
  from keepsD(1) [OF passes_keep [OF assms(1,2)] this TrueI assms(9)] show ?thesis
    by (simp add: sponge_inv_def sponge_reads_def)
qed


section \<open>The adapter over a TUN device\<close>

text \<open>
  Reading from the device changes no output, and writing to it only its own. \<open>peer_sends\<close>: of what the
  kernel returns when the adapter reads from its device, number \<open>q\<close>, the adapter passes on nothing but
  resets and segments of the stream \<open>S\<close>; \<open>B\<close> is any property of the adapter's configuration that reading keeps,
  such as the peer it is connected to.
\<close>

definition peer_sends ::
  "'k kernel \<Rightarrow> resolver \<Rightarrow> int \<Rightarrow> (FdAdapterBase \<Rightarrow> bool) \<Rightarrow> bytes \<Rightarrow> WrappingInt32 \<Rightarrow> bool" where
  "peer_sends kc rs q B S isn \<longleftrightarrow>
     (\<forall>k ret err input k' a seg a'. k_read kc q BUFFER_SIZE k = ((ret, err, input), k') \<and> 0 \<le> ret \<and> B a \<and>
        tun_read rs input a = Inr (seg, a') \<longrightarrow> B a' \<and> (\<forall>x. seg = Some x \<longrightarrow> frame_of S isn x))"

lemma write_once_frame:
  assumes "writev_conforms kc ins out" and "write_once kc d buffer sys = (r, sys')"
  shows "nums sys' = nums sys" and "fd \<noteq> fd_num d sys \<Longrightarrow> out (sys_kernel sys') fd = out (sys_kernel sys) fd"
proof -
  obtain x k' where call: "k_writev kc (fd_num d sys) (BufferViewList_as_iovecs buffer) (sys_kernel sys) = (x, k')" by fastforce
  with assms(1) have "fd \<noteq> fd_num d sys \<Longrightarrow> out k' fd = out (sys_kernel sys) fd"
    unfolding writev_conforms_def by (fastforce dest!: spec [of _ "fd_num d sys"] spec [of _ "BufferViewList_as_iovecs buffer"]
        spec [of _ "sys_kernel sys"] split: prod.splits)
  with assms(2) call show "nums sys' = nums sys" "fd \<noteq> fd_num d sys \<Longrightarrow> out (sys_kernel sys') fd = out (sys_kernel sys) fd"
    by (auto simp: write_once_def io_bind_def io_run fd_call_def system_call_def nums_def split: prod.splits sum.splits if_splits)
qed

lemma write_loop_frame:
  assumes "writev_conforms kc ins out" and "write_loop kc d write_all buffer n sys = (r, sys')"
  shows "nums sys' = nums sys \<and> (\<forall>fd. fd \<noteq> fd_num d sys \<longrightarrow> out (sys_kernel sys') fd = out (sys_kernel sys) fd)"
  using assms
proof (induction kc d write_all buffer n sys rule: write_loop.induct)
  case (1 kc d write_all buffer n sys)
  obtain w sys1 where w: "write_once kc d buffer sys = (w, sys1)" by (cases "write_once kc d buffer sys")
  note once = write_once_frame [OF 1(2) w]
  have num: "fd_num d sys1 = fd_num d sys" using once(1) by (metis nums_def)
  show ?case
  proof (cases w)
    case (Inl e)
    with 1(3) w once show ?thesis by (simp add: write_loop.simps [of kc d write_all buffer n sys])
  next
    case (Inr x)
    with 1(3) w once num 1(1) [OF w [symmetric] _ _ _ _ 1(2)] show ?thesis
      by (cases x) (auto simp: write_loop.simps [of kc d write_all buffer n sys] Let_def split: if_splits)
  qed
qed

lemma fd_write_kept:
  assumes "writev_conforms kc ins out" and "fd_num d sys \<noteq> fd_num td sys"
  shows "kept out td sys (snd (fd_write kc d buffer write_all sys))"
  using write_loop_frame [OF assms(1), of d write_all buffer 0 sys] assms(2)
  by (cases "write_loop kc d write_all buffer 0 sys") (simp add: fd_write_def kept_def)

text \<open>What \<open>read\<close> returns is what the kernel stored.\<close>

lemma fd_read_input:
  assumes "read_conforms kc ins out" and "fd_read kc d limit sys = (Inr bs, sys')"
  shows "\<exists>ret err k'. k_read kc (fd_num d sys) (min BUFFER_SIZE limit) (sys_kernel sys) = ((ret, err, bs), k') \<and> 0 \<le> ret"
proof -
  let ?n = "min BUFFER_SIZE limit"
  obtain ret err filled k' where call: "k_read kc (fd_num d sys) ?n (sys_kernel sys) = ((ret, err, filled), k')"
    by (metis prod.collapse)
  with assms(1) consider "ret = -1" "err \<noteq> 0" | "ret = int (length filled)" "length filled \<le> ?n"
    unfolding read_conforms_def by (fastforce dest!: spec [of _ "fd_num d sys"] spec [of _ ?n] spec [of _ "sys_kernel sys"])
  then show ?thesis
  proof cases
    case 1
    with assms(2) call show ?thesis
      by (simp add: fd_read_def Let_def io_bind_def fd_call_def system_call_def SystemCall_def to_int_def)
  next
    case 2
    have "length filled \<le> 1048576" using 2(2) by (simp add: BUFFER_SIZE_def)
    with 2(1) have "to_int ret = int (length filled)" by simp
    with assms(2) call 2 show ?thesis
      by (auto simp: fd_read_def Let_def io_bind_def io_run io_when_run fd_call_def system_call_def SystemCall_def
          resize_buffer_def split: if_splits)
  qed
qed

lemma tun_read_ok:
  assumes "kernel_ok kc ins out" and "peer_sends kc rs (fd_num dev sys) B S isn" and "B a"
  shows "case at_read (tun_adapter kc rs) ((dev, a), sys) of (r, (d, a'), sys') \<Rightarrow>
    d = dev \<and> B a' \<and> kept out td sys sys' \<and> (\<forall>seg. r = Inr (Some seg) \<longrightarrow> frame_of S isn seg)"
proof -
  have reads: "read_conforms kc ins out" using assms(1) by (simp add: kernel_ok_def)
  obtain r sys' where read: "fd_read kc dev SIZE_MAX sys = (r, sys')" by (cases "fd_read kc dev SIZE_MAX sys")
  have kept: "kept out td sys sys'"
    using fd_read_conforms [OF reads, of dev SIZE_MAX sys] read by (auto simp: took_def kept_iff)
  note adapter = tun_adapter_def owned_read_def io_bind_def on_device_def on_base_def
  show ?thesis
  proof (cases r)
    case (Inl e)
    with read kept assms(3) show ?thesis by (simp add: adapter)
  next
    case (Inr input)
    have "min BUFFER_SIZE SIZE_MAX = BUFFER_SIZE" by (simp add: BUFFER_SIZE_def SIZE_MAX_def SIZE_MOD_def)
    with fd_read_input [OF reads] read Inr obtain ret err k' where
      "k_read kc (fd_num dev sys) BUFFER_SIZE (sys_kernel sys) = ((ret, err, input), k')" "0 \<le> ret" by metis
    with assms(2,3) have "B a' \<and> (\<forall>x. seg = Some x \<longrightarrow> frame_of S isn x)" if "tun_read rs input a = Inr (seg, a')" for seg a'
      using that unfolding peer_sends_def by blast
    with read Inr kept assms(3) show ?thesis by (auto simp: adapter split: sum.splits)
  qed
qed

lemma tun_write_ok:
  assumes "kernel_ok kc ins out" and "fd_num dev sys \<noteq> fd_num td sys"
  shows "case at_write (tun_adapter kc rs) seg ((dev, a), sys) of (r, da, sys') \<Rightarrow> da = (dev, a) \<and> kept out td sys sys'"
proof -
  have "writev_conforms kc ins out" using assms(1) by (simp add: kernel_ok_def)
  note kept = fd_write_kept [OF this assms(2)]
  have "kept out td sys sys" by (simp add: kept_def)
  with kept show ?thesis
    by (auto simp: tun_adapter_def io_bind_def io_run on_device_def split: sum.splits prod.splits) (metis snd_conv)+
qed

lemma tun_adapter_ok:
  assumes kc: "kernel_ok kc ins out" and apart: "num dev \<noteq> num td" and peer: "peer_sends kc rs (num dev) B S isn"
  shows "adapter_ok (tun_adapter kc rs) out (\<lambda>(d, a). d = dev \<and> B a) td num S isn"
  unfolding adapter_ok_def
proof (intro allI impI conjI; elim conjE)
  fix da :: "FileDescriptor \<times> FdAdapterBase" and sys :: "'a system"
  assume A: "case da of (d, a) \<Rightarrow> d = dev \<and> B a" and num: "nums sys = num"
  then obtain a where da: "da = (dev, a)" "B a" by auto
  have dev: "num dev = fd_num dev sys" "fd_num dev sys \<noteq> fd_num td sys" using num apart by (auto simp: nums_def)
  show "case at_read (tun_adapter kc rs) (da, sys) of (r, a', sys') \<Rightarrow>
      (case a' of (d, a) \<Rightarrow> d = dev \<and> B a) \<and> kept out td sys sys' \<and> (\<forall>seg. r = Inr (Some seg) \<longrightarrow> frame_of S isn seg)"
    using tun_read_ok [OF kc peer [unfolded dev(1)] da(2)] da(1) by (auto split: prod.splits)
  show "case at_write (tun_adapter kc rs) seg (da, sys) of (r, a', sys') \<Rightarrow>
      (case a' of (d, a) \<Rightarrow> d = dev \<and> B a) \<and> kept out td sys sys'" for seg
    using tun_write_ok [OF kc dev(2), where rs = rs and seg = seg and a = a] da by (auto split: prod.splits)
  show "case at_tick (tun_adapter kc rs) ms (da, sys) of (r, a', sys') \<Rightarrow>
      (case a' of (d, a) \<Rightarrow> d = dev \<and> B a) \<and> kept out td sys sys'" for ms
    using da by (simp add: tun_adapter_def io_run base_tick_def kept_def)
qed

text \<open>Datagrams that an adapter has written carry the segment it was given, for every adapter that accepts them.\<close>

lemma frame_of_same: "same_segment seg' (with_ports sport dport seg) \<Longrightarrow> frame_of S isn seg \<Longrightarrow> frame_of S isn seg'"
proof -
  assume same: "same_segment seg' (with_ports sport dport seg)" and seg: "frame_of S isn seg"
  from same have fields: "f ((ts_header seg')\<lparr>th_cksum := 0\<rparr>) = f ((ts_header (with_ports sport dport seg))\<lparr>th_cksum := 0\<rparr>)"
    for f :: "TCPHeader \<Rightarrow> 'b" by (simp add: same_segment_def)
  have "th_rst (ts_header seg') = th_rst (ts_header seg)" "th_seqno (ts_header seg') = th_seqno (ts_header seg)"
    "th_syn (ts_header seg') = th_syn (ts_header seg)" "th_fin (ts_header seg') = th_fin (ts_header seg)"
    using fields [of th_rst] fields [of th_seqno] fields [of th_syn] fields [of th_fin] by (simp_all add: with_ports_def)
  with same seg show ?thesis by (simp add: frame_of_def segment_of_def same_segment_def)
qed

lemma written_frame:
  assumes "numeric_resolver rs" and "fits seg" and "frame_of S isn seg"
    and "fc_source (fa_cfg peer) = ipv4_address src sport" and "fc_destination (fa_cfg peer) = ipv4_address dst dport"
    and "tun_write rs seg peer = Inr (bl, seg1)" and "tun_read rs (BufferList_concatenate bl) a = Inr (Some seg', a')"
  shows "frame_of S isn seg'"
proof -
  from tun_write_arrives [OF assms(1,2,4,5)] assms(6) obtain d where
    d: "IPv4Datagram_parse IPv4Datagram_default (Buffer_of_string (BufferList_concatenate bl)) = Inr (NoError, d)"
      "arrives d (wrapped_header src dst seg) (with_ports sport dport seg)" by auto
  from d(2) obtain b seg2 where "ipd_payload d = [b]" "same_segment seg2 (with_ports sport dport seg)"
    "TCPSegment_parse TCPSegment_default b (pseudo_cksum (ipd_header d)) = Inr (NoError, seg2)" by (rule arrivesE)
  moreover from this assms(7) d(1) have "seg' = seg2"
    by (auto simp: tun_read_def unwrap_tcp_in_ip_def BufferList_to_Buffer_def result_bind_Inr_iff split: if_splits)
  ultimately show ?thesis using frame_of_same assms(3) by blast
qed

section \<open>Properties\<close>

text \<open>
  A concrete socket over a TUN device. The device, number 9, returns one datagram after the other, of two
  that a peer's adapter has written for the segments of the stream \<open>[7, 8]\<close>; the other descriptors are those
  of the toy kernel, with \<open>[1, 2, 3]\<close> waiting to be read.
\<close>

definition example_datagram :: "TCPSegment \<Rightarrow> bytes" where
  "example_datagram seg = (case tun_write dotted_resolver seg example_client of Inl e \<Rightarrow> [] | Inr (bl, _) \<Rightarrow> BufferList_concatenate bl)"

definition example_datagrams :: "bytes list" where
  "example_datagrams = [example_datagram (seg_example 100 True False []), example_datagram (seg_example 101 False True [7, 8])]"

definition device_kernel :: "toy kernel" where
  "device_kernel =
     toy_kernel\<lparr>k_read := (\<lambda>fd n k.
       let bs = (if fd = 9 then example_datagrams ! (length (toy_in k 9) mod 2) else take (min n 2) (toy_queue k fd)) in
       if n < length bs then ((-1, 22, []), k)
       else ((int (length bs), 0, bs), k\<lparr>toy_queue := (toy_queue k)(fd := drop (length bs) (toy_queue k fd)),
                                          toy_in := (toy_in k)(fd := toy_in k fd @ bs)\<rparr>))\<rparr>"

definition example_env :: "(FileDescriptor \<times> FdAdapterBase, toy) env" where
  "example_env = \<lparr>en_kernel = device_kernel, en_resolver = dotted_resolver, en_adapter = tun_adapter device_kernel dotted_resolver\<rparr>"

definition example_socket :: "(FileDescriptor \<times> FdAdapterBase, toy) TCPSpongeSocket" where
  "example_socket =
     \<lparr>ss_sys = \<lparr>sys_fds = (\<lambda>d. \<lparr>fw_fd = int d + 7, fw_eof = False, fw_closed = False, fw_read_count = 0, fw_write_count = 0\<rparr>),
               sys_next = 3, sys_program_start = None,
               sys_kernel = \<lparr>toy_queue = (\<lambda>_. [1, 2, 3]), toy_in = (\<lambda>_. []), toy_out = (\<lambda>_. [])\<rparr>\<rparr>,
      ss_socket = 0, ss_thread_data = 1, ss_datagram_adapter = (2, example_server), ss_tcp = None,
      ss_joinable = False, ss_abort = False, ss_inbound_shutdown = False, ss_outbound_shutdown = False,
      ss_fully_acked = False\<rparr>"

lemma device_kernel_ok: "kernel_ok device_kernel toy_in toy_out"
proof -
  have "writev_conforms device_kernel toy_in toy_out"
    using toy_kernel_conforms(1) by (simp add: writev_conforms_def device_kernel_def)
  moreover have "read_conforms device_kernel toy_in toy_out"
    by (auto simp: read_conforms_def device_kernel_def Let_def split: prod.splits)
  ultimately show ?thesis by (simp add: kernel_ok_def quiet_def device_kernel_def toy_kernel_def done_call_def)
qed

lemma example_frames:
  "frame_of [7, 8] 100 (seg_example 100 True False [])" "frame_of [7, 8] 100 (seg_example 101 False True [7, 8])"
proof -
  have "segment_of [7, 8] 100 0 (seg_example 100 True False [])" "segment_of [7, 8] 100 1 (seg_example 101 False True [7, 8])"
    by (simp_all add: segment_of_def seg_example_def wrap_eq extent_def SIZE_MOD_def)
  then show "frame_of [7, 8] 100 (seg_example 100 True False [])" "frame_of [7, 8] 100 (seg_example 101 False True [7, 8])"
    by (auto simp: frame_of_def)
qed

lemma example_datagram_carries:
  assumes "fits seg" and "frame_of S isn seg" and "tun_read dotted_resolver (example_datagram seg) a = Inr (Some seg', a')"
  shows "frame_of S isn seg'"
proof -
  obtain bl where bl: "tun_write dotted_resolver seg example_client = Inr (bl, with_ports 1024 80 seg)"
    using tun_write_arrives [OF numeric_dotted_resolver assms(1) example_adapters(1,2)] by blast
  with assms(3) have "tun_read dotted_resolver (BufferList_concatenate bl) a = Inr (Some seg', a')"
    by (simp add: example_datagram_def)
  from written_frame [OF numeric_dotted_resolver assms(1,2) example_adapters(1,2) bl this] show ?thesis .
qed

lemma example_peer_sends: "peer_sends device_kernel dotted_resolver 9 (\<lambda>_. True) [7, 8] 100"
proof -
  have fits: "fits (seg_example 100 True False [])" "fits (seg_example 101 False True [7, 8])"
    by (simp_all add: fits_def seg_example_def TCPHeader_default_def SIZE_MOD_def word_le_nat_alt)
  note carries = example_datagram_carries [OF fits(1) example_frames(1)] example_datagram_carries [OF fits(2) example_frames(2)]
  have "input = example_datagrams ! 0 \<or> input = example_datagrams ! 1"
    if "k_read device_kernel 9 BUFFER_SIZE k = ((ret, err, input), k')" "0 \<le> ret" for k ret err input k'
    using that by (cases "length (toy_in k 9) mod 2 = 0") (auto simp: device_kernel_def Let_def mod2_eq_if split: if_splits)
  with carries show ?thesis unfolding peer_sends_def example_datagrams_def by fastforce
qed

text \<open>
  C7. The application reads the peer's stream, over a TUN device: from the moment the socket has started to
  connect or to listen, and after any number of passes of its event loop, also when one of them throws,
  the bytes written to the local socket of the application are a prefix of the stream \<open>S\<close> the peer sends.
  The device and the local socket have different descriptor numbers, and what arrives on the device and passes the
  adapter is a reset or a segment of that stream; such segments may be lost, repeated and reordered, datagrams
  that do not pass may be anything, and the kernel may accept any part of what is written.
\<close>

theorem sponge_delivers_prefix:
  assumes "kernel_ok kc ins out"
    and "env = \<lparr>en_kernel = kc, en_resolver = rs, en_adapter = tun_adapter kc rs\<rparr>"
    and "ss_datagram_adapter s = (dev, a)" and "fd_num dev (ss_sys s) \<noteq> pipe_fd s"
    and "peer_sends kc rs (fd_num dev (ss_sys s)) B S isn"
    and "B (a\<lparr>fa_cfg := c_ad\<rparr>)" and "B (set_listening True (a\<lparr>fa_cfg := c_ad\<rparr>))"
    and "length S + 3 \<le> 2 ^ 31" and "length S + cfg_recv_capacity c_tcp + 1 < SIZE_MOD" and "pipe_log out s = []"
    and "start_connect env c_tcp c_ad random_isn ([], s) = (Inr (), sp) \<or>
      start_listen env c_tcp c_ad random_isn ([], s) = (Inr (), sp)"
    and "passes env n t sp = (r, sp')"
  shows "prefix (pipe_log out (snd sp')) S"
proof (rule passes_deliver_prefix [OF _ _ assms(8-10) _ _ assms(11,12)])
  show "kernel_ok (en_kernel env) ins out" using assms(1,2) by simp
  show "adapter_ok (en_adapter env) out (\<lambda>(d, a). d = dev \<and> B a) (ss_thread_data s) (nums (ss_sys s)) S isn"
    using tun_adapter_ok [OF assms(1), of "nums (ss_sys s)" dev "ss_thread_data s" rs B S isn] assms(2,4,5)
    by (simp add: nums_def pipe_fd_def)
qed (use assms(2,3,6,7) in \<open>simp_all add: tun_adapter_def\<close>)

theorem sponge_delivers_prefix_witness:
  "\<exists>sp r sp'. start_listen example_env TCPConfig_default (fa_cfg example_listener) 7 ([], example_socket) = (Inr (), sp) \<and>
     passes example_env 5 0 sp = (r, sp') \<and> prefix (pipe_log toy_out (snd sp')) [7, 8]"
proof -
  obtain sp where sp: "start_listen example_env TCPConfig_default (fa_cfg example_listener) 7 ([], example_socket) = (Inr (), sp)"
    by (simp add: start_listen_def io_bind_def io_run on_socket_def example_socket_def initialize_TCP_def)
  obtain r sp' where run: "passes example_env 5 0 sp = (r, sp')" by (cases "passes example_env 5 0 sp")
  have "prefix (pipe_log toy_out (snd sp')) [7, 8]"
  proof (rule sponge_delivers_prefix [OF device_kernel_ok example_env_def _ _ _ _ _ _ _ _ disjI2 [OF sp] run])
    show "ss_datagram_adapter example_socket = (2, example_server)" by (simp add: example_socket_def)
    show "peer_sends device_kernel dotted_resolver (fd_num 2 (ss_sys example_socket)) (\<lambda>_. True) [7, 8] 100"
      using example_peer_sends by (simp add: example_socket_def fd_num_def)
  qed (simp_all add: example_socket_def fd_num_def pipe_fd_def pipe_log_def TCPConfig_default_def DEFAULT_CAPACITY_def SIZE_MOD_def)
  with sp run show ?thesis by blast
qed

text \<open>
  C9. What the application writes is sent: the callback for the readable local socket either fails with
  the error of the read call, with nothing taken from the socket and the connection unchanged, or
  appends every byte it took to the outgoing stream of the connection. The failure the code guards
  against, that the connection accepts less than it advertised, never happens, and neither does
  reading more than fits. The outgoing stream of the connection is closed behind these bytes if the end
  of the input has been seen, and then the rule is marked as finished; otherwise it stays open.
\<close>

theorem sponge_outbound_lossless:
  assumes "read_conforms (en_kernel env) ins out" and "ss_tcp s = Some c" and "tc_sender_inv W c"
    and "\<not> input_ended (tc_outbound_stream c)" and "length W + remaining_outbound_capacity c + 2 < SIZE_MOD"
    and "destination_known env s"
  shows "\<exists>r s'. rule2_callback env s = (r, s') \<and>
    ((\<exists>e. r = Inl (SystemError e)) \<and> ss_tcp s' = Some c \<and> pipe_log ins s' = pipe_log ins s \<or>
     r = Inr () \<and> (\<exists>data c'. ss_tcp s' = Some c' \<and> pipe_log ins s' = pipe_log ins s @ data \<and>
       length data \<le> remaining_outbound_capacity c \<and> tc_grows W c (W @ data) c' \<and>
       (input_ended (tc_outbound_stream c') \<longleftrightarrow> fd_eof (ss_thread_data s) (ss_sys s')) \<and>
       (fd_eof (ss_thread_data s) (ss_sys s') \<longrightarrow> ss_outbound_shutdown s')))"
proof -
  let ?d = "ss_thread_data s"
  from fd_read_conforms [OF assms(1), of ?d "remaining_outbound_capacity c" "ss_sys s"] show ?thesis
  proof (elim disjE exE conjE)
    fix e sys assume "fd_read (en_kernel env) ?d (remaining_outbound_capacity c) (ss_sys s) = (Inl (SystemError e), sys)"
      "took ins out ?d [] (ss_sys s) sys"
    then show ?thesis
      using assms(2) by (simp add: rule2_callback_def sponge_run tcp_run pipe_log_def pipe_fd_def took_def)
  next
    fix data sys
    assume read: "fd_read (en_kernel env) ?d (remaining_outbound_capacity c) (ss_sys s) = (Inr data, sys)"
      and len: "length data \<le> remaining_outbound_capacity c" and took: "took ins out ?d data (ss_sys s) sys"
    from tc_write_all [OF assms(3,4) len] assms(5) len obtain c1 where
      c1: "tc_write c data = Inr (c1, length data)" "tc_grows W c (W @ data) c1" by auto
    then have inv1: "tc_sender_inv (W @ data) c1" by (simp add: tc_grows_def)
    show ?thesis
    proof (cases "fd_eof ?d sys")
      case False
      let ?s = "s\<lparr>ss_sys := sys, ss_tcp := Some c1\<rparr>"
      have "rule2_callback env s = (Inr (), ?s)"
        using assms(2) read c1 False by (simp add: rule2_callback_def rule2_eof_def sponge_run tcp_run)
      moreover have "pipe_log ins ?s = pipe_log ins s @ data"
        using took by (simp add: pipe_log_def pipe_fd_def took_def)
      moreover have "\<not> input_ended (tc_outbound_stream c1)"
        using tc_write_flags [OF c1(1)] assms(4) by (simp add: same_flags_def input_ended_def)
      ultimately show ?thesis using c1(2) len False by auto
    next
      case True
      have "length (W @ data) + 2 < SIZE_MOD" using assms(5) len by simp
      from end_input_stream_returns [OF inv1 this] obtain c2 where
        c2: "end_input_stream c1 = Inr c2" "tc_grows (W @ data) c1 (W @ data) c2" by blast
      let ?s = "s\<lparr>ss_sys := sys, ss_tcp := Some c2, ss_outbound_shutdown := True\<rparr>"
      have "rule2_callback env s = (Inr (), ?s)"
        using assms(2,6) read c1(1) c2(1) True
        by (auto simp: rule2_callback_def rule2_eof_def rule2_cancel_def sponge_run tcp_run destination_text_def destination_known_def)
      moreover have "pipe_log ins ?s = pipe_log ins s @ data"
        using took by (simp add: pipe_log_def pipe_fd_def took_def)
      moreover have "input_ended (tc_outbound_stream c2)" using end_input_stream_closes [OF c2(1)] by (simp add: input_ended_def)
      ultimately show ?thesis using tc_grows_trans [OF c1(2) c2(2)] len True by auto
    qed
  qed
qed

theorem sponge_outbound_lossless_witness:
  "\<exists>r s'. rule2_callback example_env (example_socket\<lparr>ss_tcp := Some (TCPConnection_new TCPConfig_default 7)\<rparr>) = (r, s') \<and>
    ((\<exists>e. r = Inl (SystemError e)) \<and> ss_tcp s' = Some (TCPConnection_new TCPConfig_default 7) \<or>
     r = Inr () \<and> (\<exists>data c'. ss_tcp s' = Some c' \<and> pipe_log toy_in s' = data \<and>
       tc_grows [] (TCPConnection_new TCPConfig_default 7) data c'))"
proof -
  let ?c = "TCPConnection_new TCPConfig_default 7" and ?s = "example_socket\<lparr>ss_tcp := Some (TCPConnection_new TCPConfig_default 7)\<rparr>"
  have log: "pipe_log toy_in ?s = []" by (simp add: pipe_log_def example_socket_def)
  have inv: "tc_sender_inv [] ?c"
    by (simp add: tc_sender_inv_def TCPConnection_new_def sd_inv_new TCPConfig_default_def DEFAULT_CAPACITY_def SIZE_MOD_def)
      (simp add: TCPSender_new_def)
  have out: "tc_outbound_stream ?c = ByteStream_new DEFAULT_CAPACITY"
    by (simp add: TCPConnection_new_def TCPSender_new_def TCPConfig_default_def)
  have known: "destination_known example_env ?s"
    by (simp add: destination_known_def example_env_def Address_to_string_def tun_adapter_def example_socket_def
        ip_port_numeric [OF numeric_dotted_resolver])
  have conf: "read_conforms (en_kernel example_env) toy_in toy_out"
    using device_kernel_ok by (simp add: kernel_ok_def example_env_def)
  have tcp: "ss_tcp ?s = Some ?c" by simp
  have open_stream: "\<not> input_ended (tc_outbound_stream ?c)" by (simp add: out ByteStream_new_def input_ended_def)
  have room: "length ([] :: bytes) + remaining_outbound_capacity ?c + 2 < SIZE_MOD"
    by (simp add: remaining_outbound_capacity_def out remaining_capacity_def buffer_size_def ByteStream_new_def
        sub64_def DEFAULT_CAPACITY_def SIZE_MOD_def)
  from sponge_outbound_lossless [OF conf tcp inv open_stream room known] log show ?thesis by auto
qed

end
