(* ===== verification/Stream_Copy.thy ===== *)
theory Stream_Copy
  imports Loop_Invariants Sockets Byte_Stream
begin

text \<open>
  Copying between a socket and the standard streams (apps/bidirectional\_stream\_copy.cc): two byte
  streams and four rules of an event loop. A \<open>flow\<close> is one of the two directions; the callbacks of the
  rules of both are the same code on the stream of the flow and its descriptor.
\<close>

section \<open>The state of the function\<close>

definition max_copy_length :: size_t where
  "max_copy_length = 65536"

definition copy_buffer_size :: size_t where
  "copy_buffer_size = 1048576"

record 'k copier =
  cp_sys :: "'k system"
  cp_outbound :: ByteStream
  cp_inbound :: ByteStream
  cp_outbound_shutdown :: bool
  cp_inbound_shutdown :: bool

datatype flow = Outbound | Inbound

fun flow_stream :: "flow \<Rightarrow> 'k copier \<Rightarrow> ByteStream" where
  "flow_stream Outbound s = cp_outbound s"
| "flow_stream Inbound s = cp_inbound s"

fun set_stream :: "flow \<Rightarrow> ByteStream \<Rightarrow> 'k copier \<Rightarrow> 'k copier" where
  "set_stream Outbound st s = s\<lparr>cp_outbound := st\<rparr>"
| "set_stream Inbound st s = s\<lparr>cp_inbound := st\<rparr>"

fun flow_shutdown :: "flow \<Rightarrow> 'k copier \<Rightarrow> bool" where
  "flow_shutdown Outbound s = cp_outbound_shutdown s"
| "flow_shutdown Inbound s = cp_inbound_shutdown s"

fun set_shutdown :: "flow \<Rightarrow> 'k copier \<Rightarrow> 'k copier" where
  "set_shutdown Outbound s = s\<lparr>cp_outbound_shutdown := True\<rparr>"
| "set_shutdown Inbound s = s\<lparr>cp_inbound_shutdown := True\<rparr>"

fun other_flow :: "flow \<Rightarrow> flow" where
  "other_flow Outbound = Inbound"
| "other_flow Inbound = Outbound"

definition on_copy_sys :: "('k system, 'a) io \<Rightarrow> ('k copier, 'a) io" where
  "on_copy_sys m s = (case m (cp_sys s) of (r, sys) \<Rightarrow> (r, s\<lparr>cp_sys := sys\<rparr>))"

section \<open>The rules\<close>

text \<open>The callbacks of rules 1 and 3, and of rules 2 and 4, which differ in what they do at the end.\<close>

definition pump_in :: "'k kernel \<Rightarrow> flow \<Rightarrow> FileDescriptor \<Rightarrow> ('k copier, unit) io" where
  "pump_in kc f d =
     io_bind (io_get (\<lambda>s. remaining_capacity (flow_stream f s))) (\<lambda>room.
     io_bind (on_copy_sys (fd_read kc d room)) (\<lambda>data.
     io_bind (io_modify (\<lambda>s. set_stream f (fst (bs_write_move (flow_stream f s) data)) s)) (\<lambda>_.
     io_bind (io_get (\<lambda>s. fd_eof d (cp_sys s))) (\<lambda>at_eof.
     io_when at_eof (io_modify (\<lambda>s. set_stream f (end_input (flow_stream f s)) s))))))"

definition pump_out :: "'k kernel \<Rightarrow> flow \<Rightarrow> FileDescriptor \<Rightarrow> ('k system, unit) io \<Rightarrow> ('k copier, unit) io" where
  "pump_out kc f d finish =
     io_bind (io_get (flow_stream f)) (\<lambda>st.
     let bytes_to_write = min max_copy_length (buffer_size st) in
     io_bind (io_lift (peek_output True st bytes_to_write)) (\<lambda>data.
     io_bind (on_copy_sys (fd_write kc d (BufferViewList_of_string data) False)) (\<lambda>bytes_written.
     io_bind (io_lift (pop_output st bytes_written)) (\<lambda>st.
     io_bind (io_modify (set_stream f st)) (\<lambda>_.
     io_when (eof st) (io_bind (on_copy_sys finish) (\<lambda>_. io_modify (set_shutdown f))))))))"

definition read_interest :: "flow \<Rightarrow> ('k copier, bool) io" where
  "read_interest f = io_get (\<lambda>s. \<not> bs_error (flow_stream f s) \<and> remaining_capacity (flow_stream f s) > 0 \<and>
     \<not> bs_error (flow_stream (other_flow f) s))"

definition write_interest :: "flow \<Rightarrow> ('k copier, bool) io" where
  "write_interest f = io_get (\<lambda>s. \<not> buffer_empty (flow_stream f s) \<or> eof (flow_stream f s) \<and> \<not> flow_shutdown f s)"

definition end_flow :: "flow \<Rightarrow> ('k copier, unit) io" where
  "end_flow f = io_modify (\<lambda>s. set_stream f (end_input (flow_stream f s)) s)"

definition copy_rules :: "'k kernel \<Rightarrow> FileDescriptor \<Rightarrow> FileDescriptor \<Rightarrow> FileDescriptor \<Rightarrow> 'k copier Rule list" where
  "copy_rules kc socket input output =
     add_rule output Out (pump_out kc Inbound output (fd_close kc output)) (write_interest Inbound) (end_flow Inbound)
      (add_rule socket In (pump_in kc Inbound socket) (read_interest Inbound) (end_flow Inbound)
        (add_rule socket Out (pump_out kc Outbound socket (shutdown kc socket SHUT_WR)) (write_interest Outbound) (end_flow Outbound)
          (add_rule input In (pump_in kc Outbound input) (read_interest Outbound) (end_flow Outbound) [])))"

section \<open>The function\<close>

text \<open>Creating the descriptors of the standard streams, which never throws as their numbers are valid.\<close>

definition copy_open :: "('k system, FileDescriptor \<times> FileDescriptor) io" where
  "copy_open =
     io_bind (FileDescriptor_new 0) (\<lambda>input.
     io_bind (FileDescriptor_new 1) (\<lambda>output.
     io_return (input, output)))"

definition copy_unblock :: "'k kernel \<Rightarrow> FileDescriptor \<Rightarrow> FileDescriptor \<Rightarrow> FileDescriptor \<Rightarrow> ('k system, unit) io" where
  "copy_unblock kc socket input output =
     io_bind (set_blocking kc socket False) (\<lambda>_.
     io_bind (set_blocking kc input False) (\<lambda>_.
     set_blocking kc output False))"

definition copy_state :: "'k system \<Rightarrow> 'k copier" where
  "copy_state sys =
     \<lparr>cp_sys = sys, cp_outbound = ByteStream_new copy_buffer_size, cp_inbound = ByteStream_new copy_buffer_size,
      cp_outbound_shutdown = False, cp_inbound_shutdown = False\<rparr>"

definition copy_poll :: "'k kernel \<Rightarrow> pollfd list \<Rightarrow> int \<Rightarrow> ('k copier, 16 word list) call" where
  "copy_poll kc pollfds timeout_ms s =
     (case k_poll kc pollfds timeout_ms (sys_kernel (cp_sys s)) of (ret, k) \<Rightarrow>
        (ret, s\<lparr>cp_sys := (cp_sys s)\<lparr>sys_kernel := k\<rparr>\<rparr>))"

definition copy_wait :: "'k kernel \<Rightarrow> ('k copier Rule list \<times> 'k copier, Result) io" where
  "copy_wait kc = (\<lambda>(rules, s). wait_next_event (\<lambda>s. sys_fds (cp_sys s)) (copy_poll kc) (-1) rules s)"

partial_function (option) copy_loop ::
  "'k kernel \<Rightarrow> 'k copier Rule list \<times> 'k copier \<Rightarrow> (unit result \<times> 'k copier Rule list \<times> 'k copier) option" where
  "copy_loop kc st =
     (case copy_wait kc st of
        (Inl e, st) \<Rightarrow> Some (Inl e, st)
      | (Inr res, st) \<Rightarrow> if res = Exit then Some (Inr (), st) else copy_loop kc st)"

text \<open>
  The locals go out of scope: a descriptor whose rules were all erased is closed with the local
  variable, the others with the rules of the event loop.
\<close>

definition copy_cleanup :: "'k kernel \<Rightarrow> FileDescriptor \<Rightarrow> FileDescriptor \<Rightarrow> 'k copier Rule list \<Rightarrow> 'k system \<Rightarrow> 'k system" where
  "copy_cleanup kc input output rules sys =
     (let held = filter (\<lambda>d. d = input \<or> d = output) (map ru_fd rules);
          free = filter (\<lambda>d. d \<notin> set held) [output, input]
      in fold (FDWrapper_destroy kc) (free @ held) sys)"

definition bidirectional_stream_copy :: "'k kernel \<Rightarrow> FileDescriptor \<Rightarrow> 'k system \<Rightarrow> (unit result \<times> 'k system) option" where
  "bidirectional_stream_copy kc socket sys =
     (case copy_open sys of
        (Inl e, sys) \<Rightarrow> Some (Inl e, sys)
      | (Inr (input, output), sys) \<Rightarrow>
          (case copy_unblock kc socket input output sys of
             (Inl e, sys) \<Rightarrow> Some (Inl e, copy_cleanup kc input output [] sys)
           | (Inr _, sys) \<Rightarrow>
               (case copy_loop kc (copy_rules kc socket input output, copy_state sys) of
                  None \<Rightarrow> None
                | Some (r, rules, s) \<Rightarrow> Some (r, copy_cleanup kc input output rules (cp_sys s)))))"


section \<open>Conservation\<close>

text \<open>
  \<open>n\<close> is the descriptor number of the socket. \<open>copy_inv\<close>: in both directions what was read is what was
  written followed by what the byte stream holds.
\<close>

fun src_num :: "int \<Rightarrow> flow \<Rightarrow> int" where
  "src_num n Outbound = 0"
| "src_num n Inbound = n"

fun dst_num :: "int \<Rightarrow> flow \<Rightarrow> int" where
  "dst_num n Outbound = n"
| "dst_num n Inbound = 1"

definition flow_ok :: "('k \<Rightarrow> int \<Rightarrow> bytes) \<Rightarrow> ('k \<Rightarrow> int \<Rightarrow> bytes) \<Rightarrow> int \<Rightarrow> 'k copier \<Rightarrow> flow \<Rightarrow> bool" where
  "flow_ok ins out n s f \<longleftrightarrow>
     ByteStream_inv (flow_stream f s) \<and> bs_capacity (flow_stream f s) = copy_buffer_size \<and>
     ins (sys_kernel (cp_sys s)) (src_num n f) =
       out (sys_kernel (cp_sys s)) (dst_num n f) @ bs_contents (flow_stream f s)"

definition numbered :: "int \<Rightarrow> FileDescriptor \<Rightarrow> FileDescriptor \<Rightarrow> FileDescriptor \<Rightarrow> 'k system \<Rightarrow> bool" where
  "numbered n socket input output sys \<longleftrightarrow> fd_num socket sys = n \<and> fd_num input sys = 0 \<and> fd_num output sys = 1"

definition copy_inv ::
  "('k \<Rightarrow> int \<Rightarrow> bytes) \<Rightarrow> ('k \<Rightarrow> int \<Rightarrow> bytes) \<Rightarrow> int \<Rightarrow> ('k system \<Rightarrow> bool) \<Rightarrow> 'k copier \<Rightarrow> bool" where
  "copy_inv ins out n N s \<longleftrightarrow> N (cp_sys s) \<and> (\<forall>f. flow_ok ins out n s f)"

definition copy_kernel :: "'k kernel \<Rightarrow> ('k \<Rightarrow> int \<Rightarrow> bytes) \<Rightarrow> ('k \<Rightarrow> int \<Rightarrow> bytes) \<Rightarrow> bool" where
  "copy_kernel kc ins out \<longleftrightarrow> kernel_ok kc ins out \<and>
     (\<forall>fd cmd arg. quiet ins out (k_fcntl kc fd cmd arg)) \<and> (\<forall>fd. quiet ins out (k_close kc fd))"

lemma flow_stream_set [simp]:
  "flow_stream f (set_stream f st s) = st" "f' \<noteq> f \<Longrightarrow> flow_stream f' (set_stream f st s) = flow_stream f' s"
  "cp_sys (set_stream f st s) = cp_sys s" "flow_stream f (s\<lparr>cp_sys := sys\<rparr>) = flow_stream f s"
  "flow_stream f (set_shutdown f' s) = flow_stream f s" "cp_sys (set_shutdown f' s) = cp_sys s"
  by (cases f; cases f'; simp)+

lemma ends_distinct:
  "n \<noteq> 0 \<Longrightarrow> src_num n f = src_num n f' \<longleftrightarrow> f = f'" "n \<noteq> 1 \<Longrightarrow> dst_num n f = dst_num n f' \<longleftrightarrow> f = f'"
  by (cases f; cases f'; simp)+

lemma copy_inv_stream:
  assumes "copy_inv ins out n N s" and "ByteStream_inv st" and "bs_capacity st = copy_buffer_size" and "N sys'"
    and "\<And>f'. f' \<noteq> f \<Longrightarrow> ins (sys_kernel sys') (src_num n f') = ins (sys_kernel (cp_sys s)) (src_num n f')"
    and "\<And>f'. f' \<noteq> f \<Longrightarrow> out (sys_kernel sys') (dst_num n f') = out (sys_kernel (cp_sys s)) (dst_num n f')"
    and "ins (sys_kernel sys') (src_num n f) = out (sys_kernel sys') (dst_num n f) @ bs_contents st"
  shows "copy_inv ins out n N (set_stream f st (s\<lparr>cp_sys := sys'\<rparr>))"
proof -
  have "flow_ok ins out n (set_stream f st (s\<lparr>cp_sys := sys'\<rparr>)) f'" for f'
    using assms by (cases "f' = f") (simp_all add: flow_ok_def copy_inv_def)
  then show ?thesis using assms(4) by (simp add: copy_inv_def)
qed

lemma copy_inv_quiet:
  "copy_inv ins out n N s \<Longrightarrow> N sys' \<Longrightarrow> ins (sys_kernel sys') = ins (sys_kernel (cp_sys s)) \<Longrightarrow>
   out (sys_kernel sys') = out (sys_kernel (cp_sys s)) \<Longrightarrow> copy_inv ins out n N (s\<lparr>cp_sys := sys'\<rparr>)"
  by (simp add: copy_inv_def flow_ok_def)

lemma copy_inv_end:
  assumes "copy_inv ins out n N s"
  shows "copy_inv ins out n N (set_stream f (end_input (flow_stream f s)) s)"
  using copy_inv_stream [of ins out n N s "end_input (flow_stream f s)" "cp_sys s" f] assms
  by (simp add: copy_inv_def flow_ok_def)

text \<open>The descriptors keep their numbers, whatever is done with them.\<close>

definition stable_numbers :: "('k system \<Rightarrow> bool) \<Rightarrow> bool" where
  "stable_numbers N \<longleftrightarrow> (\<forall>sys sys'. N sys \<and> (\<forall>d. fd_num d sys' = fd_num d sys) \<longrightarrow> N sys')"

lemma numbered_stable: "stable_numbers (numbered n socket input output)"
  by (simp add: stable_numbers_def numbered_def)

lemma stable_numbersD: "stable_numbers N \<Longrightarrow> N sys \<Longrightarrow> (\<And>d. fd_num d sys' = fd_num d sys) \<Longrightarrow> N sys'"
  by (auto simp: stable_numbers_def)

lemma pump_in_maintains:
  assumes kc: "read_conforms kc ins out" and n: "n \<noteq> 0" and N: "stable_numbers N" "\<And>sys. N sys \<Longrightarrow> fd_num d sys = src_num n f"
  shows "maintains (copy_inv ins out n N) (pump_in kc f d)"
  unfolding maintains_def
proof (intro allI impI)
  fix s assume inv: "copy_inv ins out n N s"
  let ?st = "flow_stream f s" and ?m = "remaining_capacity (flow_stream f s)"
  have st: "ByteStream_inv ?st" "N (cp_sys s)" "bs_capacity ?st = copy_buffer_size" and
    flow: "ins (sys_kernel (cp_sys s)) (src_num n f) = out (sys_kernel (cp_sys s)) (dst_num n f) @ bs_contents ?st"
    using inv by (simp_all add: copy_inv_def flow_ok_def)
  from fd_read_conforms [OF kc, of d ?m "cp_sys s"] show "copy_inv ins out n N (snd (pump_in kc f d s))"
  proof (elim disjE exE conjE)
    fix e sys' assume r: "fd_read kc d ?m (cp_sys s) = (Inl (SystemError e), sys')" "took ins out d [] (cp_sys s) sys'"
    then have "copy_inv ins out n N (s\<lparr>cp_sys := sys'\<rparr>)"
      using stable_numbersD [OF N(1) st(2)] by (intro copy_inv_quiet [OF inv]) (simp_all add: took_def)
    with r(1) show ?thesis by (simp add: pump_in_def io_bind_def io_run on_copy_sys_def)
  next
    fix bs sys' assume r: "fd_read kc d ?m (cp_sys s) = (Inr bs, sys')" "took ins out d bs (cp_sys s) sys'" "length bs \<le> ?m"
    obtain st' wc where w: "bs_write ?st bs = (st', wc)" by (cases "bs_write ?st bs")
    note spec = bs_write_spec [OF st(1) w]
    have room: "?m = bs_capacity ?st - length (bs_contents ?st)"
      using ByteStream_invD [OF st(1)] by (simp add: remaining_capacity_def size_arith)
    then have wc: "take wc bs = bs" using spec(2) r(3) by simp
    let ?s = "set_stream f st' (s\<lparr>cp_sys := sys'\<rparr>)"
    have inv': "copy_inv ins out n N ?s"
    proof (rule copy_inv_stream [OF inv])
      show "N sys'" using stable_numbersD [OF N(1) st(2)] r(2) by (simp add: took_def)
      show "ins (sys_kernel sys') (src_num n f) = out (sys_kernel sys') (dst_num n f) @ bs_contents st'"
        using r(2) flow spec(3) wc N(2) [OF st(2)] by (simp add: took_def)
    qed (use r(2) st spec n N(2) in \<open>auto simp: took_def ends_distinct bs_write_def Let_def\<close>)
    have "pump_in kc f d s = io_when (fd_eof d sys') (io_modify (\<lambda>s. set_stream f (end_input (flow_stream f s)) s)) ?s"
      using r(1) w by (simp add: pump_in_def io_bind_def io_run on_copy_sys_def)
    with inv' copy_inv_end [OF inv', of f] show ?thesis by (simp add: io_when_run io_run)
  qed
qed


text \<open>Operations that transfer no data and renumber no descriptor.\<close>

definition silent :: "('k \<Rightarrow> int \<Rightarrow> bytes) \<Rightarrow> ('k \<Rightarrow> int \<Rightarrow> bytes) \<Rightarrow> ('k system, 'a) io \<Rightarrow> bool" where
  "silent ins out m \<longleftrightarrow> (\<forall>sys. (\<forall>d. fd_num d (snd (m sys)) = fd_num d sys) \<and>
     ins (sys_kernel (snd (m sys))) = ins (sys_kernel sys) \<and> out (sys_kernel (snd (m sys))) = out (sys_kernel sys))"

lemma silentD:
  assumes "silent ins out m" and "m sys = (r, sys')"
  shows "fd_num d sys' = fd_num d sys" "ins (sys_kernel sys') = ins (sys_kernel sys)" "out (sys_kernel sys') = out (sys_kernel sys)"
  using assms(1) [unfolded silent_def, rule_format, of sys] assms(2) by simp_all

lemma silent_bind:
  assumes "silent ins out m" and "\<And>x. silent ins out (f x)"
  shows "silent ins out (io_bind m f)"
  unfolding silent_def
proof
  fix sys
  obtain r sys1 where m: "m sys = (r, sys1)" by (cases "m sys")
  note m' = silentD [OF assms(1) m]
  show "(\<forall>d. fd_num d (snd (io_bind m f sys)) = fd_num d sys) \<and>
      ins (sys_kernel (snd (io_bind m f sys))) = ins (sys_kernel sys) \<and>
      out (sys_kernel (snd (io_bind m f sys))) = out (sys_kernel sys)"
  proof (cases r)
    case (Inl e)
    with m m' show ?thesis by (simp add: io_bind_def)
  next
    case (Inr x)
    with m m' assms(2) [of x, unfolded silent_def, rule_format, of sys1] show ?thesis by (simp add: io_bind_def)
  qed
qed

lemma silent_call: "(\<And>fd. quiet ins out (call fd)) \<Longrightarrow> silent ins out (fd_call d call)"
  unfolding silent_def quiet_def
  by (auto simp: fd_call_def system_call_def split: prod.splits) (metis snd_conv)+

lemma silent_basic [simp]:
  "silent ins out (io_return x)" "silent ins out (io_throw e)" "silent ins out (io_modify (register_read d))"
  "silent ins out (io_modify (register_write d))" "silent ins out (io_modify (\<lambda>s. register_write d (register_read d s)))"
  "silent ins out (io_modify (fd_update d (\<lambda>w. w\<lparr>fw_eof := e', fw_closed := c'\<rparr>)))"
  by (simp_all add: silent_def io_run) (simp add: fd_num_def fd_update_def)

lemma silent_ops:
  assumes "copy_kernel kc ins out"
  shows "silent ins out (shutdown kc d how)" "silent ins out (fd_close kc d)" "silent ins out (set_blocking kc d b)"
proof -
  have q: "quiet ins out (k_shutdown kc fd how)" "quiet ins out (k_close kc fd)" "quiet ins out (k_fcntl kc fd cmd arg)" for fd cmd arg
    using assms by (simp_all add: copy_kernel_def kernel_ok_def)
  show "silent ins out (shutdown kc d how)"
    unfolding shutdown_def by (rule silent_bind [OF silent_call [OF q(1)]]) simp
  show "silent ins out (fd_close kc d)"
    unfolding fd_close_def by (rule silent_bind [OF silent_call [OF q(2)]]) simp
  show "silent ins out (set_blocking kc d b)"
    unfolding set_blocking_def Let_def
    by (rule silent_bind [OF silent_call [OF q(3)]], simp only: split_beta, rule silent_bind [OF silent_call [OF q(3)]]) simp
qed

lemma finish_maintains:
  assumes "silent ins out finish" and "stable_numbers N"
  shows "maintains (copy_inv ins out n N) (io_bind (on_copy_sys finish) (\<lambda>_. io_modify (set_shutdown f)))"
  unfolding maintains_def
proof (intro allI impI)
  fix s assume inv: "copy_inv ins out n N s"
  obtain r sys' where fin: "finish (cp_sys s) = (r, sys')" by (cases "finish (cp_sys s)")
  note quiet = silentD [OF assms(1) fin]
  have "N sys'" using stable_numbersD [OF assms(2) _ quiet(1)] inv by (simp add: copy_inv_def)
  then have inv': "copy_inv ins out n N (s\<lparr>cp_sys := sys'\<rparr>)" using quiet by (intro copy_inv_quiet [OF inv])
  then have "copy_inv ins out n N (set_shutdown f (s\<lparr>cp_sys := sys'\<rparr>))" by (simp add: copy_inv_def flow_ok_def)
  with fin inv' show "copy_inv ins out n N (snd (io_bind (on_copy_sys finish) (\<lambda>_. io_modify (set_shutdown f)) s))"
    by (cases r) (simp_all add: io_bind_def on_copy_sys_def io_run)
qed

lemma pump_out_maintains:
  assumes kc: "writev_conforms kc ins out" and n: "n \<noteq> 1" and N: "stable_numbers N" "\<And>sys. N sys \<Longrightarrow> fd_num d sys = dst_num n f"
    and fin: "silent ins out finish"
  shows "maintains (copy_inv ins out n N) (pump_out kc f d finish)"
  unfolding maintains_def
proof (intro allI impI)
  fix s assume inv: "copy_inv ins out n N s"
  let ?st = "flow_stream f s" and ?data = "take (min max_copy_length (buffer_size (flow_stream f s))) (bs_contents (flow_stream f s))"
  have st: "ByteStream_inv ?st" "N (cp_sys s)" "bs_capacity ?st = copy_buffer_size" and
    flow: "ins (sys_kernel (cp_sys s)) (src_num n f) = out (sys_kernel (cp_sys s)) (dst_num n f) @ bs_contents ?st"
    using inv by (simp_all add: copy_inv_def flow_ok_def)
  have "length (concat [?data]) < 2 ^ 63" by (simp add: max_copy_length_def)
  from fd_write_some [OF kc this, of d "cp_sys s"] show "copy_inv ins out n N (snd (pump_out kc f d finish s))"
  proof (elim disjE exE conjE)
    fix e sys' assume w: "fd_write kc d [?data] False (cp_sys s) = (Inl (SystemError e), sys')" "wrote ins out d [] (cp_sys s) sys'"
    then have "copy_inv ins out n N (s\<lparr>cp_sys := sys'\<rparr>)"
      using stable_numbersD [OF N(1) st(2)] by (intro copy_inv_quiet [OF inv]) (simp_all add: wrote_def)
    with w(1) show ?thesis
      by (simp add: pump_out_def io_bind_def io_run on_copy_sys_def Let_def peek_output_release [OF st(1)] BufferViewList_of_string_def)
  next
    fix m sys' assume w: "fd_write kc d [?data] False (cp_sys s) = (Inr m, sys')" and m: "m \<le> length (concat [?data])"
      and wrote: "wrote ins out d (take m (concat [?data])) (cp_sys s) sys'"
    have data: "take m (concat [?data]) = take m (bs_contents ?st)" using m by simp
    from pop_output_spec [OF st(1), of m] obtain st' where st': "pop_output ?st m = Inr st'" "ByteStream_inv st'"
      "bs_contents st' = drop m (bs_contents ?st)" "bs_capacity st' = bs_capacity ?st" by blast
    let ?s = "set_stream f st' (s\<lparr>cp_sys := sys'\<rparr>)"
    have inv': "copy_inv ins out n N ?s"
    proof (rule copy_inv_stream [OF inv])
      show "N sys'" using stable_numbersD [OF N(1) st(2)] wrote by (simp add: wrote_def)
      show "ins (sys_kernel sys') (src_num n f) = out (sys_kernel sys') (dst_num n f) @ bs_contents st'"
        using wrote [unfolded data] flow st'(3) N(2) [OF st(2)] by (simp add: wrote_def)
    qed (use wrote st st' n N(2) in \<open>auto simp: wrote_def ends_distinct\<close>)
    have "pump_out kc f d finish s =
        io_when (eof st') (io_bind (on_copy_sys finish) (\<lambda>_. io_modify (set_shutdown f))) ?s"
      using w st'(1)
      by (simp add: pump_out_def io_bind_def io_run on_copy_sys_def Let_def peek_output_release [OF st(1)] BufferViewList_of_string_def)
    with inv' finish_maintains [OF fin N(1), of n f] show ?thesis by (simp add: io_when_run maintains_def)
  qed
qed


section \<open>The loop\<close>

fun copy_passes ::
  "'k kernel \<Rightarrow> nat \<Rightarrow> 'k copier Rule list \<times> 'k copier \<Rightarrow> unit result \<times> 'k copier Rule list \<times> 'k copier" where
  "copy_passes kc 0 st = (Inr (), st)"
| "copy_passes kc (Suc m) st =
     (case copy_wait kc st of
        (Inl e, st) \<Rightarrow> (Inl e, st)
      | (Inr res, st) \<Rightarrow> if res = Exit then (Inr (), st) else copy_passes kc m st)"

lemma copy_loop_passes: "copy_loop kc st = Some y \<Longrightarrow> \<exists>m. copy_passes kc m st = y"
proof (rule copy_loop.raw_induct [where P = "\<lambda>kc st y. \<exists>m. copy_passes kc m st = y"])
  fix loop kc st y
  assume IH: "\<And>kc st y. loop kc st = Some y \<Longrightarrow> \<exists>m. copy_passes kc m st = y"
    and body: "(case copy_wait kc st of (Inl e, st) \<Rightarrow> Some (Inl e, st)
      | (Inr res, st) \<Rightarrow> if res = Exit then Some (Inr (), st) else loop kc st) = Some y"
  obtain w st1 where w: "copy_wait kc st = (w, st1)" by (cases "copy_wait kc st")
  show "\<exists>m. copy_passes kc m st = y"
  proof (cases "\<exists>res. w = Inr res \<and> res \<noteq> Exit")
    case True
    with body w have "loop kc st1 = Some y" by auto
    from IH [OF this] obtain m where "copy_passes kc m st1 = y" ..
    with True w have "copy_passes kc (Suc m) st = y" by auto
    then show ?thesis ..
  next
    case False
    with body w have "copy_passes kc (Suc 0) st = y" by (auto split: sum.splits if_splits)
    then show ?thesis ..
  qed
qed

lemma copy_rules_steady:
  assumes "copy_kernel kc ins out" and "n \<noteq> 0" and "n \<noteq> 1"
  shows "list_all (steady (copy_inv ins out n (numbered n socket input output))) (copy_rules kc socket input output)"
proof -
  let ?I = "copy_inv ins out n (numbered n socket input output)"
  have kc: "read_conforms kc ins out" "writev_conforms kc ins out" using assms(1) by (simp_all add: copy_kernel_def kernel_ok_def)
  have quick: "maintains ?I (read_interest f)" "maintains ?I (write_interest f)" "maintains ?I (end_flow f)" for f
    using copy_inv_end by (auto simp: maintains_def read_interest_def write_interest_def end_flow_def io_run)
  have pumps: "maintains ?I (pump_in kc Outbound input)" "maintains ?I (pump_in kc Inbound socket)"
    "maintains ?I (pump_out kc Outbound socket (shutdown kc socket SHUT_WR))"
    "maintains ?I (pump_out kc Inbound output (fd_close kc output))"
    using pump_in_maintains [OF kc(1) assms(2) numbered_stable] pump_out_maintains [OF kc(2) assms(3) numbered_stable]
      silent_ops [OF assms(1)] by (simp_all add: numbered_def)
  show ?thesis by (simp add: copy_rules_def add_rule_def duplicate_def steady_def quick pumps)
qed

lemma copy_wait_maintains:
  assumes "copy_kernel kc ins out" and "copy_wait kc (rules, s) = (r, rules', s')"
    and "list_all (steady (copy_inv ins out n N)) rules" and "copy_inv ins out n N s" and "stable_numbers N"
  shows "copy_inv ins out n N s' \<and> list_all (steady (copy_inv ins out n N)) rules'"
proof -
  have poll: "copy_inv ins out n N (snd (copy_poll kc pollfds t s))" if "copy_inv ins out n N s" for pollfds t s
  proof -
    obtain v k where call: "k_poll kc pollfds t (sys_kernel (cp_sys s)) = (v, k)" by (cases "k_poll kc pollfds t (sys_kernel (cp_sys s))")
    have "quiet ins out (k_poll kc pollfds t)" using assms(1) by (simp add: copy_kernel_def kernel_ok_def)
    then have "ins k = ins (sys_kernel (cp_sys s))" "out k = out (sys_kernel (cp_sys s))"
      unfolding quiet_def by (metis call snd_conv)+
    moreover have "N ((cp_sys s)\<lparr>sys_kernel := k\<rparr>)"
      by (rule stable_numbersD [OF assms(5), of "cp_sys s"]) (use that in \<open>simp_all add: copy_inv_def\<close>)
    ultimately show ?thesis using copy_inv_quiet [OF that] by (simp add: copy_poll_def call)
  qed
  from assms(2) have "wait_next_event (\<lambda>s. sys_fds (cp_sys s)) (copy_poll kc) (-1) rules s = (r, rules', s')"
    by (simp add: copy_wait_def)
  from wait_next_event_maintains [OF this assms(3,4) poll] show ?thesis by blast
qed

lemma copy_passes_maintains:
  assumes "copy_kernel kc ins out" and "stable_numbers N"
    and "copy_passes kc m (rules, s) = (r, rules', s')"
    and "list_all (steady (copy_inv ins out n N)) rules" and "copy_inv ins out n N s"
  shows "copy_inv ins out n N s'"
  using assms(3-5)
proof (induction m arbitrary: rules s)
  case (Suc m)
  obtain w rules1 s1 where w: "copy_wait kc (rules, s) = (w, rules1, s1)" by (metis prod_cases3)
  note step = copy_wait_maintains [OF assms(1) w Suc.prems(2,3) assms(2)]
  show ?case
  proof (cases "\<exists>res. w = Inr res \<and> res \<noteq> Exit")
    case True
    with w Suc.prems(1) have "copy_passes kc m (rules1, s1) = (r, rules', s')" by auto
    from Suc.IH [OF this] step show ?thesis by blast
  next
    case False
    with w Suc.prems(1) step show ?thesis by (auto split: sum.splits if_splits)
  qed
qed simp

lemma copy_start_inv:
  assumes "copy_kernel kc ins out" and "socket < sys_next sys" and "fd_num socket sys = n"
    and "ins (sys_kernel sys) 0 = []" "ins (sys_kernel sys) n = []" "out (sys_kernel sys) n = []" "out (sys_kernel sys) 1 = []"
    and "copy_open sys = (Inr (input, output), sys1)" and "copy_unblock kc socket input output sys1 = (Inr (), sys2)"
  shows "copy_inv ins out n (numbered n socket input output) (copy_state sys2)"
proof -
  have opened: "input = sys_next sys" "output = sys_next sys + 1" "sys_kernel sys1 = sys_kernel sys"
    "numbered n socket input output sys1"
    using assms(2,3,8) by (auto simp: copy_open_def FileDescriptor_new_def FDWrapper_new_def io_bind_def io_run numbered_def fd_num_def)
  have "silent ins out (copy_unblock kc socket input output)"
    unfolding copy_unblock_def by (rule silent_bind silent_ops [OF assms(1)])+
  note quiet = silentD [OF this assms(9)]
  have "numbered n socket input output sys2" by (rule stable_numbersD [OF numbered_stable opened(4) quiet(1)])
  moreover have "flow_ok ins out n (copy_state sys2) f" for f
  proof -
    have "flow_stream f (copy_state sys2) = ByteStream_new copy_buffer_size" by (cases f) (simp_all add: copy_state_def)
    moreover have "cp_sys (copy_state sys2) = sys2" by (simp add: copy_state_def)
    moreover have "ins (sys_kernel sys2) (src_num n f) = []" "out (sys_kernel sys2) (dst_num n f) = []"
      using quiet opened(3) assms(4-7) by (cases f; simp)+
    moreover have "bs_contents (ByteStream_new copy_buffer_size) = []" "bs_capacity (ByteStream_new copy_buffer_size) = copy_buffer_size"
      by (simp_all add: ByteStream_new_def)
    ultimately show ?thesis by (simp add: flow_ok_def copy_buffer_size_def SIZE_MOD_def)
  qed
  ultimately show ?thesis by (simp add: copy_inv_def copy_state_def)
qed


lemma copy_cleanup_silent:
  assumes "copy_kernel kc ins out"
  shows "ins (sys_kernel (copy_cleanup kc input output rules sys)) = ins (sys_kernel sys)"
    "out (sys_kernel (copy_cleanup kc input output rules sys)) = out (sys_kernel sys)"
proof -
  have one: "ins (sys_kernel (FDWrapper_destroy kc d sys)) = ins (sys_kernel sys) \<and>
      out (sys_kernel (FDWrapper_destroy kc d sys)) = out (sys_kernel sys)" for d sys
    using silent_ops(2) [OF assms, of d] by (simp add: FDWrapper_destroy_def silent_def)
  have "ins (sys_kernel (fold (FDWrapper_destroy kc) ds sys)) = ins (sys_kernel sys) \<and>
      out (sys_kernel (fold (FDWrapper_destroy kc) ds sys)) = out (sys_kernel sys)" for ds
    by (induction ds arbitrary: sys) (simp_all add: one)
  then show "ins (sys_kernel (copy_cleanup kc input output rules sys)) = ins (sys_kernel sys)"
    "out (sys_kernel (copy_cleanup kc input output rules sys)) = out (sys_kernel sys)"
    unfolding copy_cleanup_def Let_def by blast+
qed

lemma copy_inv_conserved:
  assumes "copy_inv ins out n N s"
  shows "ins (sys_kernel (cp_sys s)) 0 = out (sys_kernel (cp_sys s)) n @ bs_contents (cp_outbound s)"
    "ins (sys_kernel (cp_sys s)) n = out (sys_kernel (cp_sys s)) 1 @ bs_contents (cp_inbound s)"
    "length (bs_contents (cp_outbound s)) \<le> copy_buffer_size" "length (bs_contents (cp_inbound s)) \<le> copy_buffer_size"
proof -
  have "flow_ok ins out n s Outbound" "flow_ok ins out n s Inbound" using assms by (simp_all add: copy_inv_def)
  then show "ins (sys_kernel (cp_sys s)) 0 = out (sys_kernel (cp_sys s)) n @ bs_contents (cp_outbound s)"
    "ins (sys_kernel (cp_sys s)) n = out (sys_kernel (cp_sys s)) 1 @ bs_contents (cp_inbound s)"
    "length (bs_contents (cp_outbound s)) \<le> copy_buffer_size" "length (bs_contents (cp_inbound s)) \<le> copy_buffer_size"
    using ByteStream_invD(3) [of "cp_outbound s"] ByteStream_invD(3) [of "cp_inbound s"] by (simp_all add: flow_ok_def)
qed

section \<open>Properties\<close>

text \<open>
  C10. The copy loses, duplicates and reorders nothing, in either direction: at every point of the run,
  also after a call that throws, the bytes read from standard input are the bytes written to the socket
  followed by those the outbound stream holds, and the bytes read from the socket are those written to
  standard output followed by those the inbound stream holds; neither stream ever holds more than a
  megabyte. When the function returns, what it wrote is a prefix of what it read.
\<close>

theorem stream_copy_conserves:
  assumes "copy_kernel kc ins out" and "socket < sys_next sys" and "fd_num socket sys = n" and "n \<noteq> 0" and "n \<noteq> 1"
    and "ins (sys_kernel sys) 0 = []" and "ins (sys_kernel sys) n = []"
    and "out (sys_kernel sys) n = []" and "out (sys_kernel sys) 1 = []"
    and "copy_open sys = (Inr (input, output), sys1)" and "copy_unblock kc socket input output sys1 = (Inr (), sys2)"
    and "copy_passes kc m (copy_rules kc socket input output, copy_state sys2) = (r, rules, s)"
  shows "ins (sys_kernel (cp_sys s)) 0 = out (sys_kernel (cp_sys s)) n @ bs_contents (cp_outbound s) \<and>
    ins (sys_kernel (cp_sys s)) n = out (sys_kernel (cp_sys s)) 1 @ bs_contents (cp_inbound s) \<and>
    length (bs_contents (cp_outbound s)) \<le> copy_buffer_size \<and> length (bs_contents (cp_inbound s)) \<le> copy_buffer_size \<and>
    (\<forall>r' sys'. bidirectional_stream_copy kc socket sys = Some (r', sys') \<longrightarrow>
       prefix (out (sys_kernel sys') n) (ins (sys_kernel sys') 0) \<and>
       prefix (out (sys_kernel sys') 1) (ins (sys_kernel sys') n))"
proof -
  have inv: "copy_inv ins out n (numbered n socket input output) s"
    if "copy_passes kc m (copy_rules kc socket input output, copy_state sys2) = (r, rules, s)" for m r rules s
    by (rule copy_passes_maintains [OF assms(1) numbered_stable that copy_rules_steady [OF assms(1,4,5)]
          copy_start_inv [OF assms(1-3,6-11)]])
  have "prefix (out (sys_kernel sys') n) (ins (sys_kernel sys') 0) \<and> prefix (out (sys_kernel sys') 1) (ins (sys_kernel sys') n)"
    if "bidirectional_stream_copy kc socket sys = Some (r', sys')" for r' sys'
  proof -
    from that obtain rules s where loop: "copy_loop kc (copy_rules kc socket input output, copy_state sys2) = Some (r', rules, s)"
      and sys': "sys' = copy_cleanup kc input output rules (cp_sys s)"
      using assms(10,11) by (auto simp: bidirectional_stream_copy_def split: option.splits)
    from copy_loop_passes [OF loop] obtain m where
      "copy_passes kc m (copy_rules kc socket input output, copy_state sys2) = (r', rules, s)" ..
    from copy_inv_conserved(1,2) [OF inv [OF this]] show ?thesis by (simp add: sys' copy_cleanup_silent [OF assms(1)])
  qed
  with copy_inv_conserved [OF inv [OF assms(12)]] show ?thesis by blast
qed

text \<open>A run over the toy kernel: two bytes a call, \<open>[1, 2, 3]\<close> waiting on every descriptor.\<close>

definition copy_example :: "toy system" where
  "copy_example =
     \<lparr>sys_fds = (\<lambda>_. \<lparr>fw_fd = 5, fw_eof = False, fw_closed = False, fw_read_count = 0, fw_write_count = 0\<rparr>),
      sys_next = 1, sys_program_start = None,
      sys_kernel = \<lparr>toy_queue = \<lambda>_. [1, 2, 3], toy_in = \<lambda>_. [], toy_out = \<lambda>_. []\<rparr>\<rparr>"

lemma toy_copy_kernel: "copy_kernel toy_kernel toy_in toy_out"
  using toy_kernel_conforms by (simp add: copy_kernel_def kernel_ok_def quiet_def toy_kernel_def done_call_def)

theorem stream_copy_conserves_witness:
  "\<exists>input output sys1 sys2 r rules s. copy_open copy_example = (Inr (input, output), sys1) \<and>
     copy_unblock toy_kernel 0 input output sys1 = (Inr (), sys2) \<and>
     copy_passes toy_kernel 3 (copy_rules toy_kernel 0 input output, copy_state sys2) = (r, rules, s) \<and>
     toy_in (sys_kernel (cp_sys s)) 0 = toy_out (sys_kernel (cp_sys s)) 5 @ bs_contents (cp_outbound s)"
proof -
  obtain din dout sys1 where opened: "copy_open copy_example = (Inr (din, dout), sys1)"
    by (simp add: copy_open_def FileDescriptor_new_def FDWrapper_new_def io_bind_def io_run)
  obtain sys2 where unblocked: "copy_unblock toy_kernel 0 din dout sys1 = (Inr (), sys2)"
    by (simp add: copy_unblock_def set_blocking_def fd_call_def system_call_def SystemCall_def toy_kernel_def done_call_def
        io_bind_def io_run Let_def)
  obtain r rules s where passes: "copy_passes toy_kernel 3 (copy_rules toy_kernel 0 din dout, copy_state sys2) = (r, rules, s)"
    by (metis prod_cases3)
  have "fd_num 0 copy_example = 5" "0 < sys_next copy_example" by (simp_all add: copy_example_def fd_num_def)
  from stream_copy_conserves [OF toy_copy_kernel this(2,1) _ _ _ _ _ _ opened unblocked passes] opened unblocked passes
  show ?thesis by (auto simp: copy_example_def)
qed

end
