(* ===== verification/Command_Line.thy ===== *)
theory Command_Line
  imports Stream_Copy Adapters TCP_Sender
begin

text \<open>
  The command lines of the programs over the stack (apps/tcp\_ipv4.cc, apps/tcp\_udp.cc,
  apps/tcp\_ip\_ethernet.cc) and the whole of the one over the kernel's TCP (apps/tcp\_native.cc). The
  arguments are those after the name of the program. An early end of the program is its exit status.
  The conversion of a loss rate from text by \<open>strtof\<close> and a product of floats is the parameter \<open>loss\<close>, the
  random source port an argument. The usage text is left out.
\<close>

section \<open>strtol\<close>

definition is_space :: "char \<Rightarrow> bool" where
  "is_space c \<longleftrightarrow> c \<in> {CHR '' '', CHR 0x09, CHR 0x0A, CHR 0x0B, CHR 0x0C, CHR 0x0D}"

definition digit_of :: "char \<Rightarrow> nat" where
  "digit_of c =
     (let n = of_char c in
      if 48 \<le> n \<and> n \<le> 57 then n - 48 else if 97 \<le> n \<and> n \<le> 122 then n - 87 else if 65 \<le> n \<and> n \<le> 90 then n - 55 else 36)"

definition based_value :: "nat \<Rightarrow> string \<Rightarrow> nat" where
  "based_value b s = foldl (\<lambda>n c. b * n + digit_of c) 0 (takeWhile (\<lambda>c. digit_of c < b) s)"

text \<open>Base 0: hexadecimal after 0x and a digit, octal after 0, decimal otherwise.\<close>

definition magnitude :: "string \<Rightarrow> nat" where
  "magnitude s =
     (case s of
        c # x # d # _ \<Rightarrow>
          if c = CHR ''0'' \<and> x \<in> {CHR ''x'', CHR ''X''} \<and> digit_of d < 16 then based_value 16 (drop 2 s)
          else if c = CHR ''0'' then based_value 8 s
          else based_value 10 s
      | _ \<Rightarrow> if take 1 s = ''0'' then based_value 8 s else based_value 10 s)"

definition strtol :: "string \<Rightarrow> int" where
  "strtol str =
     (let s = dropWhile is_space str;
          negative = (take 1 s = ''-'');
          s = (if take 1 s \<in> {''-'', ''+''} then drop 1 s else s);
          n = (if negative then - int (magnitude s) else int (magnitude s))
      in max (- (2 ^ 63)) (min (2 ^ 63 - 1) n))"

section \<open>Options\<close>

record options =
  op_fsm :: TCPConfig
  op_filt :: FdAdapterConfig
  op_listen :: bool
  op_device :: "string option"
  op_source_address :: string
  op_source_port :: string
  op_next_hop :: string

datatype option_kind = Flag "options \<Rightarrow> options" | Valued "string \<Rightarrow> options \<Rightarrow> options" | Help | Unknown

text \<open>
  The loop over the arguments runs while more than the two positional ones are left; \<open>check_argc\<close> asks
  for a value and the two positional arguments behind an option.
\<close>

fun options_loop :: "(string \<Rightarrow> option_kind) \<Rightarrow> string list \<Rightarrow> options \<Rightarrow> nat + options \<times> string list" where
  "options_loop kind (arg # x # y # args) opts =
     (case kind arg of
        Flag f \<Rightarrow> options_loop kind (x # y # args) (f opts)
      | Valued f \<Rightarrow> if args = [] then Inl 1 else options_loop kind (y # args) (f x opts)
      | Help \<Rightarrow> Inl 0
      | Unknown \<Rightarrow> Inl 1)"
| "options_loop kind args opts = Inr (opts, args)"

definition set_window :: "string \<Rightarrow> options \<Rightarrow> options" where
  "set_window v opts = opts\<lparr>op_fsm := (op_fsm opts)\<lparr>cfg_recv_capacity := to_size (strtol v)\<rparr>\<rparr>"

definition set_rt_timeout :: "string \<Rightarrow> options \<Rightarrow> options" where
  "set_rt_timeout v opts = opts\<lparr>op_fsm := (op_fsm opts)\<lparr>cfg_rt_timeout := word_of_int (strtol v)\<rparr>\<rparr>"

definition set_loss_up :: "(string \<Rightarrow> 16 word) \<Rightarrow> string \<Rightarrow> options \<Rightarrow> options" where
  "set_loss_up loss v opts = opts\<lparr>op_filt := (op_filt opts)\<lparr>fc_loss_rate_up := loss v\<rparr>\<rparr>"

definition set_loss_dn :: "(string \<Rightarrow> 16 word) \<Rightarrow> string \<Rightarrow> options \<Rightarrow> options" where
  "set_loss_dn loss v opts = opts\<lparr>op_filt := (op_filt opts)\<lparr>fc_loss_rate_dn := loss v\<rparr>\<rparr>"

text \<open>
  \<open>strncmp\<close> with the length 3 compares an option of two characters with its final null character, but of
  \<open>-Lu\<close> and \<open>-Ld\<close> only the characters: any argument that starts with one of them is taken for it.
\<close>

definition ipv4_option :: "(string \<Rightarrow> 16 word) \<Rightarrow> string \<Rightarrow> option_kind" where
  "ipv4_option loss arg =
     (if arg = ''-l'' then Flag (\<lambda>opts. opts\<lparr>op_listen := True\<rparr>)
      else if arg = ''-a'' then Valued (\<lambda>v opts. opts\<lparr>op_source_address := v\<rparr>)
      else if arg = ''-s'' then Valued (\<lambda>v opts. opts\<lparr>op_source_port := v\<rparr>)
      else if arg = ''-w'' then Valued set_window
      else if arg = ''-t'' then Valued set_rt_timeout
      else if arg = ''-d'' then Valued (\<lambda>v opts. opts\<lparr>op_device := Some v\<rparr>)
      else if take 3 arg = ''-Lu'' then Valued (set_loss_up loss)
      else if take 3 arg = ''-Ld'' then Valued (set_loss_dn loss)
      else if arg = ''-h'' then Help
      else Unknown)"

definition udp_option :: "(string \<Rightarrow> 16 word) \<Rightarrow> string \<Rightarrow> option_kind" where
  "udp_option loss arg =
     (if arg = ''-l'' then Flag (\<lambda>opts. opts\<lparr>op_listen := True\<rparr>)
      else if arg = ''-w'' then Valued set_window
      else if arg = ''-t'' then Valued set_rt_timeout
      else if take 3 arg = ''-Lu'' then Valued (set_loss_up loss)
      else if take 3 arg = ''-Ld'' then Valued (set_loss_dn loss)
      else if arg = ''-h'' then Help
      else Unknown)"

definition ethernet_option :: "string \<Rightarrow> option_kind" where
  "ethernet_option arg =
     (if arg = ''-a'' then Valued (\<lambda>v opts. opts\<lparr>op_source_address := v\<rparr>)
      else if arg = ''-s'' then Valued (\<lambda>v opts. opts\<lparr>op_source_port := v\<rparr>)
      else if arg = ''-n'' then Valued (\<lambda>v opts. opts\<lparr>op_next_hop := v\<rparr>)
      else if arg = ''-w'' then Valued set_window
      else if arg = ''-t'' then Valued set_rt_timeout
      else if arg = ''-d'' then Valued (\<lambda>v opts. opts\<lparr>op_device := Some v\<rparr>)
      else if arg = ''-h'' then Help
      else Unknown)"

section \<open>get\_config\<close>

definition initial_options :: "resolver \<Rightarrow> string \<Rightarrow> 16 word \<Rightarrow> string \<Rightarrow> options result" where
  "initial_options rs source_address random_port next_hop =
     result_bind (FdAdapterConfig_new rs) (\<lambda>c_filt.
     Inr \<lparr>op_fsm = TCPConfig_default, op_filt = c_filt, op_listen = False, op_device = None,
          op_source_address = source_address, op_source_port = dec_string (unat random_port), op_next_hop = next_hop\<rparr>)"

text \<open>The positional arguments: the loop leaves at most two of them.\<close>

definition positional :: "string list \<Rightarrow> (string \<times> string) result" where
  "positional args = (case args of [host, port] \<Rightarrow> Inr (host, port) | _ \<Rightarrow> Inl OutOfBounds)"

definition get_config_ipv4 ::
  "resolver \<Rightarrow> (string \<Rightarrow> 16 word) \<Rightarrow> 16 word \<Rightarrow> string list \<Rightarrow> (nat + TCPConfig \<times> FdAdapterConfig \<times> bool \<times> string option) result" where
  "get_config_ipv4 rs loss random_port args =
     result_bind (initial_options rs ''169.254.144.9'' random_port '''') (\<lambda>opts.
     case options_loop (ipv4_option loss) args opts of
       Inl status \<Rightarrow> Inr (Inl status)
     | Inr (opts, args) \<Rightarrow>
         result_bind (positional args) (\<lambda>(host, port).
         if op_listen opts then
           result_bind (Address_of_hostname rs ''0'' port) (\<lambda>source.
           result_bind (Address_port rs source) (\<lambda>p.
           if p = 0 then Inr (Inl 1)
           else Inr (Inr (op_fsm opts, (op_filt opts)\<lparr>fc_source := source\<rparr>, True, op_device opts))))
         else
           result_bind (Address_of_hostname rs host port) (\<lambda>destination.
           result_bind (Address_of_hostname rs (op_source_address opts) (op_source_port opts)) (\<lambda>source.
           Inr (Inr (op_fsm opts, (op_filt opts)\<lparr>fc_destination := destination, fc_source := source\<rparr>, False, op_device opts))))))"

definition get_config_udp ::
  "resolver \<Rightarrow> (string \<Rightarrow> 16 word) \<Rightarrow> string list \<Rightarrow> (nat + TCPConfig \<times> FdAdapterConfig \<times> bool) result" where
  "get_config_udp rs loss args =
     result_bind (initial_options rs '''' 0 '''') (\<lambda>opts.
     case options_loop (udp_option loss) args opts of
       Inl status \<Rightarrow> Inr (Inl status)
     | Inr (opts, args) \<Rightarrow>
         result_bind (positional args) (\<lambda>(host, port).
         if op_listen opts then
           result_bind (Address_of_hostname rs ''0'' port) (\<lambda>source.
           Inr (Inr (op_fsm opts, (op_filt opts)\<lparr>fc_source := source\<rparr>, True)))
         else
           result_bind (Address_of_hostname rs host port) (\<lambda>destination.
           Inr (Inr (op_fsm opts, (op_filt opts)\<lparr>fc_destination := destination\<rparr>, False)))))"

definition get_config_ethernet ::
  "resolver \<Rightarrow> 16 word \<Rightarrow> string list \<Rightarrow> (nat + TCPConfig \<times> FdAdapterConfig \<times> Address \<times> string) result" where
  "get_config_ethernet rs random_port args =
     result_bind (initial_options rs ''169.254.10.9'' random_port ''169.254.10.1'') (\<lambda>opts.
     case options_loop ethernet_option args opts of
       Inl status \<Rightarrow> Inr (Inl status)
     | Inr (opts, args) \<Rightarrow>
         result_bind (positional args) (\<lambda>(host, port).
         result_bind (Address_of_hostname rs host port) (\<lambda>destination.
         result_bind (Address_of_hostname rs (op_source_address opts) (op_source_port opts)) (\<lambda>source.
         result_bind (Address_of_hostname rs (op_next_hop opts) ''0'') (\<lambda>next_hop.
         Inr (Inr (op_fsm opts, (op_filt opts)\<lparr>fc_destination := destination, fc_source := source\<rparr>, next_hop,
                   case op_device opts of None \<Rightarrow> ''tap10'' | Some tapdev \<Rightarrow> tapdev)))))))"


section \<open>The program over the kernel's TCP\<close>

text \<open>The socket of the listening side goes out of scope when its only connection is accepted.\<close>

definition io_finally :: "('s, 'a) io \<Rightarrow> ('s \<Rightarrow> 's) \<Rightarrow> ('s, 'a) io" where
  "io_finally m clean s = (case m s of (r, s) \<Rightarrow> (r, clean s))"

definition native_server :: "'k kernel \<Rightarrow> resolver \<Rightarrow> string \<Rightarrow> string \<Rightarrow> ('k system, FileDescriptor) io" where
  "native_server kc rs host port =
     io_bind (TCPSocket_new kc) (\<lambda>listening_socket.
     io_finally
       (io_bind (set_reuseaddr kc listening_socket) (\<lambda>_.
        io_bind (io_lift (Address_of_hostname rs host port)) (\<lambda>a.
        io_bind (socket_bind kc listening_socket a) (\<lambda>_.
        io_bind (tcp_listen kc listening_socket 16) (\<lambda>_.
        tcp_accept kc listening_socket)))))
       (FDWrapper_destroy kc listening_socket))"

definition native_client :: "'k kernel \<Rightarrow> resolver \<Rightarrow> string \<Rightarrow> string \<Rightarrow> ('k system, FileDescriptor) io" where
  "native_client kc rs host port =
     io_bind (TCPSocket_new kc) (\<lambda>connecting_socket.
     io_cleanup
       (io_bind (io_lift (Address_of_hostname rs host port)) (\<lambda>a.
        io_bind (socket_connect kc connecting_socket a) (\<lambda>_.
        io_return connecting_socket)))
       (FDWrapper_destroy kc connecting_socket))"

definition native_socket :: "'k kernel \<Rightarrow> resolver \<Rightarrow> string list \<Rightarrow> ('k system, FileDescriptor) io" where
  "native_socket kc rs args =
     (case args of
        a # b # rest \<Rightarrow>
          if a = ''-l'' then (case rest of [] \<Rightarrow> io_throw OutOfBounds | c # _ \<Rightarrow> native_server kc rs b c)
          else native_client kc rs a b
      | _ \<Rightarrow> io_throw OutOfBounds)"

text \<open>\<open>main\<close>: its exit status, \<open>None\<close> when it does not end.\<close>

definition native_main :: "'k kernel \<Rightarrow> resolver \<Rightarrow> string list \<Rightarrow> 'k system \<Rightarrow> (nat \<times> 'k system) option" where
  "native_main kc rs args sys =
     (if length args < 2 \<or> hd args = ''-l'' \<and> length args < 3 then Some (1, sys)
      else case native_socket kc rs args sys of
        (Inl e, sys) \<Rightarrow> Some (1, sys)
      | (Inr socket, sys) \<Rightarrow>
          (case bidirectional_stream_copy kc socket sys of
             None \<Rightarrow> None
           | Some (r, sys) \<Rightarrow>
               let sys = FDWrapper_destroy kc socket sys in
               Some (case r of Inl e \<Rightarrow> 1 | Inr _ \<Rightarrow> 0, sys)))"

section \<open>Properties\<close>

datatype item = Single string | Pair string string

fun item_args :: "item \<Rightarrow> string list" where
  "item_args (Single arg) = [arg]"
| "item_args (Pair arg v) = [arg, v]"

fun recognized :: "(string \<Rightarrow> option_kind) \<Rightarrow> item \<Rightarrow> bool" where
  "recognized kind (Single arg) \<longleftrightarrow> (case kind arg of Flag f \<Rightarrow> True | _ \<Rightarrow> False)"
| "recognized kind (Pair arg v) \<longleftrightarrow> (case kind arg of Valued f \<Rightarrow> True | _ \<Rightarrow> False)"

fun apply_item :: "(string \<Rightarrow> option_kind) \<Rightarrow> item \<Rightarrow> options \<Rightarrow> options" where
  "apply_item kind (Single arg) opts = (case kind arg of Flag f \<Rightarrow> f opts | _ \<Rightarrow> opts)"
| "apply_item kind (Pair arg v) opts = (case kind arg of Valued f \<Rightarrow> f v opts | _ \<Rightarrow> opts)"

lemma options_loop_item:
  assumes "recognized kind item" and "2 \<le> length args"
  shows "options_loop kind (item_args item @ args) opts = options_loop kind args (apply_item kind item opts)"
proof -
  from assms(2) obtain x y rest where "args = x # y # rest" by (cases args; cases "tl args") auto
  with assms(1) show ?thesis by (cases item) (auto split: option_kind.splits)
qed

lemma options_loop_items:
  assumes "list_all (recognized kind) items" and "2 \<le> length args"
  shows "options_loop kind (concat (map item_args items) @ args) opts = options_loop kind args (fold (apply_item kind) items opts)"
  using assms(1)
proof (induction items arbitrary: opts)
  case (Cons item items)
  have "2 \<le> length (concat (map item_args items) @ args)" using assms(2) by simp
  with Cons options_loop_item [of kind item "concat (map item_args items) @ args"] show ?case by simp
qed simp

lemma options_loop_rest:
  "options_loop kind args opts = Inr (opts', rest) \<Longrightarrow> 2 \<le> length args \<Longrightarrow> length rest = 2"
  by (induction kind args opts rule: options_loop.induct) (auto simp: Suc_le_eq split: option_kind.splits if_splits)

text \<open>
  The command line is read as announced, whatever the table of options of the program: options in
  any number and order, each with its value where it takes one, are applied from left to right, so that
  the last one wins, and the two positional arguments remain; an unknown option in front of them ends
  the program with status 1. In every case that does not end the program exactly two arguments remain,
  so that reading the positional ones stays inside the array.
\<close>

lemma command_line_parsed:
  assumes "list_all (recognized kind) items"
  shows "options_loop kind (concat (map item_args items) @ [host, port]) opts =
      Inr (fold (apply_item kind) items opts, [host, port]) \<and>
    (kind arg = Unknown \<longrightarrow> options_loop kind (concat (map item_args items) @ arg # x # y # rest) opts = Inl 1) \<and>
    (\<forall>opts' rest'. options_loop kind (x # y # rest) opts = Inr (opts', rest') \<longrightarrow> length rest' = 2)"
proof (intro conjI allI impI)
  show "options_loop kind (concat (map item_args items) @ [host, port]) opts = Inr (fold (apply_item kind) items opts, [host, port])"
    using options_loop_items [OF assms, of "[host, port]" opts] by simp
  show "options_loop kind (concat (map item_args items) @ arg # x # y # rest) opts = Inl 1" if "kind arg = Unknown"
    using options_loop_items [OF assms, of "arg # x # y # rest" opts] that by simp
  show "length rest' = 2" if "options_loop kind (x # y # rest) opts = Inr (opts', rest')" for opts' rest'
    using options_loop_rest [OF that] by simp
qed

lemma command_line_parsed_witness:
  "\<forall>opts. options_loop ethernet_option [''-t'', ''500'', ''-n'', ''10.0.0.1'', ''-t'', ''700'', ''host'', ''80''] opts =
     Inr (set_rt_timeout ''700'' ((set_rt_timeout ''500'' opts)\<lparr>op_next_hop := ''10.0.0.1''\<rparr>), [''host'', ''80''])"
proof
  fix opts
  let ?items = "[Pair ''-t'' ''500'', Pair ''-n'' ''10.0.0.1'', Pair ''-t'' ''700'']"
  have "list_all (recognized ethernet_option) ?items" by (simp add: ethernet_option_def)
  from command_line_parsed [OF this, of "''host''" "''80''" opts "[]" "[]" "[]" "[]"]
  show "options_loop ethernet_option [''-t'', ''500'', ''-n'', ''10.0.0.1'', ''-t'', ''700'', ''host'', ''80''] opts =
     Inr (set_rt_timeout ''700'' ((set_rt_timeout ''500'' opts)\<lparr>op_next_hop := ''10.0.0.1''\<rparr>), [''host'', ''80''])"
    by (simp add: ethernet_option_def)
qed

end
