(* ===== verification/Webget.thy ===== *)
theory Webget
  imports Sponge_Properties
begin




type_synonym ('a, 'k) client = "thread \<times> ('a, 'k) sponge"










section \<open>The stepped thread\<close>

text \<open>When \<open>tcp_main\<close> returns, its steps have led to the same state.\<close>

lemma thread_step_rest [simp]: "thread_step env (Done, sp) = (Done, sp)" "thread_step env (Died e, sp) = (Died e, sp)"
  by (simp_all add: thread_step_def)

definition thread_end :: "('a, 'k) env \<Rightarrow> unit result \<times> ('a, 'k) sponge \<Rightarrow> ('a, 'k) client" where
  "thread_end env y =
     (case y of
        (Inl e, sp) \<Rightarrow> (Died e, sp)
      | (Inr _, sp) \<Rightarrow> (case tcp_finish env sp of (Inl e, sp) \<Rightarrow> (Died e, sp) | (Inr _, sp) \<Rightarrow> (Done, sp)))"

definition loop_steps :: "('a, 'k) env \<Rightarrow> nat \<Rightarrow> ('a, 'k) sponge \<Rightarrow> unit result \<times> ('a, 'k) sponge \<Rightarrow> bool" where
  "loop_steps env t sp y \<longleftrightarrow> (\<exists>n. (thread_step env ^^ n) (Looping t, sp) = thread_end env y)"

lemma steps_Suc: "thread_step env st = st1 \<Longrightarrow> (thread_step env ^^ n) st1 = st2 \<Longrightarrow> (thread_step env ^^ Suc n) st = st2"
  by (simp add: funpow_swap1)

lemma tcp_loop_steps: "tcp_loop env condition t sp = Some y \<Longrightarrow> condition = io_return True \<longrightarrow> loop_steps env t sp y"
proof (rule tcp_loop.raw_induct [where P = "\<lambda>env condition t sp y. condition = io_return True \<longrightarrow> loop_steps env t sp y"])
  fix loop env condition t sp y
  assume IH: "\<And>env condition t sp y. loop env condition t sp = Some y \<Longrightarrow> condition = io_return True \<longrightarrow> loop_steps env t sp y"
    and body: "(case on_socket condition sp of
        (Inl e, sp) \<Rightarrow> Some (Inl e, sp)
      | (Inr go, sp) \<Rightarrow>
          if \<not> go then Some (Inr (), sp)
          else case loop_body env t sp of
            (Inl e, sp) \<Rightarrow> Some (Inl e, sp)
          | (Inr None, sp) \<Rightarrow> Some (Inr (), sp)
          | (Inr (Some next_time), sp) \<Rightarrow> loop env condition next_time sp) = Some y"
  show "condition = io_return True \<longrightarrow> loop_steps env t sp y"
  proof
    assume c: "condition = io_return True"
    obtain r sp1 where b: "loop_body env t sp = (r, sp1)" by (cases "loop_body env t sp")
    have cond: "on_socket condition sp = (Inr True, sp)" by (simp add: c on_socket_def io_run split: prod.splits)
    show "loop_steps env t sp y"
    proof (cases "\<exists>t'. r = Inr (Some t')")
      case True
      then obtain t' where t': "r = Inr (Some t')" ..
      with body b cond c IH have "loop_steps env t' sp1 y" by simp
      then obtain n where "(thread_step env ^^ n) (Looping t', sp1) = thread_end env y" by (auto simp: loop_steps_def)
      moreover have "thread_step env (Looping t, sp) = (Looping t', sp1)" using b t' by (simp add: thread_step_def)
      ultimately show ?thesis unfolding loop_steps_def using steps_Suc by blast
    next
      case False
      then have "thread_step env (Looping t, sp) = thread_end env y"
        using body b cond by (auto simp: thread_step_def thread_end_def split: sum.splits option.splits)
      then show ?thesis unfolding loop_steps_def by (intro exI [of _ 1]) simp
    qed
  qed
qed

lemma tcp_main_steps:
  assumes "tcp_main env sp = Some (r, sp')"
  shows "\<exists>n. (thread_step env ^^ n) (Starting, sp) = (case r of Inl e \<Rightarrow> Died e | Inr _ \<Rightarrow> Done, sp')"
proof (cases "ss_tcp (snd sp) = None")
  case True
  with assms show ?thesis by (intro exI [of _ 1]) (auto simp: tcp_main_def thread_step_def split: prod.splits)
next
  case False
  obtain c sp1 where c: "on_socket (on_sys (timestamp_ms (en_kernel env))) sp = (c, sp1)"
    by (cases "on_socket (on_sys (timestamp_ms (en_kernel env))) sp")
  show ?thesis
  proof (cases c)
    case (Inl e)
    with assms False c show ?thesis
      by (intro exI [of _ 1]) (auto simp: tcp_main_def run_tcp_loop_def thread_step_def split: prod.splits)
  next
    case (Inr t)
    with assms False c obtain y where y: "tcp_loop env (io_return True) t sp1 = Some y"
      by (auto simp: tcp_main_def run_tcp_loop_def bind_eq_Some_conv)
    have "thread_end env y = (case r of Inl e \<Rightarrow> Died e | Inr _ \<Rightarrow> Done, sp')"
      using assms False c Inr y
      by (auto simp: tcp_main_def run_tcp_loop_def thread_end_def split: prod.splits sum.splits)
    moreover obtain n where "(thread_step env ^^ n) (Looping t, sp1) = thread_end env y"
      using tcp_loop_steps [OF y] by (auto simp: loop_steps_def)
    moreover have "thread_step env (Starting, sp) = (Looping t, sp1)" using False c Inr by (simp add: thread_step_def)
    ultimately show ?thesis using steps_Suc by metis
  qed
qed


section \<open>The end-of-file flag\<close>



lemma fd_eof_register [simp]:
  "fd_eof d' (register_write d sys) = fd_eof d' sys" "fd_eof d' (register_read d sys) = fd_eof d' sys"
  "fd_eof d' (sys\<lparr>sys_kernel := k\<rparr>) = fd_eof d' sys" "fd_eof d' (sys\<lparr>sys_program_start := t\<rparr>) = fd_eof d' sys"
  by (simp_all add: fd_eof_def register_write_def register_read_def fd_update_def)








text \<open>The operations of the adapter over Ethernet.\<close>

definition tap_unread :: "FileDescriptor \<Rightarrow> 'k tap_state \<Rightarrow> bool" where
  "tap_unread d0 = (\<lambda>(da, sys). fst da \<noteq> d0 \<and> \<not> fd_eof d0 sys)"

lemma tap_maintains [maintains_rules]:
  "maintains (tap_unread d0) (on_interface f)" "maintains (tap_unread d0) (tap_unwrap rs dgram)"
  by (auto simp: maintains_def tap_unread_def on_interface_def tap_unwrap_def split: prod.splits sum.splits)









































section \<open>Properties\<close>







end
