(* ===== verification/Udp_Tcpdump.thy ===== *)
theory Udp_Tcpdump
  imports Printing
begin

text \<open>
  The packet monitor (apps/udp\_tcpdump.cc): from a captured packet to the TCP segment inside its UDP
  payload and the line printed for it. A packet is the list of its captured bytes; reading outside of
  it is the error \<open>OutOfBounds\<close>. Capturing (libpcap) only provides the packets, and the text
  \<open>inet_ntop\<close> makes of the 16 bytes of an IPv6 address is the parameter \<open>ntop6\<close>. Of the output, cout is
  modelled and cerr is not.
\<close>

unbundle bit_operations_syntax

section \<open>Command line\<close>

text \<open>The exit status, or the device and the arguments from the filter expression on.\<close>

fun parse_arguments :: "string option \<Rightarrow> string list \<Rightarrow> nat + string option \<times> string list" where
  "parse_arguments dev [] = Inr (dev, [])"
| "parse_arguments dev (arg # args) =
     (if arg = ''-i'' then (case args of [] \<Rightarrow> Inl 1 | d # args' \<Rightarrow> parse_arguments (Some d) args')
      else if arg = ''-h'' \<or> arg = ''--help'' then Inl 0
      else Inr (dev, arg # args))"

definition filter_expression :: "string list \<Rightarrow> string" where
  "filter_expression args = concat (map (\<lambda>arg. arg @ '' '') args)"

section \<open>Packets\<close>

definition byte_at :: "bytes \<Rightarrow> nat \<Rightarrow> byte result" where
  "byte_at data i = (if i < length data then Inr (data ! i) else Inl OutOfBounds)"

definition inet4_addr :: "bytes \<Rightarrow> nat \<Rightarrow> string result" where
  "inet4_addr data i = (if i + 4 \<le> length data then Inr (inet_ntoa (be_word (take 4 (drop i data)))) else Inl OutOfBounds)"

definition inet6_addr :: "(bytes \<Rightarrow> string) \<Rightarrow> bytes \<Rightarrow> nat \<Rightarrow> string result" where
  "inet6_addr ntop6 data i = (if i + 16 \<le> length data then Inr (ntop6 (take 16 (drop i data))) else Inl OutOfBounds)"

text \<open>The loop over the IPv6 extension headers: the offset of the UDP header, \<open>None\<close> when there is none.\<close>

function extension_headers :: "bytes \<Rightarrow> byte \<Rightarrow> nat \<Rightarrow> nat option result" where
  "extension_headers data nxt data_offset =
     (if nxt = 0x11 then Inr (Some data_offset)
      else if nxt \<noteq> 0 \<and> nxt \<noteq> 43 \<and> nxt \<noteq> 60 then Inr None
      else case byte_at data data_offset of Inl e \<Rightarrow> Inl e | Inr nxt' \<Rightarrow>
        (case byte_at data (data_offset + 1) of Inl e \<Rightarrow> Inl e | Inr n \<Rightarrow>
           if length data < data_offset + 8 * (1 + unat n) + 2 then Inr None
           else extension_headers data nxt' (data_offset + 8 * (1 + unat n))))"
  by auto
termination extension_headers
  by (relation "measure (\<lambda>(data, _, data_offset). length data - data_offset)") (auto simp: byte_at_def split: if_splits)

declare extension_headers.simps [simp del]

definition process_ipv4_ipv6 :: "(bytes \<Rightarrow> string) \<Rightarrow> bytes \<Rightarrow> (nat \<times> string \<times> string) option result" where
  "process_ipv4_ipv6 ntop6 data =
     (if length data < 1 then Inr None
      else let pt = data ! 0 AND 0xf0 in
        if pt = 0x40 then
          let data_offset = unat (data ! 0 AND 0x0f) * 4 in
          if length data < data_offset then Inr None
          else
            result_bind (byte_at data 9) (\<lambda>proto.
            if proto \<noteq> 0x11 then Inr None
            else
              result_bind (inet4_addr data 12) (\<lambda>src_addr.
              result_bind (inet4_addr data 16) (\<lambda>dst_addr.
              Inr (Some (data_offset + 8, src_addr, dst_addr)))))
        else if pt = 0x60 then
          if length data < 42 then Inr None
          else
            result_bind (byte_at data 6) (\<lambda>nxt.
            result_bind (extension_headers data nxt 40) (\<lambda>udp.
            case udp of None \<Rightarrow> Inr None | Some data_offset \<Rightarrow>
              result_bind (inet6_addr ntop6 data 8) (\<lambda>src_addr.
              result_bind (inet6_addr ntop6 data 24) (\<lambda>dst_addr.
              Inr (Some (data_offset + 8, src_addr, dst_addr))))))
        else Inr None)"

datatype datalink = DLT_RAW | DLT_NULL | DLT_EN10MB | DLT_LINUX_SLL | DLT_LINUX_SLL2

text \<open>Where the IP header starts; \<open>None\<close> for a malformed packet and for one that is not IP.\<close>

definition ip_ethertype :: "16 word \<Rightarrow> bool" where
  "ip_ethertype pt \<longleftrightarrow> pt = 0x0800 \<or> pt = 0x86dd"

fun link_header :: "datalink \<Rightarrow> bytes \<Rightarrow> nat option" where
  "link_header DLT_NULL pkt =
     (if length pkt < 4 \<or> pkt ! 3 \<notin> {2, 24, 28, 30} then None else Some 4)"
| "link_header DLT_EN10MB pkt =
     (if length pkt < 14 \<or> \<not> ip_ethertype (be_word [pkt ! 12, pkt ! 13]) then None else Some 14)"
| "link_header DLT_LINUX_SLL pkt =
     (if length pkt < 16 \<or> \<not> ip_ethertype (be_word [pkt ! 14, pkt ! 15]) then None else Some 16)"
| "link_header DLT_LINUX_SLL2 pkt =
     (if length pkt < 20 \<or> \<not> ip_ethertype (be_word [pkt ! 0, pkt ! 1]) then None else Some 20)"
| "link_header DLT_RAW pkt = Some 0"

text \<open>
  What a packet is found to be. The payload is a view that is then copied into a string: a length above the
  largest size of a string is refused before anything is read, and otherwise the view must lie in the packet.
\<close>

datatype capture =
    Skipped
  | Unrecognized string string bytes
  | Recognized string string ParseResult TCPSegment bytes

definition max_string_size :: nat where
  "max_string_size = 2 ^ 63 - 1"

definition view_payload :: "bytes \<Rightarrow> nat \<Rightarrow> bytes result" where
  "view_payload pkt payload_off =
     (let payload_len = sub64 (length pkt) payload_off in
      if max_string_size < payload_len then Inl LengthError
      else if payload_off + payload_len \<le> length pkt then Inr (take payload_len (drop payload_off pkt))
      else Inl OutOfBounds)"

definition dissect :: "(bytes \<Rightarrow> string) \<Rightarrow> datalink \<Rightarrow> bytes \<Rightarrow> capture result" where
  "dissect ntop6 dl pkt =
     (case link_header dl pkt of
        None \<Rightarrow> Inr Skipped
      | Some hdr_off \<Rightarrow>
          result_bind (process_ipv4_ipv6 ntop6 (drop hdr_off pkt)) (\<lambda>udp.
          case udp of
            None \<Rightarrow> Inr Skipped
          | Some (start_off, src, dst) \<Rightarrow>
              result_bind (view_payload pkt (hdr_off + start_off)) (\<lambda>payload.
              result_bind (TCPSegment_parse TCPSegment_default (Buffer_of_string payload) 0) (\<lambda>(res, seg).
              if ParseResult_index res > ParseResult_index BadChecksum
              then Inr (Unrecognized src dst payload) else Inr (Recognized src dst res seg payload)))))"

fun capture_text :: "capture \<Rightarrow> string" where
  "capture_text Skipped = ''''"
| "capture_text (Unrecognized src dst payload) =
     ''(did not recognize TCP header) src: '' @ src @ '' dst: '' @ dst @ newline @ hexdump payload 8"
| "capture_text (Recognized src dst res seg payload) =
     (let h = ts_header seg; seqlen = word_of_nat (length_in_sequence_space seg) :: 32 word in
      src @ '':'' @ dec_of (th_sport h) @ '' > '' @ dst @ '':'' @ dec_of (th_dport h) @ newline @ ''    Flags ['' @
      (if th_urg h then ''U'' else '''') @ (if th_psh h then ''P'' else '''') @ (if th_rst h then ''R'' else '''') @
      (if th_syn h then ''S'' else '''') @ (if th_fin h then ''F'' else '''') @ (if th_ack h then ''.'' else '''') @
      ''] cksum 0x'' @ pad_left 4 (CHR ''0'') (hex_of (th_cksum h)) @
      (if res = NoError then '' (correct)'' else '' (incorrect!)'') @
      '' seq '' @ dec_of (th_seqno h) @
      (if seqlen > 0 then '':'' @ dec_of (th_seqno h + seqlen) else '''') @
      '' ack '' @ dec_of (th_ackno h) @ '' win '' @ dec_of (th_win h) @ '' length '' @ dec_string (length payload) @ newline @
      hexdump payload 8)"

text \<open>The loop over the captured packets.\<close>

fun capture_loop :: "(bytes \<Rightarrow> string) \<Rightarrow> datalink \<Rightarrow> bytes list \<Rightarrow> string \<Rightarrow> cpp_error option \<times> string" where
  "capture_loop ntop6 dl [] out = (None, out)"
| "capture_loop ntop6 dl (pkt # pkts) out =
     (case dissect ntop6 dl pkt of Inl e \<Rightarrow> (Some e, out) | Inr c \<Rightarrow> capture_loop ntop6 dl pkts (out @ capture_text c))"


section \<open>Where the monitor reads\<close>







lemma view_payload_eq:
  assumes "length pkt < 2 ^ 32" and "off \<le> length pkt + 28"
  shows "view_payload pkt off = (if off \<le> length pkt then Inr (drop off pkt) else Inl LengthError)"
proof (cases "off \<le> length pkt")
  case True
  then have "sub64 (length pkt) off = length pkt - off" using assms(1) by (simp add: size_arith SIZE_MOD_def)
  with True assms(1) show ?thesis by (simp add: view_payload_def Let_def max_string_size_def)
next
  case False
  then have "max_string_size < sub64 (length pkt) off" using assms by (simp add: sub64_def SIZE_MOD_def mod_simps max_string_size_def)
  with False show ?thesis by (simp add: view_payload_def Let_def)
qed

section \<open>Properties\<close>



text \<open>
  C27. The monitor shows what was sent: an Ethernet frame with an IPv4 packet without options and in it a UDP
  datagram that carries a serialized segment is recognized, with the addresses of the IPv4 header, a correct checksum
  and the header and payload of the segment.
\<close>

theorem tcpdump_finds_segment:
  assumes "5 \<le> th_doff (ts_header seg)" and "th_doff (ts_header seg) < 16" and "Buffer_wf (ts_payload seg)"
    and "4 * unat (th_doff (ts_header seg)) + length (Buffer_str (ts_payload seg)) \<le> 65507"
    and "TCPSegment_serialize seg 0 = Inr bl"
    and "length macs = 12" and "length ip1 = 8" and "length ip2 = 2" and "length udp = 8"
  shows "\<exists>seg'. dissect ntop6 DLT_EN10MB (macs @ [0x08, 0x00] @ [0x45] @ ip1 @ [0x11] @ ip2 @ be_bytes (src :: 32 word) @
      be_bytes (dst :: 32 word) @ udp @ BufferList_concatenate bl) =
      Inr (Recognized (inet_ntoa src) (inet_ntoa dst) NoError seg' (BufferList_concatenate bl)) \<and>
    (ts_header seg')\<lparr>th_cksum := th_cksum (ts_header seg)\<rparr> = ts_header seg \<and>
    Buffer_str (ts_payload seg') = Buffer_str (ts_payload seg)"
proof -
  let ?h = "header_sent seg 0" and ?data = "Buffer_str (ts_payload seg)"
  define ip where "ip = [0x45] @ ip1 @ [0x11] @ ip2 @ be_bytes src @ be_bytes dst @ udp @ BufferList_concatenate bl"
  define pkt where "pkt = macs @ [0x08, 0x00] @ ip"
  have tcp: "BufferList_concatenate bl = wire_bytes ?h ?data" using TCPSegment_serialize_eq [OF assms(1,3), of 0] assms(5) by auto
  have h: "5 \<le> th_doff ?h" "th_doff ?h < 16" using assms(1,2) by (simp_all add: header_sent_def)
  have len: "length (BufferList_concatenate bl) \<le> 65507"
    using assms(4) h(1) unfolding tcp by (simp add: length_wire_bytes header_sent_def)
  have lens: "length (be_bytes (w :: 32 word)) = 4" for w by (simp add: be_bytes_simps)
  have link: "link_header DLT_EN10MB pkt = Some 14" "drop 14 pkt = ip"
    using assms(6) by (simp_all add: pkt_def nth_append be_word_simps ip_ethertype_def)
  have parts: "ip ! 0 = 0x45" "ip ! 9 = 0x11" "take 4 (drop 12 ip) = be_bytes src" "take 4 (drop 16 ip) = be_bytes dst"
    "drop 28 ip = BufferList_concatenate bl" "length ip = 28 + length (BufferList_concatenate bl)"
    using assms(7-9) lens by (simp_all add: ip_def nth_append)
  have process: "process_ipv4_ipv6 ntop6 ip = Inr (Some (28, inet_ntoa src, inet_ntoa dst))"
    using parts by (simp add: process_ipv4_ipv6_def byte_at_def inet4_addr_def be_word_be_bytes Let_def)
  have plen: "length pkt = 42 + length (BufferList_concatenate bl)" using assms(6) parts(6) by (simp add: pkt_def)
  have "drop 42 pkt = BufferList_concatenate bl" using parts(5) unfolding link(2) [symmetric] by simp
  then have view: "view_payload pkt (14 + 28) = Inr (BufferList_concatenate bl)"
    using view_payload_eq [of pkt 42] plen len by simp
  have "unat (0 :: 32 word) + 65280 * (4 * unat (th_doff (ts_header seg)) + length ?data) < 2 ^ 32" using assms(4) by simp
  note sum = checksum_sent [OF assms(1) this]
  have "Buffer_wf (Buffer_of_string (wire_bytes ?h ?data))" using len unfolding tcp by (simp add: SIZE_MOD_def)
  from TCPSegment_parse_wire [OF h sum this, of TCPSegment_default] obtain b' where
    "TCPSegment_parse TCPSegment_default (Buffer_of_string (wire_bytes ?h ?data)) 0 =
       Inr (NoError, TCPSegment_default\<lparr>ts_header := ?h, ts_payload := b'\<rparr>)" "Buffer_str b' = ?data"
    using len by (auto simp: tcp SIZE_MOD_def)
  then have "dissect ntop6 DLT_EN10MB pkt = Inr (Recognized (inet_ntoa src) (inet_ntoa dst) NoError
      (TCPSegment_default\<lparr>ts_header := ?h, ts_payload := b'\<rparr>) (BufferList_concatenate bl))" "Buffer_str b' = ?data"
    using link process view by (simp_all add: dissect_def tcp)
  then show ?thesis unfolding pkt_def ip_def by (fastforce simp: header_sent_def)
qed

theorem tcpdump_finds_segment_witness:
  "\<exists>bl seg'. TCPSegment_serialize TCPSegment_default 0 = Inr bl \<and>
    dissect (\<lambda>_. []) DLT_EN10MB (replicate 12 0 @ [0x08, 0x00] @ [0x45] @ replicate 8 0 @ [0x11] @ replicate 2 0 @ be_bytes (1 :: 32 word) @
      be_bytes (2 :: 32 word) @ replicate 8 0 @ BufferList_concatenate bl) =
      Inr (Recognized (inet_ntoa 1) (inet_ntoa 2) NoError seg' (BufferList_concatenate bl))"
proof -
  have seg: "5 \<le> th_doff (ts_header TCPSegment_default)" "th_doff (ts_header TCPSegment_default) < 16"
    "Buffer_wf (ts_payload TCPSegment_default)"
    "4 * unat (th_doff (ts_header TCPSegment_default)) + length (Buffer_str (ts_payload TCPSegment_default)) \<le> 65507"
    by (simp_all add: TCPSegment_default_def TCPHeader_default_def SIZE_MOD_def)
  obtain bl where bl: "TCPSegment_serialize TCPSegment_default 0 = Inr bl" using TCPSegment_serialize_eq [OF seg(1,3)] by blast
  from tcpdump_finds_segment [OF seg bl, of "replicate 12 0" "replicate 8 0" "replicate 2 0" "replicate 8 0" "\<lambda>_. []" 1 2] bl
  show ?thesis by auto
qed

end
