(* ===== verification/Network_Simulator.thy ===== *)
theory Network_Simulator
  imports Router "HOL-Library.Multiset"
begin

text \<open>
  The network simulator (apps/network\_simulator.cc): hosts with a network interface and a list of the
  datagrams they expect, a router, the links between them, and the tests. Random numbers are
  arguments; the table of hosts is a list, in the order of insertion. Output is left out.
\<close>

unbundle bit_operations_syntax

section \<open>Addresses\<close>

definition random_host_ethernet_address :: "32 word list \<Rightarrow> EthernetAddress" where
  "random_host_ethernet_address random =
     (let addr = map ucast (take 6 random) in addr[0 := (addr ! 0 OR 0x02) AND 0xfe])"

definition random_router_ethernet_address :: "32 word list \<Rightarrow> EthernetAddress" where
  "random_router_ethernet_address random =
     (let addr = map ucast (take 6 random) in addr[0 := 0x02, 1 := 0, 2 := 0])"

definition ip_of_text :: "resolver \<Rightarrow> string \<Rightarrow> 32 word result" where
  "ip_of_text rs str = result_bind (Address_of_ip rs str 0) ipv4_numeric"

section \<open>Hosts\<close>

record Host =
  ho_name :: string
  ho_my_address :: Address
  ho_interface :: AsyncNetworkInterface
  ho_next_hop :: Address
  ho_expecting_to_receive :: "IPv4Datagram list"

definition Host_new :: "resolver \<Rightarrow> 32 word list \<Rightarrow> string \<Rightarrow> Address \<Rightarrow> Address \<Rightarrow> Host result" where
  "Host_new rs random name my_address next_hop =
     result_bind (NetworkInterface_new rs (random_host_ethernet_address random) my_address) (\<lambda>ni.
     Inr \<lparr>ho_name = name, ho_my_address = my_address, ho_interface = AsyncNetworkInterface_of ni,
          ho_next_hop = next_hop, ho_expecting_to_receive = []\<rparr>)"

definition datagram_bytes :: "IPv4Datagram \<Rightarrow> bytes result" where
  "datagram_bytes d = result_bind (IPv4Datagram_serialize d) (\<lambda>bl. Inr (BufferList_concatenate bl))"

fun expecting :: "IPv4Datagram list \<Rightarrow> IPv4Datagram \<Rightarrow> bool result" where
  "expecting [] expected = Inr False"
| "expecting (x # xs) expected =
     result_bind (datagram_bytes x) (\<lambda>bx.
     result_bind (datagram_bytes expected) (\<lambda>be.
     if bx = be then Inr True else expecting xs expected))"

fun remove_expectation :: "IPv4Datagram list \<Rightarrow> IPv4Datagram \<Rightarrow> IPv4Datagram list result" where
  "remove_expectation [] expected = Inr []"
| "remove_expectation (x # xs) expected =
     result_bind (datagram_bytes x) (\<lambda>bx.
     result_bind (datagram_bytes expected) (\<lambda>be.
     if bx = be then Inr xs
     else result_bind (remove_expectation xs expected) (\<lambda>xs. Inr (x # xs))))"

definition text_bytes :: "string \<Rightarrow> bytes" where
  "text_bytes s = map of_char s"

definition send_to :: "nat \<Rightarrow> Address \<Rightarrow> 8 word \<Rightarrow> Host \<Rightarrow> (IPv4Datagram \<times> Host) result" where
  "send_to random destination ttl h =
     result_bind (ipv4_numeric (ho_my_address h)) (\<lambda>src.
     result_bind (ipv4_numeric destination) (\<lambda>dst.
     let payload = BufferList_of_string (text_bytes (''random payload: {'' @ dec_string random @ ''}''));
         hd0 = IPv4Header_default\<lparr>ip_src := src, ip_dst := dst\<rparr>;
         hd1 = hd0\<lparr>ip_len := word_of_nat (unat (ip_hlen hd0) * 4 + BufferList_size payload), ip_ttl := ttl\<rparr>;
         dgram = \<lparr>ipd_header = hd1, ipd_payload = payload\<rparr>
     in result_bind (send_datagram dgram (ho_next_hop h) (an_interface (ho_interface h))) (\<lambda>ni.
        Inr (dgram, h\<lparr>ho_interface := (ho_interface h)\<lparr>an_interface := ni\<rparr>\<rparr>))))"

definition expect :: "IPv4Datagram \<Rightarrow> Host \<Rightarrow> Host" where
  "expect d h = h\<lparr>ho_expecting_to_receive := ho_expecting_to_receive h @ [d]\<rparr>"

text \<open>The loop of \<open>check\<close> over the received datagrams: what is still expected when it ends.\<close>

fun check_received :: "IPv4Datagram list \<Rightarrow> IPv4Datagram list \<Rightarrow> IPv4Datagram list result" where
  "check_received [] expected = Inr expected"
| "check_received (d # received) expected =
     result_bind (expecting expected d) (\<lambda>known.
     if \<not> known then Inl RuntimeError
     else result_bind (remove_expectation expected d) (\<lambda>expected. check_received received expected))"

definition host_check :: "Host \<Rightarrow> Host result" where
  "host_check h =
     result_bind (check_received (an_datagrams_out (ho_interface h)) (ho_expecting_to_receive h)) (\<lambda>expected.
     if expected \<noteq> [] then Inl RuntimeError
     else Inr (h\<lparr>ho_interface := (ho_interface h)\<lparr>an_datagrams_out := []\<rparr>, ho_expecting_to_receive := []\<rparr>))"

section \<open>Links\<close>

fun deliver :: "EthernetFrame list \<Rightarrow> AsyncNetworkInterface \<Rightarrow> AsyncNetworkInterface result" where
  "deliver [] dst = Inr dst"
| "deliver (frame # frames) dst =
     result_bind (async_recv_frame
         (frame\<lparr>ef_payload := BufferList_of_string (BufferList_concatenate (ef_payload frame))\<rparr>) dst) (\<lambda>dst.
     deliver frames dst)"

abbreviation frames_out :: "AsyncNetworkInterface \<Rightarrow> EthernetFrame list" where
  "frames_out a \<equiv> ni_frames_out (an_interface a)"

text \<open>\<open>clear\<close> pops as many frames as were copied; those queued in the meantime stay.\<close>

definition clear_frames :: "EthernetFrame list \<Rightarrow> AsyncNetworkInterface \<Rightarrow> AsyncNetworkInterface" where
  "clear_frames copied a =
     a\<lparr>an_interface := (an_interface a)\<lparr>ni_frames_out := drop (length copied) (frames_out a)\<rparr>\<rparr>"

definition exchange_frames ::
  "AsyncNetworkInterface \<Rightarrow> AsyncNetworkInterface \<Rightarrow> (AsyncNetworkInterface \<times> AsyncNetworkInterface) result" where
  "exchange_frames x y =
     (let x_frames = frames_out x; y_frames = frames_out y in
      result_bind (deliver x_frames y) (\<lambda>y.
      result_bind (deliver y_frames x) (\<lambda>x.
      Inr (clear_frames x_frames x, clear_frames y_frames y))))"

definition exchange_frames3 ::
  "AsyncNetworkInterface \<Rightarrow> AsyncNetworkInterface \<Rightarrow> AsyncNetworkInterface \<Rightarrow>
   (AsyncNetworkInterface \<times> AsyncNetworkInterface \<times> AsyncNetworkInterface) result" where
  "exchange_frames3 x y z =
     (let x_frames = frames_out x; y_frames = frames_out y; z_frames = frames_out z in
      result_bind (deliver x_frames y) (\<lambda>y.
      result_bind (deliver x_frames z) (\<lambda>z.
      result_bind (deliver y_frames x) (\<lambda>x.
      result_bind (deliver y_frames z) (\<lambda>z.
      result_bind (deliver z_frames x) (\<lambda>x.
      result_bind (deliver z_frames y) (\<lambda>y.
      Inr (clear_frames x_frames x, clear_frames y_frames y, clear_frames z_frames z))))))))"

section \<open>The network\<close>

record Network =
  nw_router :: Router
  nw_hosts :: "(string \<times> Host) list"

definition network_host :: "string \<Rightarrow> Network \<Rightarrow> Host result" where
  "network_host name n =
     (case map_of (nw_hosts n) name of
        None \<Rightarrow> Inl RuntimeError
      | Some h \<Rightarrow> if ho_name h \<noteq> name then Inl RuntimeError else Inr h)"

definition set_host :: "string \<Rightarrow> Host \<Rightarrow> Network \<Rightarrow> Network" where
  "set_host name h n = n\<lparr>nw_hosts := map (\<lambda>(k, v). if k = name then (k, h) else (k, v)) (nw_hosts n)\<rparr>"

definition set_router_interface :: "size_t \<Rightarrow> AsyncNetworkInterface \<Rightarrow> Network \<Rightarrow> Network" where
  "set_router_interface i a n = n\<lparr>nw_router := (nw_router n)\<lparr>rt_interfaces := (rt_interfaces (nw_router n))[i := a]\<rparr>\<rparr>"

text \<open>Insertion into the table does nothing when the name is taken.\<close>

definition insert_host :: "resolver \<Rightarrow> 32 word list \<Rightarrow> string \<Rightarrow> string \<Rightarrow> string \<Rightarrow> Network \<Rightarrow> Network result" where
  "insert_host rs random name address next_hop n =
     result_bind (Address_of_ip rs address 0) (\<lambda>a.
     result_bind (Address_of_ip rs next_hop 0) (\<lambda>nh.
     result_bind (Host_new rs random name a nh) (\<lambda>h.
     Inr (if map_of (nw_hosts n) name = None then n\<lparr>nw_hosts := nw_hosts n @ [(name, h)]\<rparr> else n))))"

definition insert_interface :: "resolver \<Rightarrow> 32 word list \<Rightarrow> string \<Rightarrow> Network \<Rightarrow> Network result" where
  "insert_interface rs random address n =
     result_bind (Address_of_ip rs address 0) (\<lambda>a.
     result_bind (NetworkInterface_new rs (random_router_ethernet_address random) a) (\<lambda>ni.
     Inr (n\<lparr>nw_router := snd (add_interface (AsyncNetworkInterface_of ni) (nw_router n))\<rparr>)))"

definition insert_route :: "resolver \<Rightarrow> string \<Rightarrow> 8 word \<Rightarrow> Address option \<Rightarrow> size_t \<Rightarrow> Network \<Rightarrow> Network result" where
  "insert_route rs text prefix_length next_hop interface_num n =
     result_bind (ip_of_text rs text) (\<lambda>p.
     result_bind (add_route rs p prefix_length next_hop interface_num (nw_router n)) (\<lambda>r. Inr (n\<lparr>nw_router := r\<rparr>)))"

definition host_address :: "string \<Rightarrow> Network \<Rightarrow> Address result" where
  "host_address name n = result_bind (network_host name n) (\<lambda>h. Inr (ho_my_address h))"


text \<open>
  The constructor; \<open>random i\<close> are the random numbers of the \<open>i\<close>th address. The interfaces get the numbers
  0 (default), 1 (eth0), 2 (eth1), 3 (eth2), 4 (uun3), 5 (hs4) and 6 (mit5).
\<close>

definition network_interfaces :: "resolver \<Rightarrow> (nat \<Rightarrow> 32 word list) \<Rightarrow> Network result" where
  "network_interfaces rs random =
     result_bind (insert_interface rs (random 0) ''171.67.76.46'' \<lparr>nw_router = Router_new, nw_hosts = []\<rparr>) (\<lambda>n.
     result_bind (insert_interface rs (random 1) ''10.0.0.1'' n) (\<lambda>n.
     result_bind (insert_interface rs (random 2) ''172.16.0.1'' n) (\<lambda>n.
     result_bind (insert_interface rs (random 3) ''192.168.0.1'' n) (\<lambda>n.
     result_bind (insert_interface rs (random 4) ''198.178.229.1'' n) (\<lambda>n.
     result_bind (insert_interface rs (random 5) ''143.195.0.2'' n) (\<lambda>n.
     insert_interface rs (random 6) ''128.30.76.255'' n))))))"

definition network_hosts :: "resolver \<Rightarrow> (nat \<Rightarrow> 32 word list) \<Rightarrow> Network \<Rightarrow> Network result" where
  "network_hosts rs random n =
     result_bind (insert_host rs (random 7) ''applesauce'' ''10.0.0.2'' ''10.0.0.1'' n) (\<lambda>n.
     result_bind (insert_host rs (random 8) ''default_router'' ''171.67.76.1'' ''0'' n) (\<lambda>n.
     result_bind (insert_host rs (random 9) ''cherrypie'' ''192.168.0.2'' ''192.168.0.1'' n) (\<lambda>n.
     result_bind (insert_host rs (random 10) ''hs_router'' ''143.195.0.1'' ''0'' n) (\<lambda>n.
     result_bind (insert_host rs (random 11) ''dm42'' ''198.178.229.42'' ''198.178.229.1'' n) (\<lambda>n.
     insert_host rs (random 12) ''dm43'' ''198.178.229.43'' ''198.178.229.1'' n)))))"

definition network_routes :: "resolver \<Rightarrow> Network \<Rightarrow> Network result" where
  "network_routes rs n =
     result_bind (host_address ''default_router'' n) (\<lambda>default_router.
     result_bind (insert_route rs ''0.0.0.0'' 0 (Some default_router) 0 n) (\<lambda>n.
     result_bind (insert_route rs ''10.0.0.0'' 8 None 1 n) (\<lambda>n.
     result_bind (insert_route rs ''172.16.0.0'' 16 None 2 n) (\<lambda>n.
     result_bind (insert_route rs ''192.168.0.0'' 24 None 3 n) (\<lambda>n.
     result_bind (insert_route rs ''198.178.229.0'' 24 None 4 n) (\<lambda>n.
     result_bind (host_address ''hs_router'' n) (\<lambda>hs_router.
     result_bind (insert_route rs ''143.195.0.0'' 17 (Some hs_router) 5 n) (\<lambda>n.
     result_bind (insert_route rs ''143.195.128.0'' 18 (Some hs_router) 5 n) (\<lambda>n.
     result_bind (insert_route rs ''143.195.192.0'' 19 (Some hs_router) 5 n) (\<lambda>n.
     result_bind (Address_of_ip rs ''128.30.0.1'' 0) (\<lambda>mit_router.
     insert_route rs ''128.30.76.255'' 16 (Some mit_router) 6 n)))))))))))"

definition Network_new :: "resolver \<Rightarrow> (nat \<Rightarrow> 32 word list) \<Rightarrow> Network result" where
  "Network_new rs random =
     result_bind (network_interfaces rs random) (\<lambda>n.
     result_bind (network_hosts rs random n) (\<lambda>n. network_routes rs n))"

definition link :: "size_t \<Rightarrow> string \<Rightarrow> Network \<Rightarrow> Network result" where
  "link i name n =
     result_bind (rt_interface i (nw_router n)) (\<lambda>x.
     result_bind (network_host name n) (\<lambda>h.
     result_bind (exchange_frames x (ho_interface h)) (\<lambda>(x, y).
     Inr (set_host name (h\<lparr>ho_interface := y\<rparr>) (set_router_interface i x n)))))"

definition link3 :: "size_t \<Rightarrow> string \<Rightarrow> string \<Rightarrow> Network \<Rightarrow> Network result" where
  "link3 i name1 name2 n =
     result_bind (rt_interface i (nw_router n)) (\<lambda>x.
     result_bind (network_host name1 n) (\<lambda>h1.
     result_bind (network_host name2 n) (\<lambda>h2.
     result_bind (exchange_frames3 x (ho_interface h1) (ho_interface h2)) (\<lambda>(x, y, z).
     Inr (set_host name2 (h2\<lparr>ho_interface := z\<rparr>) (set_host name1 (h1\<lparr>ho_interface := y\<rparr>) (set_router_interface i x n)))))))"

definition simulate_physical_connections :: "Network \<Rightarrow> Network result" where
  "simulate_physical_connections n =
     result_bind (link 0 ''default_router'' n) (\<lambda>n.
     result_bind (link 1 ''applesauce'' n) (\<lambda>n.
     result_bind (link 3 ''cherrypie'' n) (\<lambda>n.
     result_bind (link 5 ''hs_router'' n) (\<lambda>n.
     link3 4 ''dm42'' ''dm43'' n))))"

fun simulate_rounds :: "nat \<Rightarrow> Network \<Rightarrow> Network result" where
  "simulate_rounds 0 n = Inr n"
| "simulate_rounds (Suc i) n =
     result_bind (route (nw_router n)) (\<lambda>r.
     result_bind (simulate_physical_connections (n\<lparr>nw_router := r\<rparr>)) (\<lambda>n. simulate_rounds i n))"

fun check_hosts :: "(string \<times> Host) list \<Rightarrow> (string \<times> Host) list result" where
  "check_hosts [] = Inr []"
| "check_hosts ((name, h) # hosts) =
     result_bind (host_check h) (\<lambda>h. result_bind (check_hosts hosts) (\<lambda>hosts. Inr ((name, h) # hosts)))"

definition simulate :: "Network \<Rightarrow> Network result" where
  "simulate n =
     result_bind (simulate_rounds 256 n) (\<lambda>n.
     result_bind (check_hosts (nw_hosts n)) (\<lambda>hosts. Inr (n\<lparr>nw_hosts := hosts\<rparr>)))"

section \<open>The tests\<close>

text \<open>
  One test: a host sends, the datagram, with its time to live counted down, is expected at a host if
  there is one, and the network is simulated.
\<close>

datatype target = Named string | Numeric string

fun target_address :: "resolver \<Rightarrow> target \<Rightarrow> Network \<Rightarrow> Address result" where
  "target_address rs (Named name) n = host_address name n"
| "target_address rs (Numeric str) n = Address_of_ip rs str 0"

definition run_test ::
  "resolver \<Rightarrow> nat \<Rightarrow> string \<Rightarrow> target \<Rightarrow> 8 word \<Rightarrow> string option \<Rightarrow> Network \<Rightarrow> Network result" where
  "run_test rs random sender dest ttl receiver n =
     result_bind (target_address rs dest n) (\<lambda>a.
     result_bind (network_host sender n) (\<lambda>h.
     result_bind (send_to random a ttl h) (\<lambda>(dgram_sent, h).
     let n = set_host sender h n in
     result_bind
       (case receiver of
          None \<Rightarrow> Inr n
        | Some name \<Rightarrow>
            let dgram_sent = dgram_sent\<lparr>ipd_header := (ipd_header dgram_sent)\<lparr>ip_ttl := ip_ttl (ipd_header dgram_sent) - 1\<rparr>\<rparr> in
            result_bind (network_host name n) (\<lambda>h. Inr (set_host name (expect dgram_sent h) n))) (\<lambda>n.
     simulate n))))"

definition tests :: "(string \<times> target \<times> 8 word \<times> string option) list" where
  "tests =
     [(''applesauce'', Named ''cherrypie'', 64, Some ''cherrypie''),
      (''cherrypie'', Named ''applesauce'', 64, Some ''applesauce''),
      (''applesauce'', Numeric ''1.2.3.4'', 64, Some ''default_router''),
      (''applesauce'', Numeric ''143.195.131.17'', 64, Some ''hs_router''),
      (''cherrypie'', Numeric ''143.195.193.52'', 64, Some ''hs_router''),
      (''cherrypie'', Numeric ''143.195.223.255'', 64, Some ''hs_router''),
      (''cherrypie'', Numeric ''143.195.224.0'', 64, Some ''default_router''),
      (''dm42'', Named ''dm43'', 64, Some ''dm43''),
      (''applesauce'', Numeric ''1.2.3.4'', 1, None),
      (''applesauce'', Numeric ''1.2.3.4'', 0, None)]"

fun run_tests ::
  "resolver \<Rightarrow> (nat \<Rightarrow> nat) \<Rightarrow> nat \<Rightarrow> (string \<times> target \<times> 8 word \<times> string option) list \<Rightarrow> Network \<Rightarrow> Network result" where
  "run_tests rs random i [] n = Inr n"
| "run_tests rs random i ((sender, dest, ttl, receiver) # ts) n =
     result_bind (run_test rs (random i) sender dest ttl receiver n) (\<lambda>n. run_tests rs random (Suc i) ts n)"

definition network_simulator :: "resolver \<Rightarrow> (nat \<Rightarrow> 32 word list) \<Rightarrow> (nat \<Rightarrow> nat) \<Rightarrow> unit result" where
  "network_simulator rs random_addresses random_payloads =
     result_bind (Network_new rs random_addresses) (\<lambda>n.
     result_bind (run_tests rs random_payloads 0 tests n) (\<lambda>_. Inr ()))"


section \<open>Checking a host\<close>

definition serializable :: "IPv4Datagram \<Rightarrow> bool" where
  "serializable d \<longleftrightarrow> (\<exists>b. datagram_bytes d = Inr b)"

abbreviation wires :: "IPv4Datagram list \<Rightarrow> bytes result multiset" where
  "wires ds \<equiv> mset (map datagram_bytes ds)"

lemma expecting_eq:
  "list_all serializable (d # xs) \<Longrightarrow> expecting xs d = Inr (datagram_bytes d \<in># wires xs)"
  by (induction xs) (auto simp: serializable_def)

lemma remove_expectation_eq:
  "list_all serializable (d # xs) \<Longrightarrow>
   \<exists>ys. remove_expectation xs d = Inr ys \<and> list_all serializable ys \<and> wires ys = wires xs - {#datagram_bytes d#}"
proof (induction xs)
  case (Cons x xs)
  then obtain ys where ys: "remove_expectation xs d = Inr ys" "list_all serializable ys" "wires ys = wires xs - {#datagram_bytes d#}"
    by auto
  obtain bx bd where "datagram_bytes x = Inr bx" "datagram_bytes d = Inr bd" using Cons.prems by (auto simp: serializable_def)
  with ys Cons.prems show ?case by (cases "bx = bd") auto
qed simp

lemma check_received_eq:
  "list_all serializable (received @ expected) \<Longrightarrow>
   (if wires received \<subseteq># wires expected
    then \<exists>rest. check_received received expected = Inr rest \<and> wires rest = wires expected - wires received
    else check_received received expected = Inl RuntimeError)"
proof (induction received arbitrary: expected)
  case (Cons d received)
  from Cons.prems have ok: "list_all serializable (d # expected)" "list_all serializable received" by auto
  from remove_expectation_eq [OF ok(1)] obtain ys where ys: "remove_expectation expected d = Inr ys"
    "list_all serializable ys" "wires ys = wires expected - {#datagram_bytes d#}" by blast
  show ?case
  proof (cases "datagram_bytes d \<in># wires expected")
    case True
    then have sub: "wires (d # received) \<subseteq># wires expected \<longleftrightarrow> wires received \<subseteq># wires ys"
      using ys(3) by (simp add: insert_subset_eq_iff)
    have step: "check_received (d # received) expected = check_received received ys"
      using True ys(1) expecting_eq [OF ok(1)] by simp
    have diff: "wires expected - wires (d # received) = wires ys - wires received" using ys(3) by simp
    have "list_all serializable (received @ ys)" using ok(2) ys(2) by simp
    from Cons.IH [OF this] show ?thesis unfolding sub step diff .
  next
    case False
    then show ?thesis using expecting_eq [OF ok(1)] by (auto dest: mset_subset_eqD)
  qed
qed simp

section \<open>Properties\<close>

text \<open>
  C28. The check of a host is exact: it passes if and only if the datagrams the host received are, byte
  for byte and with their multiplicities, in any order, the datagrams it expects. Then both lists are
  empty; otherwise the check throws, for an unexpected datagram as for a missing one.
\<close>

theorem host_check_exact:
  assumes "list_all serializable (an_datagrams_out (ho_interface h) @ ho_expecting_to_receive h)"
  shows "host_check h =
    (if mset (map datagram_bytes (an_datagrams_out (ho_interface h))) = mset (map datagram_bytes (ho_expecting_to_receive h))
     then Inr (h\<lparr>ho_interface := (ho_interface h)\<lparr>an_datagrams_out := []\<rparr>, ho_expecting_to_receive := []\<rparr>)
     else Inl RuntimeError)"
proof -
  let ?r = "an_datagrams_out (ho_interface h)" and ?e = "ho_expecting_to_receive h"
  show ?thesis
  proof (cases "wires ?r \<subseteq># wires ?e")
    case True
    with check_received_eq [OF assms] obtain rest where rest: "check_received ?r ?e = Inr rest" "wires rest = wires ?e - wires ?r"
      by auto
    have "rest = [] \<longleftrightarrow> wires rest = {#}" by simp
    also have "\<dots> \<longleftrightarrow> wires ?r = wires ?e"
      unfolding rest(2) using True by (metis Diff_eq_empty_iff_mset subset_mset.antisym subset_mset.refl)
    finally show ?thesis using rest(1) by (simp add: host_check_def)
  next
    case False
    with check_received_eq [OF assms] have "check_received ?r ?e = Inl RuntimeError" by simp
    with False show ?thesis by (auto simp: host_check_def)
  qed
qed

text \<open>A host that received the datagram it expects.\<close>

definition example_datagram :: IPv4Datagram where
  "example_datagram = \<lparr>ipd_header = IPv4Header_default\<lparr>ip_len := 20\<rparr>, ipd_payload = []\<rparr>"

definition example_host :: Host where
  "example_host =
     \<lparr>ho_name = ''h'', ho_my_address = ipv4_address 1 0,
      ho_interface = \<lparr>an_interface = NetworkInterface_init [2, 0, 0, 0, 0, 1] (ipv4_address 1 0), an_datagrams_out = [example_datagram]\<rparr>,
      ho_next_hop = ipv4_address 2 0, ho_expecting_to_receive = [example_datagram]\<rparr>"

lemma example_serializable: "serializable example_datagram"
  using IPv4Datagram_serialize_eq [of example_datagram]
  by (simp add: serializable_def datagram_bytes_def example_datagram_def IPv4Header_default_def payload_length_def
      BufferList_size_def IPv4Header_LENGTH_def)

theorem host_check_exact_witness:
  "host_check example_host =
     Inr (example_host\<lparr>ho_interface := (ho_interface example_host)\<lparr>an_datagrams_out := []\<rparr>, ho_expecting_to_receive := []\<rparr>)"
  using host_check_exact [of example_host] example_serializable by (simp add: example_host_def)

end
