(* ===== verification/Tcp_Benchmark.thy ===== *)
theory Tcp_Benchmark
  imports Connection_Contract
begin

text \<open>
  The benchmark (apps/tcp\_benchmark.cc): one connection sends a string to another, whose segments may
  be delivered in reverse order, and the received string is compared with it. The string and the two
  random initial sequence numbers are arguments; the measurement of time and its output are left out.

  The loop that writes gets one pass more than there are bytes to send, since every pass but the last
  writes at least one (\<open>write_input_returns\<close>).
\<close>

record benchmark =
  bn_bytes_to_send :: Buffer
  bn_x :: TCPConnection
  bn_y :: TCPConnection
  bn_x_closed :: bool
  bn_string_received :: bytes

fun receive_all :: "TCPSegment list \<Rightarrow> TCPConnection \<Rightarrow> TCPConnection result" where
  "receive_all [] y = Inr y"
| "receive_all (seg # segments) y = result_bind (tc_segment_received y seg) (\<lambda>y. receive_all segments y)"

definition move_segments :: "bool \<Rightarrow> TCPConnection \<Rightarrow> TCPConnection \<Rightarrow> (TCPConnection \<times> TCPConnection) result" where
  "move_segments reorder x y =
     (let segments = tc_segments_out x; x = x\<lparr>tc_segments_out := []\<rparr> in
      result_bind (receive_all (if reorder then rev segments else segments) y) (\<lambda>y. Inr (x, y)))"

fun write_input :: "nat \<Rightarrow> benchmark \<Rightarrow> benchmark result" where
  "write_input 0 b = Inl Diverged"
| "write_input (Suc fuel) b =
     (if Buffer_size (bn_bytes_to_send b) \<noteq> 0 \<and> remaining_outbound_capacity (bn_x b) \<noteq> 0 then
        let want = min (remaining_outbound_capacity (bn_x b)) (Buffer_size (bn_bytes_to_send b)) in
        result_bind (tc_write (bn_x b) (take want (Buffer_str (bn_bytes_to_send b)))) (\<lambda>(x, written).
        if want \<noteq> written then Inl RuntimeError
        else
          result_bind (Buffer_remove_prefix written (bn_bytes_to_send b)) (\<lambda>rest.
          write_input fuel (b\<lparr>bn_x := x, bn_bytes_to_send := rest\<rparr>)))
      else Inr b)"

definition close_input :: "benchmark \<Rightarrow> benchmark result" where
  "close_input b =
     (if Buffer_size (bn_bytes_to_send b) = 0 \<and> \<not> bn_x_closed b
      then result_bind (end_input_stream (bn_x b)) (\<lambda>x. Inr (b\<lparr>bn_x := x, bn_x_closed := True\<rparr>))
      else Inr b)"

definition exchange :: "bool \<Rightarrow> benchmark \<Rightarrow> benchmark result" where
  "exchange reorder b =
     result_bind (move_segments reorder (bn_x b) (bn_y b)) (\<lambda>(x, y).
     result_bind (move_segments False y x) (\<lambda>(y, x). Inr (b\<lparr>bn_x := x, bn_y := y\<rparr>)))"

definition read_output :: "benchmark \<Rightarrow> benchmark result" where
  "read_output b =
     (let available_output = buffer_size (tc_inbound_stream (bn_y b)) in
      if available_output > 0 then
        result_bind (sr_consume (tr_reassembler (tc_receiver (bn_y b))) available_output) (\<lambda>(data, re).
        Inr (b\<lparr>bn_y := (bn_y b)\<lparr>tc_receiver := (tc_receiver (bn_y b))\<lparr>tr_reassembler := re\<rparr>\<rparr>,
               bn_string_received := bn_string_received b @ data\<rparr>))
      else Inr b)"

definition bench_loop :: "bool \<Rightarrow> benchmark \<Rightarrow> benchmark result" where
  "bench_loop reorder b =
     result_bind (write_input (Buffer_size (bn_bytes_to_send b) + 1) b) (\<lambda>b.
     result_bind (close_input b) (\<lambda>b.
     result_bind (exchange reorder b) (\<lambda>b.
     result_bind (read_output b) (\<lambda>b.
     Inr (b\<lparr>bn_x := tc_tick (bn_x b) 1000, bn_y := tc_tick (bn_y b) 1000\<rparr>)))))"

definition bench_start :: "bytes \<Rightarrow> 32 word \<Rightarrow> 32 word \<Rightarrow> benchmark result" where
  "bench_start string_to_send isn_x isn_y =
     result_bind (connect (TCPConnection_new TCPConfig_default isn_x)) (\<lambda>x.
     result_bind (end_input_stream (TCPConnection_new TCPConfig_default isn_y)) (\<lambda>y.
     Inr \<lparr>bn_bytes_to_send = Buffer_of_string string_to_send, bn_x = x, bn_y = y, bn_x_closed = False,
          bn_string_received = []\<rparr>))"

text \<open>The loop until the end of the stream, and the one until both connections are done.\<close>

partial_function (option) bench_transfer :: "bool \<Rightarrow> benchmark \<Rightarrow> benchmark result option" where
  "bench_transfer reorder b =
     (if eof (tc_inbound_stream (bn_y b)) then Some (Inr b)
      else case bench_loop reorder b of Inl e \<Rightarrow> Some (Inl e) | Inr b \<Rightarrow> bench_transfer reorder b)"

partial_function (option) bench_linger :: "bool \<Rightarrow> benchmark \<Rightarrow> benchmark result option" where
  "bench_linger reorder b =
     (if \<not> (tc_active_now (bn_x b) \<or> tc_active_now (bn_y b)) then Some (Inr b)
      else case bench_loop reorder b of Inl e \<Rightarrow> Some (Inl e) | Inr b \<Rightarrow> bench_linger reorder b)"

definition compare_strings :: "bytes \<Rightarrow> benchmark \<Rightarrow> benchmark result" where
  "compare_strings string_to_send b = (if bn_string_received b \<noteq> string_to_send then Inl RuntimeError else Inr b)"

definition main_loop :: "bool \<Rightarrow> bytes \<Rightarrow> 32 word \<Rightarrow> 32 word \<Rightarrow> benchmark result option" where
  "main_loop reorder string_to_send isn_x isn_y =
     (case bench_start string_to_send isn_x isn_y of Inl e \<Rightarrow> Some (Inl e) | Inr b \<Rightarrow>
       (case bench_transfer reorder b of None \<Rightarrow> None | Some (Inl e) \<Rightarrow> Some (Inl e) | Some (Inr b) \<Rightarrow>
         (case compare_strings string_to_send b of Inl e \<Rightarrow> Some (Inl e) | Inr b \<Rightarrow> bench_linger reorder b)))"

section \<open>What holds in every pass\<close>

text \<open>
  \<open>T\<close> is the string to send, \<open>rest\<close> what is left of it. \<open>sends\<close> is the invariant of x, \<open>gets\<close> that of y,
  which writes nothing.
\<close>

definition sends :: "bytes \<Rightarrow> bytes \<Rightarrow> WrappingInt32 \<Rightarrow> WrappingInt32 \<Rightarrow> TCPConnection \<Rightarrow> bool" where
  "sends T rest ix iy x \<longleftrightarrow> (\<exists>W. T = W @ rest \<and> tc_sender_inv W x) \<and> sd_isn (tc_sender x) = ix \<and>
     (bs_input_ended (tc_outbound_stream x) \<longrightarrow> rest = []) \<and> tr_run_inv [] iy (tc_receiver x)"

definition gets :: "bytes \<Rightarrow> WrappingInt32 \<Rightarrow> WrappingInt32 \<Rightarrow> bytes \<Rightarrow> TCPConnection \<Rightarrow> bool" where
  "gets T ix iy received y \<longleftrightarrow> tc_sender_inv [] y \<and> sd_isn (tc_sender y) = iy \<and> tr_run_inv T ix (tc_receiver y) \<and>
     received = take (bs_bytes_read (tc_inbound_stream y)) T"

abbreviation piece_of :: "bytes \<Rightarrow> WrappingInt32 \<Rightarrow> TCPSegment \<Rightarrow> bool" where
  "piece_of S isn seg \<equiv> th_rst (ts_header seg) \<or> (\<exists>a. segment_of S isn a seg)"

lemma sends_pieces:
  assumes "sends T rest ix iy x" and "seg \<in> set (tc_segments_out x)"
  shows "piece_of T ix seg"
proof -
  obtain W where W: "T = W @ rest" "tc_sender_inv W x" and isn: "sd_isn (tc_sender x) = ix"
    and rest: "bs_input_ended (tc_outbound_stream x) \<longrightarrow> rest = []" using assms(1) by (auto simp: sends_def)
  have "frame_ok W (tc_sender x) seg" using W(2) assms(2) by (simp add: tc_sender_inv_def list_all_iff)
  then consider "th_rst (ts_header seg)" | a where "segment_of W ix a seg" "th_fin (ts_header seg) \<longrightarrow> sd_fined (tc_sender x)"
    using isn by (auto simp: frame_ok_def sent_ok_def)
  then show ?thesis
  proof cases
    case 2
    have "sd_inv W (tc_sender x)" using W(2) by (simp add: tc_sender_inv_def)
    then have "th_fin (ts_header seg) \<longrightarrow> rest = []" using 2(2) rest by (auto simp: sd_inv_def)
    with segment_of_append [OF 2(1), of rest] 2(1) W(1) show ?thesis by (cases "th_fin (ts_header seg)") auto
  qed simp
qed

lemma gets_pieces: "gets T ix iy received y \<Longrightarrow> seg \<in> set (tc_segments_out y) \<Longrightarrow> piece_of [] iy seg"
  by (auto simp: gets_def tc_sender_inv_def list_all_iff frame_ok_def sent_ok_def)

lemma sends_exec:
  assumes T: "length T + 3 \<le> 2 ^ 31" and x: "sends T rest ix iy x"
    and run: "\<And>W. tc_exec opn W [] x = Inr (W, [], x')" and seg: "\<forall>seg. opn = Tc_receive seg \<longrightarrow> piece_of [] iy seg"
    and flags: "same_flags (tc_outbound_stream x) (tc_outbound_stream x') \<or> bs_error (tc_outbound_stream x')"
  shows "bs_error (tc_outbound_stream x') \<or> sends T rest ix iy x'"
proof -
  obtain W where W: "T = W @ rest" "tc_sender_inv W x" using x by (auto simp: sends_def)
  have "length W + 2 < SIZE_MOD" using T W(1) by (simp add: SIZE_MOD_def)
  note grows = tc_exec_grows [OF W(2) run [of W] this]
  have "tr_run_inv [] iy (tc_receiver x')"
    using tc_exec_delivers [OF _ _ _ seg run [of W]] x by (simp add: sends_def)
  with grows x W flags show ?thesis by (auto simp: sends_def tc_grows_def same_flags_def)
qed

lemma gets_exec:
  assumes T: "length T + 3 \<le> 2 ^ 31" and y: "gets T ix iy received y"
    and run: "tc_exec opn [] received y = Inr ([], received', y')" and seg: "\<forall>seg. opn = Tc_receive seg \<longrightarrow> piece_of T ix seg"
  shows "gets T ix iy received' y'"
proof -
  have "tc_sender_inv [] y" using y by (simp add: gets_def)
  from tc_exec_grows [OF this run] have "tc_grows [] y [] y'" by (simp add: SIZE_MOD_def)
  moreover have "tr_run_inv T ix (tc_receiver y') \<and> received' = take (bs_bytes_read (tc_inbound_stream y')) T"
    using tc_exec_delivers [OF T _ _ seg run] y by (simp add: gets_def)
  ultimately show ?thesis using y by (simp add: gets_def tc_grows_def)
qed

text \<open>Delivering a list of segments.\<close>

lemma sends_receive_all:
  assumes "length T + 3 \<le> 2 ^ 31" and "receive_all segs x = Inr x'" and "\<forall>seg\<in>set segs. piece_of [] iy seg"
    and "bs_error (tc_outbound_stream x) \<or> sends T rest ix iy x"
  shows "bs_error (tc_outbound_stream x') \<or> sends T rest ix iy x'"
  using assms(2-)
proof (induction segs arbitrary: x)
  case (Cons seg segs)
  then obtain x1 where x1: "tc_segment_received x seg = Inr x1" "receive_all segs x1 = Inr x'" by (auto simp: result_bind_Inr_iff)
  note flags = segment_received_flags [OF x1(1)]
  have "bs_error (tc_outbound_stream x1) \<or> sends T rest ix iy x1"
  proof (cases "bs_error (tc_outbound_stream x)")
    case True
    with flags show ?thesis by (auto simp: same_flags_def)
  next
    case False
    with Cons.prems(3) have "sends T rest ix iy x" by simp
    from sends_exec [OF assms(1) this, of "Tc_receive seg" x1] x1(1) Cons.prems(2) flags show ?thesis by simp
  qed
  with Cons.IH [OF x1(2)] Cons.prems(2) show ?case by simp
qed simp

lemma gets_receive_all:
  assumes "length T + 3 \<le> 2 ^ 31" and "receive_all segs y = Inr y'" and "\<forall>seg\<in>set segs. piece_of T ix seg"
    and "gets T ix iy received y"
  shows "gets T ix iy received y'"
  using assms(2-)
proof (induction segs arbitrary: y)
  case (Cons seg segs)
  then obtain y1 where y1: "tc_segment_received y seg = Inr y1" "receive_all segs y1 = Inr y'" by (auto simp: result_bind_Inr_iff)
  have "gets T ix iy received y1"
    using gets_exec [OF assms(1) Cons.prems(3), of "Tc_receive seg" received y1] y1(1) Cons.prems(2) by simp
  with Cons.IH [OF y1(2)] Cons.prems(2) show ?case by simp
qed simp

lemma flushed [simp]:
  "sends T rest ix iy x \<Longrightarrow> sends T rest ix iy (x\<lparr>tc_segments_out := []\<rparr>)"
  "gets T ix iy received y \<Longrightarrow> gets T ix iy received (y\<lparr>tc_segments_out := []\<rparr>)"
  by (auto simp: sends_def gets_def tc_sender_inv_def)

section \<open>A pass of the loop\<close>

text \<open>Once x has failed nothing more is claimed; until then both invariants hold.\<close>

definition bench_inv :: "bytes \<Rightarrow> WrappingInt32 \<Rightarrow> WrappingInt32 \<Rightarrow> benchmark \<Rightarrow> bool" where
  "bench_inv T ix iy b \<longleftrightarrow> Buffer_wf (bn_bytes_to_send b) \<and> sends T (Buffer_str (bn_bytes_to_send b)) ix iy (bn_x b) \<and>
     gets T ix iy (bn_string_received b) (bn_y b)"

abbreviation failed :: "benchmark \<Rightarrow> bool" where
  "failed b \<equiv> bs_error (tc_outbound_stream (bn_x b))"

lemma write_input_returns:
  assumes "length T + 3 \<le> 2 ^ 31" and "bench_inv T ix iy b" and "Buffer_size (bn_bytes_to_send b) < fuel"
  shows "\<exists>b'. write_input fuel b = Inr b' \<and> bench_inv T ix iy b'"
  using assms(2-)
proof (induction fuel arbitrary: b)
  case (Suc fuel)
  let ?x = "bn_x b" and ?send = "bn_bytes_to_send b"
  let ?want = "min (remaining_outbound_capacity ?x) (Buffer_size ?send)"
  let ?data = "take ?want (Buffer_str ?send)"
  show ?case
  proof (cases "Buffer_size ?send \<noteq> 0 \<and> remaining_outbound_capacity ?x \<noteq> 0")
    case False
    then have "write_input (Suc fuel) b = Inr b" by auto
    with Suc.prems(1) show ?thesis by blast
  next
    case True
    from Suc.prems(1) obtain W where W: "T = W @ Buffer_str ?send" "tc_sender_inv W ?x" and wf: "Buffer_wf ?send"
      and open_input: "bs_input_ended (tc_outbound_stream ?x) \<longrightarrow> Buffer_str ?send = []"
      by (auto simp: bench_inv_def sends_def)
    have len: "length ?data = ?want" by (simp add: Buffer_size_def)
    have "\<not> input_ended (tc_outbound_stream ?x)" using open_input True by (auto simp: input_ended_def Buffer_size_def)
    moreover have "length W + length ?data + 2 < SIZE_MOD" using assms(1) W(1) by (simp add: SIZE_MOD_def)
    ultimately obtain x' where x': "tc_write ?x ?data = Inr (x', ?want)" "tc_grows W ?x (W @ ?data) x'"
      using tc_write_all [OF W(2), of ?data] len by auto
    have "?want \<le> length (Buffer_str ?send)" by (simp add: Buffer_size_def)
    from buffer.remove_prefix_ok [OF wf this] obtain rest where
      rest: "Buffer_remove_prefix ?want ?send = Inr rest" "Buffer_wf rest" "Buffer_str rest = drop ?want (Buffer_str ?send)" by blast
    let ?b = "b\<lparr>bn_x := x', bn_bytes_to_send := rest\<rparr>"
    have recv: "tc_receiver x' = tc_receiver ?x"
      using x'(1) by (auto simp: tc_write_def result_bind_Inr_iff split: prod.splits dest: receiver_kept(4))
    have "sends T (Buffer_str rest) ix iy x'"
      using Suc.prems(1) x'(2) W rest(3) tc_write_flags [OF x'(1)] open_input recv
      by (auto simp: bench_inv_def sends_def tc_grows_def same_flags_def intro!: exI [of _ "W @ ?data"])
    then have "bench_inv T ix iy ?b" using Suc.prems(1) rest(2) by (simp add: bench_inv_def)
    moreover have "Buffer_size rest < fuel"
    proof -
      have "Buffer_size rest = Buffer_size ?send - ?want" using rest(3) by (simp add: Buffer_size_def)
      with True Suc.prems(2) show ?thesis by linarith
    qed
    ultimately obtain b' where "write_input fuel ?b = Inr b'" "bench_inv T ix iy b'" using Suc.IH [of ?b] by auto
    moreover have "write_input (Suc fuel) b = write_input fuel ?b" using True x'(1) rest(1) by (simp add: Let_def)
    ultimately show ?thesis by auto
  qed
qed simp

text \<open>A step that keeps a failure and, before one, keeps the invariant or fails.\<close>

definition carries :: "bytes \<Rightarrow> WrappingInt32 \<Rightarrow> WrappingInt32 \<Rightarrow> benchmark \<Rightarrow> benchmark \<Rightarrow> bool" where
  "carries T ix iy b b' \<longleftrightarrow> (failed b \<or> bench_inv T ix iy b \<longrightarrow> failed b' \<or> bench_inv T ix iy b')"

lemma carriesI:
  assumes "failed b \<Longrightarrow> failed b'" and "\<not> failed b \<Longrightarrow> bench_inv T ix iy b \<Longrightarrow> failed b' \<or> bench_inv T ix iy b'"
  shows "carries T ix iy b b'"
  using assms by (auto simp: carries_def)

lemma write_input_failed: "write_input fuel b = Inr b' \<Longrightarrow> failed b' = failed b"
proof (induction fuel arbitrary: b)
  case (Suc fuel)
  then show ?case
    by (fastforce simp: Let_def result_bind_Inr_iff same_flags_def split: if_splits prod.splits dest: tc_write_flags)
qed simp

lemma write_input_carries:
  assumes "length T + 3 \<le> 2 ^ 31" and "write_input (Buffer_size (bn_bytes_to_send b) + 1) b = Inr b'"
  shows "carries T ix iy b b'"
  using write_input_failed [OF assms(2)] write_input_returns [OF assms(1), of ix iy b "Buffer_size (bn_bytes_to_send b) + 1"] assms(2)
  by (intro carriesI) auto

lemma close_input_carries:
  assumes T: "length T + 3 \<le> 2 ^ 31" and close: "close_input b = Inr b'"
  shows "carries T ix iy b b'"
proof (rule carriesI)
  show "failed b'" if "failed b"
    using close that end_input_stream_error by (auto simp: close_input_def result_bind_Inr_iff split: if_splits)
next
  assume inv: "bench_inv T ix iy b"
  show "failed b' \<or> bench_inv T ix iy b'"
  proof (cases "Buffer_size (bn_bytes_to_send b) = 0 \<and> \<not> bn_x_closed b")
    case True
    with close obtain x' where x': "end_input_stream (bn_x b) = Inr x'" "b' = b\<lparr>bn_x := x', bn_x_closed := True\<rparr>"
      by (auto simp: close_input_def result_bind_Inr_iff)
    from inv obtain W where W: "T = W @ Buffer_str (bn_bytes_to_send b)" "tc_sender_inv W (bn_x b)"
      by (auto simp: bench_inv_def sends_def)
    have "length W + 2 < SIZE_MOD" using T W(1) by (simp add: SIZE_MOD_def)
    with end_input_stream_returns [OF W(2)] x'(1) have "tc_grows W (bn_x b) W x'" by auto
    moreover have "tc_receiver x' = tc_receiver (bn_x b)"
      using x'(1) by (auto simp: end_input_stream_def result_bind_Inr_iff receiver_kept(2) dest: receiver_kept(4))
    moreover have "Buffer_str (bn_bytes_to_send b) = []" using True by (simp add: Buffer_size_def)
    ultimately show ?thesis using inv x'(2) W by (auto simp: bench_inv_def sends_def tc_grows_def)
  qed (use close inv in \<open>auto simp: close_input_def\<close>)
qed

lemma receive_all_failed: "receive_all segs x = Inr x' \<Longrightarrow> bs_error (tc_outbound_stream x) \<Longrightarrow> bs_error (tc_outbound_stream x')"
  by (induction segs arbitrary: x) (auto simp: result_bind_Inr_iff same_flags_def dest: segment_received_flags)

lemma exchange_carries:
  assumes T: "length T + 3 \<le> 2 ^ 31" and run: "exchange reorder b = Inr b'"
  shows "carries T ix iy b b'"
proof -
  let ?x = "(bn_x b)\<lparr>tc_segments_out := []\<rparr>"
  let ?segs = "if reorder then rev (tc_segments_out (bn_x b)) else tc_segments_out (bn_x b)"
  from run obtain y1 x1 where
    y1: "receive_all ?segs (bn_y b) = Inr y1" and
    x1: "receive_all (tc_segments_out y1) ?x = Inr x1" and
    b': "b' = b\<lparr>bn_x := x1, bn_y := y1\<lparr>tc_segments_out := []\<rparr>\<rparr>"
    by (auto simp: exchange_def move_segments_def Let_def result_bind_Inr_iff)
  show ?thesis
  proof (rule carriesI)
    show "failed b'" if "failed b" using receive_all_failed [OF x1] that by (simp add: b')
  next
    assume inv: "bench_inv T ix iy b"
    let ?rest = "Buffer_str (bn_bytes_to_send b)"
    have x: "sends T ?rest ix iy (bn_x b)" and y: "gets T ix iy (bn_string_received b) (bn_y b)"
      using inv by (simp_all add: bench_inv_def)
    have "\<forall>seg\<in>set ?segs. piece_of T ix seg" using sends_pieces [OF x] by auto
    from gets_receive_all [OF T y1 this y] have y': "gets T ix iy (bn_string_received b) y1" .
    have "\<forall>seg\<in>set (tc_segments_out y1). piece_of [] iy seg" using gets_pieces [OF y'] by blast
    from sends_receive_all [OF T x1 this, of ?rest ix] flushed(1) [OF x] have "bs_error (tc_outbound_stream x1) \<or> sends T ?rest ix iy x1" by blast
    with y' inv show "failed b' \<or> bench_inv T ix iy b'" by (auto simp: b' bench_inv_def)
  qed
qed

lemma read_output_carries:
  assumes T: "length T + 3 \<le> 2 ^ 31" and run: "read_output b = Inr b'"
  shows "carries T ix iy b b'"
proof (rule carriesI)
  show "failed b'" if "failed b"
    using run that by (auto simp: read_output_def Let_def result_bind_Inr_iff split: if_splits prod.splits)
next
  assume inv: "bench_inv T ix iy b"
  show "failed b' \<or> bench_inv T ix iy b'"
  proof (cases "buffer_size (tc_inbound_stream (bn_y b)) > 0")
    case True
    let ?op = "Tc_read (buffer_size (tc_inbound_stream (bn_y b)))"
    from True run obtain y' received where
      y': "tc_exec ?op [] (bn_string_received b) (bn_y b) = Inr ([], received, y')" and
      b': "b' = b\<lparr>bn_y := y', bn_string_received := received\<rparr>"
      by (auto simp: read_output_def Let_def result_bind_Inr_iff split: prod.splits)
    from gets_exec [OF T _ y'] inv show ?thesis by (simp add: b' bench_inv_def)
  qed (use run inv in \<open>simp add: read_output_def Let_def\<close>)
qed

lemma tick_carries:
  assumes T: "length T + 3 \<le> 2 ^ 31"
  shows "carries T ix iy b (b\<lparr>bn_x := tc_tick (bn_x b) 1000, bn_y := tc_tick (bn_y b) 1000\<rparr>)"
proof (rule carriesI)
  let ?b = "b\<lparr>bn_x := tc_tick (bn_x b) 1000, bn_y := tc_tick (bn_y b) 1000\<rparr>"
  show "failed ?b" if "failed b" using tick_flags [of "bn_x b" 1000] that by (auto simp: same_flags_def)
  assume "bench_inv T ix iy b"
  then have wf: "Buffer_wf (bn_bytes_to_send b)" and x: "sends T (Buffer_str (bn_bytes_to_send b)) ix iy (bn_x b)"
    and y: "gets T ix iy (bn_string_received b) (bn_y b)" by (simp_all add: bench_inv_def)
  have x': "tc_exec (Tc_tick 1000) W [] (bn_x b) = Inr (W, [], tc_tick (bn_x b) 1000)" for W by (rule tc_exec.simps)
  have y': "tc_exec (Tc_tick 1000) [] (bn_string_received b) (bn_y b) = Inr ([], bn_string_received b, tc_tick (bn_y b) 1000)"
    by (rule tc_exec.simps)
  show "failed ?b \<or> bench_inv T ix iy ?b"
    using sends_exec [OF T x x' _ tick_flags] gets_exec [OF T y y'] wf by (simp add: bench_inv_def)
qed

lemma bench_loop_carries:
  assumes T: "length T + 3 \<le> 2 ^ 31" and run: "bench_loop reorder b = Inr b'"
  shows "carries T ix iy b b'"
proof -
  from run obtain b1 b2 b3 b4 where b: "write_input (Buffer_size (bn_bytes_to_send b) + 1) b = Inr b1"
    "close_input b1 = Inr b2" "exchange reorder b2 = Inr b3" "read_output b3 = Inr b4"
    "b' = b4\<lparr>bn_x := tc_tick (bn_x b4) 1000, bn_y := tc_tick (bn_y b4) 1000\<rparr>"
    by (auto simp: bench_loop_def result_bind_Inr_iff)
  show ?thesis
    using write_input_carries [OF T b(1), of ix iy] close_input_carries [OF T b(2), of ix iy] exchange_carries [OF T b(3), of ix iy]
      read_output_carries [OF T b(4), of ix iy] tick_carries [OF T, of ix iy b4] b(5)
    unfolding carries_def by blast
qed

section \<open>Any number of passes\<close>

fun bench_passes :: "nat \<Rightarrow> bool \<Rightarrow> benchmark \<Rightarrow> benchmark result" where
  "bench_passes 0 reorder b = Inr b"
| "bench_passes (Suc n) reorder b = result_bind (bench_loop reorder b) (bench_passes n reorder)"

text \<open>What the loop returns is the state after some number of passes, at the end of the stream.\<close>

definition ends_at_eof :: "bool \<Rightarrow> benchmark \<Rightarrow> benchmark result \<Rightarrow> bool" where
  "ends_at_eof reorder b r \<longleftrightarrow>
     (\<forall>b'. r = Inr b' \<longrightarrow> eof (tc_inbound_stream (bn_y b')) \<and> (\<exists>n. bench_passes n reorder b = Inr b'))"

lemma bench_transfer_passes: "bench_transfer reorder b = Some r \<Longrightarrow> ends_at_eof reorder b r"
proof (rule bench_transfer.raw_induct [where P = ends_at_eof])
  fix transfer reorder b r
  assume IH: "\<And>reorder b r. transfer reorder b = Some r \<Longrightarrow> ends_at_eof reorder b r"
    and body: "(if eof (tc_inbound_stream (bn_y b)) then Some (Inr b)
      else case bench_loop reorder b of Inl e \<Rightarrow> Some (Inl e) | Inr b \<Rightarrow> transfer reorder b) = Some r"
  show "ends_at_eof reorder b r"
  proof (cases "eof (tc_inbound_stream (bn_y b))")
    case True
    with body show ?thesis by (auto simp: ends_at_eof_def intro: exI [of _ 0])
  next
    case False
    show ?thesis
    proof (cases "bench_loop reorder b")
      case (Inl e)
      with body False show ?thesis by (auto simp: ends_at_eof_def)
    next
      case (Inr b1)
      have "bench_passes (Suc n) reorder b = bench_passes n reorder b1" for n using Inr by simp
      then have "\<exists>n. bench_passes n reorder b = Inr b'" if "\<exists>n. bench_passes n reorder b1 = Inr b'" for b' using that by metis
      moreover have "ends_at_eof reorder b1 r" using body False Inr IH by simp
      ultimately show ?thesis by (simp add: ends_at_eof_def)
    qed
  qed
qed

lemma bench_passes_carries:
  "length T + 3 \<le> 2 ^ 31 \<Longrightarrow> bench_passes n reorder b = Inr b' \<Longrightarrow> carries T ix iy b b'"
proof (induction n arbitrary: b)
  case 0
  then show ?case by (simp add: carries_def)
next
  case (Suc n)
  then obtain b1 where "bench_loop reorder b = Inr b1" "bench_passes n reorder b1 = Inr b'" by (auto simp: result_bind_Inr_iff)
  with Suc bench_loop_carries [OF Suc.prems(1)] show ?case unfolding carries_def by blast
qed

lemma new_connection:
  "tc_sender_inv [] (TCPConnection_new TCPConfig_default r)" "sd_isn (tc_sender (TCPConnection_new TCPConfig_default r)) = r"
  "length S + 3 \<le> 2 ^ 31 \<Longrightarrow> tr_run_inv S isn (tc_receiver (TCPConnection_new TCPConfig_default r))"
  "bs_bytes_read (tc_inbound_stream (TCPConnection_new TCPConfig_default r)) = 0"
  "\<not> bs_input_ended (tc_outbound_stream (TCPConnection_new TCPConfig_default r))"
  by (simp_all add: tc_sender_inv_def TCPConnection_new_def sd_inv_new TCPConfig_default_def DEFAULT_CAPACITY_def SIZE_MOD_def
      tr_run_inv_new TCPReceiver_new_simps)
    (simp_all add: TCPSender_new_def ByteStream_new_def)

lemma bench_start_inv:
  assumes T: "length T + 3 \<le> 2 ^ 31"
  shows "\<exists>b. bench_start T ix iy = Inr b \<and> bench_inv T ix iy b"
proof -
  let ?x = "TCPConnection_new TCPConfig_default ix" and ?y = "TCPConnection_new TCPConfig_default iy"
  have "sd_inv [] (tc_sender ?x)" using new_connection(1) by (simp add: tc_sender_inv_def)
  from fill_window_spec [OF this] obtain x1 where x1: "fill_and_send ?x = Inr x1" by (auto simp: fill_and_send_def)
  then have x: "tc_exec Tc_connect [] [] ?x = Inr ([], [], check_done x1)" "connect ?x = Inr (check_done x1)"
    by (simp_all add: connect_def)
  from tc_exec_grows [OF new_connection(1) x(1)] have "tc_grows [] ?x [] (check_done x1)" by (simp add: SIZE_MOD_def)
  then have sends: "sends T T ix iy (check_done x1)"
    using fill_and_send_flags [OF x1] receiver_kept(4) [OF x1] new_connection(2,3,5) [where r = ix]
    by (simp add: sends_def tc_grows_def receiver_kept(2) same_flags_def)
  obtain y where y: "end_input_stream ?y = Inr y" "tc_grows [] ?y [] y"
    using end_input_stream_returns [OF new_connection(1)] by (auto simp: SIZE_MOD_def)
  have "tc_receiver y = tc_receiver ?y"
    using y(1) by (auto simp: end_input_stream_def result_bind_Inr_iff receiver_kept(2) dest: receiver_kept(4))
  then have gets: "gets T ix iy [] y" using y(2) new_connection(2-4) [where r = iy] T by (simp add: gets_def tc_grows_def)
  have "length T < SIZE_MOD" using T by (simp add: SIZE_MOD_def)
  with sends gets show ?thesis by (simp add: bench_start_def x(2) y(1) bench_inv_def)
qed

text \<open>At the end of y's stream everything has been received.\<close>

lemma gets_eof:
  assumes "gets T ix iy received y" and "eof (tc_inbound_stream y)"
  shows "received = T"
proof -
  let ?st = "tc_inbound_stream y"
  have inv: "run_inv T (tr_reassembler (tc_receiver y))" using assms(1) by (simp add: gets_def tr_run_inv_def)
  then have i: "sr_inv (length T + 1) (tr_reassembler (tc_receiver y))" by (simp add: run_inv_def)
  have "bs_bytes_written ?st = length T" using inv assms(2) by (simp add: run_inv_def eof_def)
  moreover have "bs_contents ?st = []"
    using assms(2) i ByteStream_invD(2) by (simp add: eof_def buffer_empty_def sr_inv_def)
  moreover have "bs_bytes_read ?st + length (bs_contents ?st) = bs_bytes_written ?st" using i by (simp add: sr_inv_def)
  ultimately show ?thesis using assms(1) by (simp add: gets_def)
qed

section \<open>Properties\<close>

text \<open>
  C26. The benchmark: whatever string is sent, with or without reversing the order of the segments, after any
  number of passes of its loop, unless a reset has failed the sending connection, what has been
  received is a prefix of the string, the next pass writes all it can, and at the end of the stream,
  where the first loop of the benchmark returns, the comparison of the strings succeeds.
\<close>

theorem benchmark_strings_match:
  assumes "length T + 3 \<le> 2 ^ 31"
  shows "\<exists>b0. bench_start T ix iy = Inr b0 \<and>
    (\<forall>n b. bench_passes n reorder b0 = Inr b \<longrightarrow> failed b \<or>
      prefix (bn_string_received b) T \<and> (\<exists>b'. write_input (Buffer_size (bn_bytes_to_send b) + 1) b = Inr b') \<and>
      (eof (tc_inbound_stream (bn_y b)) \<longrightarrow> compare_strings T b = Inr b)) \<and>
    (\<forall>b. bench_transfer reorder b0 = Some (Inr b) \<longrightarrow> failed b \<or> compare_strings T b = Inr b)"
proof -
  obtain b0 where b0: "bench_start T ix iy = Inr b0" "bench_inv T ix iy b0" using bench_start_inv [OF assms] by blast
  have passes: "prefix (bn_string_received b) T \<and> (\<exists>b'. write_input (Buffer_size (bn_bytes_to_send b) + 1) b = Inr b') \<and>
      (eof (tc_inbound_stream (bn_y b)) \<longrightarrow> compare_strings T b = Inr b)"
    if run: "bench_passes n reorder b0 = Inr b" and ok: "\<not> failed b" for n b
  proof -
    have inv: "bench_inv T ix iy b" using bench_passes_carries [OF assms run] b0(2) ok by (auto simp: carries_def)
    then have y: "gets T ix iy (bn_string_received b) (bn_y b)" by (simp add: bench_inv_def)
    have "prefix (bn_string_received b) T" using y by (simp add: gets_def take_is_prefix)
    moreover have "\<exists>b'. write_input (Buffer_size (bn_bytes_to_send b) + 1) b = Inr b'"
      using write_input_returns [OF assms inv, of "Buffer_size (bn_bytes_to_send b) + 1"] by auto
    ultimately show ?thesis using gets_eof [OF y] by (auto simp: compare_strings_def)
  qed
  moreover have "failed b \<or> compare_strings T b = Inr b" if "bench_transfer reorder b0 = Some (Inr b)" for b
    using bench_transfer_passes [OF that] passes by (auto simp: ends_at_eof_def)
  ultimately show ?thesis using b0(1) by blast
qed

theorem benchmark_strings_match_witness:
  "\<exists>b0. bench_start [1, 2, 3] 7 9 = Inr b0 \<and>
    (\<forall>n b. bench_passes n True b0 = Inr b \<longrightarrow> failed b \<or>
      prefix (bn_string_received b) [1, 2, 3] \<and> (eof (tc_inbound_stream (bn_y b)) \<longrightarrow> compare_strings [1, 2, 3] b = Inr b))"
proof -
  have "length ([1, 2, 3] :: bytes) + 3 \<le> 2 ^ 31" by simp
  from benchmark_strings_match [OF this, of 7 9 True] show ?thesis by blast
qed

end
