(* ===== verification/Spec2Isabelle.thy ===== *)
theory Spec2Isabelle
  imports Buffers Byte_Stream Wrapping_Integers Stream_Reassembler Reassembler_Contract
    Net_Parser Internet_Checksum TCP_Segment TCP_Receiver TCP_Sender Sender_Contract Sender_Properties
    TCP_Connection Connection_Contract Two_Endpoints IPv4 Link_Layer
    Printing Router_Properties Adapter_Properties Sponge_Properties
    Stream_Copy Command_Line Webget Udp_Tcpdump Network_Simulator Tcp_Benchmark
begin

text \<open>
  A verification library for the sponge TCP/IP stack: libsponge and the programs under apps/.

  \<^bold>\<open>The program.\<close> libsponge is a user-level TCP/IP stack in layers. A byte stream is the
  flow-controlled buffer between a writer and a reader; the stream reassembler turns substrings that
  arrive in any order into such a stream; sequence numbers of 32 bits are translated to 64-bit
  positions and back. The TCP receiver and sender sit on these, the TCP connection on both of them.
  Below are the wire formats (TCP, IPv4, Ethernet, ARP), the network interface that resolves addresses
  with ARP, the router, and the adapters that carry segments over UDP, TUN and TAP devices. An event
  loop over file descriptors joins a connection, an adapter and the application's end of a pair of
  local sockets in the sponge socket. The programs under apps/ copy between such a socket and the
  standard streams, fetch a page, monitor packets, simulate a network and measure throughput.

  \<^bold>\<open>How the code is modelled.\<close> A class is a record and each of its operations one definition that
  takes and returns the object. Bytes are \<open>8 word\<close>, header fields and sequence numbers words of their
  width; a size\_t or uint64\_t is a natural number, added and subtracted with \<open>add64\<close> and \<open>sub64\<close>, which
  wrap. Whatever can throw or leave its memory returns a \<open>result\<close> with the \<open>cpp_error\<close>; operations with
  effects on the system (\<open>io\<close>) keep the state also when they throw. The kernel (a record with one function per system call),
  the resolver (getaddrinfo, getnameinfo), random numbers and the clock are parameters; what the code
  relies on of them is a named predicate (\<open>writev_conforms\<close>, \<open>read_conforms\<close>, \<open>kernel_ok\<close>,
  \<open>numeric_resolver\<close>) that a concrete instance (\<open>toy_kernel\<close>, \<open>dotted_resolver\<close>) satisfies. Operations
  that reach an assert take the flag of the build; their clients use the Release build.

  \<^bold>\<open>The theories.\<close>

  \<^item> \<open>Sponge_Prelude\<close>: machine sizes, failures as values, the relation \<open>returns_as\<close> between Debug and
    Release builds, the locale \<open>driven_component\<close> of invariants over runs.
  \<^item> \<open>Buffers\<close> (util/buffer): the locale \<open>prefix_container\<close>, interpreted for \<open>Buffer\<close>, \<open>BufferList\<close> and
    \<open>BufferViewList\<close>.
  \<^item> \<open>Byte_Stream\<close> (byte\_stream): the locale \<open>bounded_fifo\<close>; any sequence of operations conserves the bytes
    in order and respects the capacity.
  \<^item> \<open>Wrapping_Integers\<close> (wrapping\_integers): \<open>unwrap\<close> is the closest preimage of \<open>wrap\<close>; the locale
    \<open>seqno_codec\<close>.
  \<^item> \<open>Stream_Reassembler\<close>, \<open>Reassembler_Contract\<close> (stream\_reassembler): the effect of \<open>push_substring\<close> on every
    branch, that runs deliver a prefix of the stream, and all of it once the pushed pieces cover it,
    and exactly when a push leaves its memory.
  \<^item> \<open>TCP_Receiver\<close> (tcp\_receiver): the receiver delivers a prefix, its ackno and window follow.
  \<^item> \<open>TCP_Sender\<close>, \<open>Sender_Contract\<close>, \<open>Sender_Properties\<close> (tcp\_sender, tcp\_helpers/tcp\_config): the invariant
    \<open>sd_inv\<close>; what is sent are pieces of the stream that cover it, in the window, and fill it;
    acknowledgments by sequence numbers refine removal by positions; timeouts and their doubling.
  \<^item> \<open>TCP_Connection\<close>, \<open>Connection_Contract\<close>, \<open>Two_Endpoints\<close> (tcp\_connection, tcp\_helpers/tcp\_state): one
    endpoint, its sending and its receiving half, and two of them over a network that loses,
    duplicates and reorders. The end-to-end properties are in this theory.
  \<^item> \<open>Net_Parser\<close> (util/parser), \<open>Internet_Checksum\<close> (util/util), \<open>TCP_Segment\<close>, \<open>IPv4\<close>, \<open>Link_Layer\<close>
    (tcp\_helpers/tcp\_header, tcp\_segment, ipv4\_header, ipv4\_datagram, ethernet\_header, ethernet\_frame,
    arp\_message): the locale \<open>int_codec\<close>; round trips of serializers and parsers, totality of parsers,
    detection of changed bytes.
  \<^item> \<open>Text_Format\<close>, \<open>Printing\<close>: printed forms of headers and messages, hexdump.
  \<^item> \<open>Addresses\<close> (util/address): socket addresses over the resolver.
  \<^item> \<open>Network_Interface\<close>, \<open>Interface_Contract\<close>, \<open>Interface_Properties\<close> (network\_interface): the locale
    \<open>interface_invariant\<close> with four interpretations; datagrams are conserved and sent to claimed
    addresses, ARP requests are limited, the cache expires.
  \<^item> \<open>Router\<close>, \<open>Route_Table\<close>, \<open>Router_Properties\<close> (router): the trie refines longest-prefix match on the list
    of routes; \<open>route\<close> forwards every datagram once.
  \<^item> \<open>Adapters\<close>, \<open>Adapter_Properties\<close> (tcp\_helpers/tcp\_over\_ip, fd\_adapter, tuntap\_adapter, lossy\_fd\_adapter): a
    written segment is read by the peer; what a listening and a connected adapter accept.
  \<^item> \<open>File_Descriptor\<close>, \<open>Sockets\<close> (util/file\_descriptor, util/socket, util/tun, SystemCall and timestamp\_ms
    of util/util): descriptors and sockets over the kernel; writing delivers every byte once and in order.
  \<^item> \<open>Event_Loop\<close>, \<open>Loop_Invariants\<close> (util/eventloop): which rules are served and kept; a calculus of invariants
    (\<open>keeps\<close>, \<open>maintains\<close>, \<open>steady\<close>) for the clients of the loop.
  \<^item> \<open>Sponge_Socket\<close>, \<open>Sponge_Properties\<close> (tcp\_helpers/tcp\_sponge\_socket): the rules of the socket, connecting,
    listening and the thread; the application reads a prefix of the peer's stream, and what it writes
    enters the stream of the connection.
  \<^item> \<open>Stream_Copy\<close>, \<open>Command_Line\<close>, \<open>Webget\<close>, \<open>Udp_Tcpdump\<close>, \<open>Network_Simulator\<close>, \<open>Tcp_Benchmark\<close> (apps/): the copy conserves
    the bytes in both directions, the options are applied in order, the web client never ends, when the
    monitor leaves its packet and that it finds what was sent, the exact meaning of the simulator's
    check, and that the strings of the benchmark match.

  \<^bold>\<open>Bounds and fuel.\<close> Runs of a receiver or of two endpoints are bounded by streams of \<open>2 ^ 31 - 3\<close> bytes:
  then every absolute sequence number lies within half a cycle of every checkpoint, where \<open>unwrap\<close>
  decodes it; single steps and the codec have no such bound. Counters of 64 bits are bounded by
  \<open>SIZE_MOD\<close> where a sum must not wrap. The loop of \<open>fill_window\<close> gets as many passes as the stream holds
  bytes, plus two; \<open>fill_loop_spec\<close> shows that this is enough; the writing loop of
  the benchmark gets one more than there are bytes to send (\<open>write_input_returns\<close>). The other loops are total functions,
  except those that may run forever, the loops of the sponge socket, of the stream copy, of the web
  client and of the benchmark: they are partial functions into \<open>option\<close>, and the theorems speak of any number of their
  passes. Checksum properties bound the message so that the 32-bit sum does not wrap.

  \<^bold>\<open>Not modelled.\<close> Messages on cerr and usage texts, which no state depends on (where a message computes
  something that can throw, the computation is kept). The threads of a sponge socket run interleaved
  with its owner only through the kernel state, the abort flag and, in \<open>Webget\<close>, an arbitrary step of
  the thread before each test; data races on other members are not considered. The conversion of a
  loss rate by floating-point arithmetic, the text of IPv6 addresses and libpcap are parameters. The
  main functions of tcp\_ipv4, tcp\_udp and tcp\_ip\_ethernet only compose the modelled parts across
  threads; tun.cc prints in an endless loop what the modelled parsers return; the time the
  benchmark measures is left out. The test programs and documentation examples are no part of the library.
\<close>

section \<open>Two endpoints over an unreliable network\<close>

text \<open>
  C1. End to end: two endpoints with any configuration, driven by any sequence of calls of their
  applications and clocks, over a network that delivers any emitted segment at any time, any number
  of times or never. What the application on one side has read, followed by what waits for it, is a
  prefix of what the application on the other side wrote, in both directions; and a side that sees
  the end of its inbound stream has received all of it.
\<close>

theorem tcp_reliable_delivery:
  assumes "net_run ops (net_new cfg r) = Inr n"
    and "\<forall>p. cfg_send_capacity (cfg p) < SIZE_MOD" and "\<forall>p. cfg_recv_capacity (cfg p) < 2 ^ 63"
    and "\<forall>p. length (ep_written (n p)) + 3 \<le> 2 ^ 31"
  shows "ep_read (n p) @ bs_contents (tc_inbound_stream (ep_conn (n p))) =
      take (bytes_written (tc_inbound_stream (ep_conn (n p)))) (ep_written (n (\<not> p))) \<and>
    (input_ended (tc_inbound_stream (ep_conn (n p))) \<longrightarrow>
      ep_read (n p) @ bs_contents (tc_inbound_stream (ep_conn (n p))) = ep_written (n (\<not> p)))"
proof -
  let ?S = "ep_written (n (\<not> p))" and ?st = "tc_inbound_stream (ep_conn (n p))"
  have "reads_inv ?S (initial_isn (cfg (\<not> p)) (r (\<not> p))) (cfg_recv_capacity (cfg p)) (n p)"
    using net_run_inv(2) [OF assms] by blast
  then have rd: "ep_read (n p) = take (bs_bytes_read ?st) ?S" and run: "run_inv ?S (tr_reassembler (tc_receiver (ep_conn (n p))))"
    by (simp_all add: reads_inv_def tr_run_inv_def)
  have "ep_read (n p) @ bs_contents ?st = take (bs_bytes_written ?st) ?S"
    using run_inv_prefix [OF run] rd by simp
  moreover have "bs_bytes_written ?st = length ?S" if "input_ended ?st"
    using run that by (simp add: run_inv_def input_ended_def)
  ultimately show ?thesis by (auto simp: bytes_written_def)
qed

theorem tcp_reliable_delivery_witness:
  "\<exists>n. net_run [Local False Tc_connect, Deliver True 0, Deliver False 0, Local False (Tc_write [1, 2, 3]), Deliver True 2,
        Deliver True 1, Local True (Tc_read 2)] (net_new (\<lambda>p. TCPConfig_default) (\<lambda>p. 7)) = Inr n \<and>
    ep_read (n True) @ bs_contents (tc_inbound_stream (ep_conn (n True))) =
      take (bytes_written (tc_inbound_stream (ep_conn (n True)))) (ep_written (n False))"
proof -
  let ?ops = "[Local False Tc_connect, Deliver True 0, Deliver False 0, Local False (Tc_write [1, 2, 3]), Deliver True 2,
        Deliver True 1, Local True (Tc_read 2)]"
  have cap: "\<forall>p::bool. cfg_send_capacity TCPConfig_default < SIZE_MOD" "\<forall>p::bool. cfg_recv_capacity TCPConfig_default < 2 ^ 63"
    by (simp_all add: TCPConfig_default_def DEFAULT_CAPACITY_def SIZE_MOD_def)
  have bytes: "sum_list (map (net_op_bytes p) ?ops) \<le> 3" for p by (cases p) simp_all
  then have small: "\<forall>p. sum_list (map (net_op_bytes p) ?ops) + 3 \<le> 2 ^ 31"
      "\<forall>p. sum_list (map (net_op_bytes (\<not> p)) ?ops) < cfg_recv_capacity TCPConfig_default"
    by (auto simp: TCPConfig_default_def DEFAULT_CAPACITY_def intro: le_less_trans)
  from net_run_returns [OF cap small] obtain n where n: "net_run ?ops (net_new (\<lambda>p. TCPConfig_default) (\<lambda>p. 7)) = Inr n" by blast
  have "length (ep_written (n p)) \<le> 3" for p
    using net_run_written [OF n, of p] bytes [of p] by (simp add: net_new_def endpoint_new_def)
  from le_trans [OF this, of 2147483645] have "\<forall>p. length (ep_written (n p)) + 3 \<le> 2 ^ 31" by simp
  from tcp_reliable_delivery [OF n cap this, of True] n show ?thesis by auto
qed

text \<open>
  C2. No sequence of calls and deliveries makes an endpoint fail, as long as what either side writes
  is shorter than the receive capacity of the other.
\<close>

theorem tcp_endpoints_return:
  assumes "\<forall>p. cfg_send_capacity (cfg p) < SIZE_MOD" and "\<forall>p. cfg_recv_capacity (cfg p) < 2 ^ 63"
    and "\<forall>p. sum_list (map (net_op_bytes p) ops) + 3 \<le> 2 ^ 31"
    and "\<forall>p. sum_list (map (net_op_bytes (\<not> p)) ops) < cfg_recv_capacity (cfg p)"
  shows "\<exists>n. net_run ops (net_new cfg r) = Inr n \<and> (\<forall>p. sd_inv (ep_written (n p)) (tc_sender (ep_conn (n p))))"
proof -
  from net_run_returns [OF assms] obtain n where n: "net_run ops (net_new cfg r) = Inr n" by blast
  have "length (ep_written (n p)) + 3 \<le> 2 ^ 31" for p
    using net_run_written [OF n, of p] assms(3) [THEN spec, of p] by (simp add: net_new_def endpoint_new_def)
  then have "\<forall>p. sends_inv (initial_isn (cfg p) (r p)) (n p)" using net_run_inv(1) [OF n assms(1,2)] by blast
  with n show ?thesis by (auto simp: sends_inv_def tc_sender_inv_def)
qed

theorem tcp_endpoints_return_witness:
  "\<exists>n. net_run [Local False Tc_connect, Deliver True 0, Local True (Tc_tick 1000), Deliver False 0, Deliver False 0, Local False Tc_close]
     (net_new (\<lambda>p. TCPConfig_default) (\<lambda>p. 7)) = Inr n"
proof -
  let ?ops = "[Local False Tc_connect, Deliver True 0, Local True (Tc_tick 1000), Deliver False 0, Deliver False 0, Local False Tc_close]"
  have h: "\<forall>p::bool. cfg_send_capacity TCPConfig_default < SIZE_MOD" "\<forall>p::bool. cfg_recv_capacity TCPConfig_default < 2 ^ 63"
    "\<forall>p. sum_list (map (net_op_bytes p) ?ops) + 3 \<le> 2 ^ 31"
    "\<forall>p. sum_list (map (net_op_bytes (\<not> p)) ?ops) < cfg_recv_capacity TCPConfig_default"
    by (simp_all add: TCPConfig_default_def DEFAULT_CAPACITY_def SIZE_MOD_def)
  from tcp_endpoints_return [OF h, of "\<lambda>p. 7"] show ?thesis by blast
qed

end
